(* ===== verification/Alioth_Prelude.thy ===== *)
theory Alioth_Prelude
  imports Main "HOL-Library.Word"
begin

text \<open>
  Shared vocabulary of the development: the machine integers of the source, the result
  type of fallible code, state-passing sequencing, the bit helpers of
  \<^verbatim>\<open>alioth/src/utils/utils.rs\<close>, little-endian byte strings, and the generic facts on words
  and lists that every component uses.

  Arithmetic follows the release profile of \<^verbatim>\<open>Cargo.toml\<close>, which leaves overflow checks
  off: \<open>+\<close>, \<open>-\<close> and \<open>*\<close> on a fixed-width integer wrap, and a shift takes its amount modulo
  the width. \<open>Panic\<close> is what \<^verbatim>\<open>assert!\<close>, \<^verbatim>\<open>unreachable!\<close>, an out-of-range index or a division
  by zero does in every profile.
\<close>

unbundle bit_operations_syntax

named_theorems unat_simps \<open>reading word operations as natural numbers\<close>
named_theorems outcome_splits \<open>case splits for the result types\<close>

section \<open>Machine integers\<close>

type_synonym u8 = "8 word"
type_synonym u16 = "16 word"
type_synonym u32 = "32 word"
type_synonym u64 = "64 word"

section \<open>Results\<close>

text \<open>\<^verbatim>\<open>Result<T, E>\<close> of the source, with a third case for a panic.\<close>

datatype ('a, 'e) outcome = Ok 'a | Err 'e | Panic

declare outcome.splits [outcome_splits]

definition obind :: "('a, 'e) outcome \<Rightarrow> ('a \<Rightarrow> ('b, 'e) outcome) \<Rightarrow> ('b, 'e) outcome" where
  "obind m f = (case m of Ok a \<Rightarrow> f a | Err e \<Rightarrow> Err e | Panic \<Rightarrow> Panic)"

text \<open>
  The state-passing form: an operation maps a state to its result and the state it leaves,
  also when it fails, because an early return with \<^verbatim>\<open>?\<close> keeps the effects made so far.
\<close>

type_synonym ('s, 'a, 'e) op = "'s \<Rightarrow> ('a, 'e) outcome \<times> 's"

definition sret :: "'a \<Rightarrow> ('s, 'a, 'e) op" where
  "sret a s = (Ok a, s)"

definition sbind :: "('s, 'a, 'e) op \<Rightarrow> ('a \<Rightarrow> ('s, 'b, 'e) op) \<Rightarrow> ('s, 'b, 'e) op" where
  "sbind m f s = (case m s of
      (Ok a, s') \<Rightarrow> f a s'
    | (Err e, s') \<Rightarrow> (Err e, s')
    | (Panic, s') \<Rightarrow> (Panic, s'))"

text \<open>\<^verbatim>\<open>for x in xs { f(x)?; }\<close>\<close>

fun sforeach :: "('x \<Rightarrow> ('s, unit, 'e) op) \<Rightarrow> 'x list \<Rightarrow> ('s, unit, 'e) op" where
  "sforeach f [] s = (Ok (), s)"
| "sforeach f (x # xs) s = sbind (f x) (\<lambda>_. sforeach f xs) s"

lemma obind_simps [simp]:
  "obind (Ok a) f = f a" "obind (Err e) f = Err e" "obind Panic f = Panic"
  by (simp_all add: obind_def)

lemma obind_Ok_iff: "obind m f = Ok b \<longleftrightarrow> (\<exists>a. m = Ok a \<and> f a = Ok b)"
  by (cases m) auto

lemma sret_simp [simp]: "sret a s = (Ok a, s)"
  by (simp add: sret_def)

lemma sbind_Ok [simp]: "m s = (Ok a, s') \<Longrightarrow> sbind m f s = f a s'"
  and sbind_Err [simp]: "m s = (Err e, s') \<Longrightarrow> sbind m f s = (Err e, s')"
  and sbind_Panic [simp]: "m s = (Panic, s') \<Longrightarrow> sbind m f s = (Panic, s')"
  by (simp_all add: sbind_def)

lemma sbind_eq_Ok:
  "sbind m f s = (Ok b, s'') \<longleftrightarrow> (\<exists>a s'. m s = (Ok a, s') \<and> f a s' = (Ok b, s''))"
  by (auto simp: sbind_def split: prod.splits outcome.splits)

lemma sforeach_Nil_eq [simp]: "sforeach f [] = sret ()"
  by (rule ext) simp

lemma sforeach_append:
  "sforeach f (xs @ ys) s = sbind (sforeach f xs) (\<lambda>_. sforeach f ys) s"
  by (induction xs arbitrary: s) (auto simp: sbind_def split: prod.splits outcome.splits)

text \<open>An invariant kept by every step is kept by the loop, whether it finishes or not.\<close>

lemma sforeach_invariant:
  assumes "\<And>x s r s'. x \<in> set xs \<Longrightarrow> I s \<Longrightarrow> f x s = (r, s') \<Longrightarrow> I s'"
    and "I s" and "sforeach f xs s = (r, s')"
  shows "I s'"
  using assms
proof (induction xs arbitrary: s)
  case Nil
  then show ?case by simp
next
  case (Cons x xs)
  obtain r1 s1 where x: "f x s = (r1, s1)" by fastforce
  have I1: "I s1" using Cons.prems(1)[of x s r1 s1] Cons.prems(2) x by simp
  show ?case
  proof (cases r1)
    case (Ok u)
    with Cons.prems(3) x have "sforeach f xs s1 = (r, s')" by simp
    then show ?thesis using Cons.IH[of s1] Cons.prems(1) I1 by (meson list.set_intros(2))
  qed (use Cons.prems(3) x I1 in auto)
qed

text \<open>Operations that leave a part \<open>v\<close> of the state alone compose.\<close>

definition keeps :: "('s \<Rightarrow> 'v) \<Rightarrow> ('s, 'a, 'e) op \<Rightarrow> bool" where
  "keeps v f \<longleftrightarrow> (\<forall>s. v (snd (f s)) = v s)"

lemma keepsD: "keeps v f \<Longrightarrow> f s = (r, s') \<Longrightarrow> v s' = v s"
  unfolding keeps_def by (metis snd_conv)

lemma keeps_sret [simp]: "keeps v (sret a)"
  by (simp add: keeps_def)

lemma keeps_sbind:
  assumes "keeps v f" "\<And>a. keeps v (g a)"
  shows "keeps v (sbind f g)"
  unfolding keeps_def
proof
  fix s
  obtain r s' where f: "f s = (r, s')" by (rule prod.exhaust)
  have "v s' = v s" using keepsD[OF assms(1) f] .
  then show "v (snd (sbind f g s)) = v s"
    using f assms(2)[unfolded keeps_def, rule_format, of _ s'] by (cases r) simp_all
qed

lemma keeps_sforeach:
  assumes "\<And>x. keeps v (f x)"
  shows "keeps v (sforeach f xs)"
proof (induction xs)
  case (Cons x xs)
  have "sforeach f (x # xs) = sbind (f x) (\<lambda>_. sforeach f xs)" by (rule ext) simp
  then show ?case using Cons assms by (simp add: keeps_sbind)
qed (simp add: keeps_def)

section \<open>Checked and shifting arithmetic\<close>

definition checked_add :: "'a::len word \<Rightarrow> 'a word \<Rightarrow> 'a word option" where
  "checked_add a b = (if unat a + unat b < 2 ^ LENGTH('a) then Some (a + b) else None)"

definition shl :: "'a::len word \<Rightarrow> nat \<Rightarrow> 'a word" where
  "shl w n = push_bit (n mod LENGTH('a)) w"

definition shr :: "'a::len word \<Rightarrow> nat \<Rightarrow> 'a word" where
  "shr w n = drop_bit (n mod LENGTH('a)) w"

lemma checked_add_None_iff: "checked_add a b = None \<longleftrightarrow> 2 ^ LENGTH('a) \<le> unat a + unat b"
  for a b :: "'a::len word"
  by (auto simp: checked_add_def)

lemma unat_checked_add: "checked_add a b = Some c \<Longrightarrow> unat c = unat a + unat b"
  for a b :: "'a::len word"
  by (auto simp: checked_add_def unat_word_ariths split: if_splits)

lemma unat_plus_no_wrap [unat_simps]:
  "unat a + unat b < 2 ^ LENGTH('a) \<Longrightarrow> unat (a + b) = unat a + unat b"
  for a b :: "'a::len word"
  by (simp add: unat_word_ariths)

lemma unat_minus_le [unat_simps]: "b \<le> a \<Longrightarrow> unat (a - b) = unat a - unat b"
  for a b :: "'a::len word"
  by (rule unat_sub)

lemma unat_minus_1 [unat_simps]: "a \<noteq> 0 \<Longrightarrow> unat (a - 1) = unat a - 1"
  for a :: "'a::len word"
  by (metis unat_minus_one)

lemma unat_uminus [unat_simps]: "a \<noteq> 0 \<Longrightarrow> unat (- a) = 2 ^ LENGTH('a) - unat a"
  for a :: "'a::len word"
  using unat_sub_if_size[of 0 a] by (simp add: word_size word_le_nat_alt unat_eq_zero)

lemma unat_gt_0_iff: "0 < unat a \<longleftrightarrow> a \<noteq> 0"
  for a :: "'a::len word"
  using unat_gt_0 by auto

lemma unat_less_u64: "unat (x :: u64) < 2 ^ 64"
  using unsigned_less[of x, where ?'a = nat] by simp

lemma unat_of_nat_u64: "n < 2 ^ 64 \<Longrightarrow> unat (of_nat n :: u64) = n"
  by (simp add: unat_of_nat)

lemma unat_two_power: "n < LENGTH('a) \<Longrightarrow> unat (2 ^ n :: 'a::len word) = 2 ^ n"
proof -
  assume n: "n < LENGTH('a)"
  have "unat (2 ^ n :: 'a word) = unat (of_nat (2 ^ n) :: 'a word)" by simp
  also have "\<dots> = 2 ^ n mod 2 ^ LENGTH('a)" by (simp only: unat_of_nat take_bit_eq_mod)
  finally show ?thesis using n by simp
qed

section \<open>Bit helpers of the source\<close>

text \<open>\<^verbatim>\<open>truncate_u64\<close>: for size 0 the shift amount is 64, which the hardware takes as 0.\<close>

definition truncate_u64 :: "u64 \<Rightarrow> u64 \<Rightarrow> u64" where
  "truncate_u64 val n = val AND shr (- 1) (unat (64 - shl n 3))"

text \<open>The macros \<^verbatim>\<open>align_up!\<close>, \<^verbatim>\<open>align_down!\<close> and \<^verbatim>\<open>mask_bits!\<close> (also \<^verbatim>\<open>assign_bits!\<close>).\<close>

definition align_up :: "'a::len word \<Rightarrow> nat \<Rightarrow> 'a word" where
  "align_up num bits = (let m = shl 1 bits - 1 in (num + m) AND NOT m)"

definition align_down :: "'a::len word \<Rightarrow> nat \<Rightarrow> 'a word" where
  "align_down num bits = (let m = shl 1 bits - 1 in num AND NOT m)"

definition mask_bits :: "'a::len word \<Rightarrow> 'a word \<Rightarrow> 'a word \<Rightarrow> 'a word" where
  "mask_bits dst src m = (dst AND NOT m) OR (src AND m)"

definition wrapping_sum :: "u8 list \<Rightarrow> u8" where
  "wrapping_sum bs = foldl (\<lambda>accu e. accu + e) 0 bs"

definition get_low32 :: "u64 \<Rightarrow> u32" where
  "get_low32 num = ucast num"

definition get_high32 :: "u64 \<Rightarrow> u32" where
  "get_high32 num = ucast (shr num 32)"

definition set_low32 :: "u64 \<Rightarrow> u32 \<Rightarrow> u64" where
  "set_low32 num val = (num AND NOT 0xffffffff) OR ucast val"

definition set_high32 :: "u64 \<Rightarrow> u32 \<Rightarrow> u64" where
  "set_high32 num val = (num AND 0xffffffff) OR shl (ucast val) 32"

lemma bit_mask_bits [simp]:
  "bit (mask_bits d s m) n \<longleftrightarrow> (if bit m n then bit s n else bit d n)"
  for d s m :: "'a::len word"
  by (auto simp: mask_bits_def bit_and_iff bit_or_iff bit_not_iff dest: bit_imp_le_length)

lemma mask_bits_idem: "mask_bits (mask_bits d s m) s m = mask_bits d s m"
  by (rule bit_eqI) simp

lemma low_word_mask: "(0xffffffff :: u64) = mask 32"
  by (simp add: mask_eq_exp_minus_1)

lemma get_set_32 [simp]:
  "get_low32 (set_low32 n v) = v" "get_high32 (set_low32 n v) = get_high32 n"
  "get_high32 (set_high32 n v) = v" "get_low32 (set_high32 n v) = get_low32 n"
  by (rule bit_word_eqI; auto simp: get_low32_def get_high32_def set_low32_def set_high32_def shl_def
      shr_def low_word_mask bit_simps dest: bit_imp_le_length)+

text \<open>Clearing the low bits rounds down to a multiple, and \<open>align_up\<close> rounds up.\<close>

lemma unat_and_not_mask: "unat (x AND NOT (mask n)) = unat x div 2 ^ n * 2 ^ n"
  for x :: "'a::len word"
proof -
  have "x AND NOT (mask n) = push_bit n (drop_bit n x)"
    by (rule bit_word_eqI) (auto simp: bit_simps)
  also have "\<dots> = x - take_bit n x"
    using bits_ident[of n x] by (simp add: eq_diff_eq)
  finally have "x AND NOT (mask n) = x - take_bit n x" .
  then have "unat (x AND NOT (mask n)) = unat x - unat (take_bit n x)"
    by (simp only: unat_minus_le word_le_nat_alt unsigned_take_bit_eq take_bit_nat_less_eq_self)
  also have "\<dots> = unat x - unat x mod 2 ^ n"
    by (simp only: unsigned_take_bit_eq take_bit_eq_mod[of n "unat x"])
  finally show ?thesis by (simp only: minus_mod_eq_div_mult)
qed

lemma shl_1_minus_1: "n < LENGTH('a) \<Longrightarrow> shl (1 :: 'a::len word) n - 1 = mask n"
  by (simp add: shl_def mask_eq_exp_minus_1)

lemma unat_align_down:
  "n < LENGTH('a) \<Longrightarrow> unat (align_down x n) = unat x div 2 ^ n * 2 ^ n"
  for x :: "'a::len word"
  by (simp add: align_down_def shl_1_minus_1 unat_and_not_mask)

lemma unat_mask_word: "n < LENGTH('a) \<Longrightarrow> unat (mask n :: 'a::len word) = 2 ^ n - 1"
proof -
  assume n: "n < LENGTH('a)"
  have "unat (mask n :: 'a word) = unat (take_bit n (- 1) :: 'a word)"
    by (simp only: take_bit_minus_one_eq_mask)
  also have "\<dots> = take_bit n (mask LENGTH('a))"
    by (simp only: unsigned_take_bit_eq unsigned_minus_1_eq_mask)
  also have "\<dots> = mask n" using n by (simp only: take_bit_of_mask min_def) simp
  finally show ?thesis by (simp only: mask_eq_exp_minus_1)
qed

lemma unat_align_up:
  fixes x :: "'a::len word"
  assumes "n < LENGTH('a)" "unat x + (2 ^ n - 1) < 2 ^ LENGTH('a)"
  shows "unat (align_up x n) = (unat x + (2 ^ n - 1)) div 2 ^ n * 2 ^ n"
  using assms
  by (simp add: align_up_def Let_def shl_1_minus_1 unat_and_not_mask unat_plus_no_wrap unat_mask_word)

lemma align_up_dvd: "n < LENGTH('a) \<Longrightarrow> 2 ^ n dvd unat (align_up x n)"
  for x :: "'a::len word"
  by (simp add: align_up_def Let_def shl_1_minus_1 unat_and_not_mask)

lemma align_up_ge:
  fixes x :: "'a::len word"
  assumes "n < LENGTH('a)" "unat x + (2 ^ n - 1) < 2 ^ LENGTH('a)"
  shows "unat x \<le> unat (align_up x n)" and "unat (align_up x n) < unat x + 2 ^ n"
proof -
  let ?y = "unat x + (2 ^ n - 1)"
  have eq: "?y div 2 ^ n * 2 ^ n + ?y mod 2 ^ n = ?y" by (rule div_mult_mod_eq)
  have "?y mod 2 ^ n < 2 ^ n" by simp
  then show "unat x \<le> unat (align_up x n)" and "unat (align_up x n) < unat x + 2 ^ n"
    using eq unat_align_up[OF assms] by linarith+
qed

section \<open>Flags and bit fields\<close>

text \<open>\<^verbatim>\<open>contains\<close>, \<^verbatim>\<open>insert\<close> and \<^verbatim>\<open>remove\<close> of the bit-flag types.\<close>

definition flag_contains :: "'a::len word \<Rightarrow> 'a word \<Rightarrow> bool" where
  "flag_contains flags f \<longleftrightarrow> flags AND f = f"

definition flag_insert :: "'a::len word \<Rightarrow> 'a word \<Rightarrow> 'a word" where
  "flag_insert flags f = flags OR f"

definition flag_remove :: "'a::len word \<Rightarrow> 'a word \<Rightarrow> 'a word" where
  "flag_remove flags f = flags AND NOT f"

lemma flag_contains_bit: "n < LENGTH('a) \<Longrightarrow> flag_contains (f :: 'a::len word) (2 ^ n) \<longleftrightarrow> bit f n"
proof
  assume n: "n < LENGTH('a)" and "flag_contains f (2 ^ n)"
  then have "bit (f AND 2 ^ n) n = bit (2 ^ n :: 'a word) n" by (simp add: flag_contains_def)
  then show "bit f n" using n by (simp add: bit_simps)
next
  assume "n < LENGTH('a)" and "bit f n"
  then show "flag_contains f (2 ^ n)"
    unfolding flag_contains_def by (intro bit_word_eqI) (auto simp: bit_simps)
qed

text \<open>
  Negation of the crate \<^verbatim>\<open>bitflags\<close> keeps only the bits that the type \<open>all_bits\<close> of flags defines. The
  crate \<^verbatim>\<open>bitfield\<close> reads and writes the bits \<open>lo\<close> to \<open>hi\<close> of a word.
\<close>

definition flag_not :: "'a::len word \<Rightarrow> 'a word \<Rightarrow> 'a word" where
  "flag_not all_bits f = NOT f AND all_bits"

definition get_field :: "nat \<Rightarrow> nat \<Rightarrow> 'a::len word \<Rightarrow> 'a word" where
  "get_field hi lo w = take_bit (Suc hi - lo) (drop_bit lo w)"

definition set_field :: "nat \<Rightarrow> nat \<Rightarrow> 'a::len word \<Rightarrow> 'a word \<Rightarrow> 'a word" where
  "set_field hi lo v w =
     (w AND NOT (push_bit lo (mask (Suc hi - lo)))) OR push_bit lo (take_bit (Suc hi - lo) v)"

definition set_bit_to :: "nat \<Rightarrow> bool \<Rightarrow> 'a::len word \<Rightarrow> 'a word" where
  "set_bit_to i b w = (if b then set_bit i w else unset_bit i w)"

lemma bit_set_bit_to [simp]:
  "bit (set_bit_to i b w) n \<longleftrightarrow> (if n = i \<and> i < LENGTH('a) then b else bit w n)"
  for w :: "'a::len word"
  by (auto simp: set_bit_to_def bit_simps dest: bit_imp_le_length)

section \<open>Powers of two\<close>

text \<open>
  \<^verbatim>\<open>u64::trailing_zeros\<close> and \<^verbatim>\<open>u64::next_power_of_two\<close>, which wraps to 0 above \<open>2 ^ 63\<close>.
\<close>

definition trailing_zeros :: "'a::len word \<Rightarrow> nat" where
  "trailing_zeros w = length (takeWhile (\<lambda>i. \<not> bit w i) [0..<LENGTH('a)])"

definition leading_zeros :: "'a::len word \<Rightarrow> nat" where
  "leading_zeros w = length (takeWhile (\<lambda>i. \<not> bit w i) (rev [0..<LENGTH('a)]))"

definition next_power_of_two :: "'a::len word \<Rightarrow> 'a word" where
  "next_power_of_two n = (if n \<le> 1 then 1 else drop_bit (leading_zeros (n - 1)) (- 1) + 1)"

lemma takeWhile_stops:
  assumes "x \<in> set xs" "\<not> P x"
  shows "length (takeWhile P xs) < length xs" "\<not> P (xs ! length (takeWhile P xs))"
    "j < length (takeWhile P xs) \<Longrightarrow> P (xs ! j)"
proof -
  show less: "length (takeWhile P xs) < length xs"
    using assms by (induction xs) auto
  show "\<not> P (xs ! length (takeWhile P xs))" using less by (rule nth_length_takeWhile)
  show "P (xs ! j)" if "j < length (takeWhile P xs)"
    using that set_takeWhileD[of "xs ! j" P xs] nth_mem[OF that] by (simp add: takeWhile_nth)
qed

lemma nonzero_bit: "w \<noteq> 0 \<Longrightarrow> \<exists>i. bit w i \<and> i < LENGTH('a)"
  for w :: "'a::len word"
  using bit_word_eqI[of w 0] by auto

lemma trailing_zeros_spec:
  fixes w :: "'a::len word"
  assumes "w \<noteq> 0"
  shows "trailing_zeros w < LENGTH('a)" "bit w (trailing_zeros w)" "j < trailing_zeros w \<Longrightarrow> \<not> bit w j"
proof -
  obtain i where i: "bit w i" "i < LENGTH('a)"
    using assms nonzero_bit by blast
  show a: "trailing_zeros w < LENGTH('a)"
    using takeWhile_stops(1)[of i "[0..<LENGTH('a)]" "\<lambda>i. \<not> bit w i"] i by (simp add: trailing_zeros_def)
  show "bit w (trailing_zeros w)"
    using takeWhile_stops(2)[of i "[0..<LENGTH('a)]" "\<lambda>i. \<not> bit w i"] i a by (simp add: trailing_zeros_def)
  show "\<not> bit w j" if "j < trailing_zeros w"
    using takeWhile_stops(3)[of i "[0..<LENGTH('a)]" "\<lambda>i. \<not> bit w i" j] i a that by (simp add: trailing_zeros_def)
qed

lemma leading_zeros_spec:
  fixes w :: "'a::len word"
  assumes "w \<noteq> 0"
  obtains t where "leading_zeros w + Suc t = LENGTH('a)" "bit w t" "\<And>j. t < j \<Longrightarrow> \<not> bit w j"
proof -
  let ?xs = "rev [0..<LENGTH('a)]" and ?P = "\<lambda>i. \<not> bit w i"
  obtain i where i: "bit w i" "i < LENGTH('a)"
    using assms nonzero_bit by blast
  have nth: "?xs ! j = LENGTH('a) - Suc j" if "j < LENGTH('a)" for j
    using that by (simp add: rev_nth)
  have a: "leading_zeros w < LENGTH('a)"
    using takeWhile_stops(1)[of i ?xs ?P] i by (simp add: leading_zeros_def)
  have "bit w (LENGTH('a) - Suc (leading_zeros w))"
    using takeWhile_stops(2)[of i ?xs ?P] i nth[OF a] by (simp add: leading_zeros_def)
  moreover have "\<not> bit w j" if "LENGTH('a) - Suc (leading_zeros w) < j" for j
  proof (cases "j < LENGTH('a)")
    case True
    then have "LENGTH('a) - Suc j < leading_zeros w" using that a by linarith
    then show ?thesis
      using takeWhile_stops(3)[of i ?xs ?P "LENGTH('a) - Suc j"] i nth[of "LENGTH('a) - Suc j"] True
      by (simp add: leading_zeros_def)
  qed (use bit_imp_le_length in blast)
  ultimately show thesis using that[of "LENGTH('a) - Suc (leading_zeros w)"] a by simp
qed

lemma bit_le_unat: "bit w n \<Longrightarrow> 2 ^ n \<le> unat w"
  for w :: "'a::len word"
proof -
  assume "bit w n"
  then have "bit (unat w) n" by (simp add: bit_unsigned_iff)
  then have "odd (unat w div 2 ^ n)" by (simp add: bit_iff_odd)
  then have "0 < unat w div 2 ^ n" by (cases "unat w div 2 ^ n") auto
  then show ?thesis by (simp add: div_greater_zero_iff)
qed

lemma unat_less_top: "(\<And>j. n \<le> j \<Longrightarrow> \<not> bit w j) \<Longrightarrow> unat w < 2 ^ n"
  for w :: "'a::len word"
proof -
  assume "\<And>j. n \<le> j \<Longrightarrow> \<not> bit w j"
  then have "take_bit n w = w" by (intro bit_word_eqI) (auto simp: bit_simps, meson leI)
  then have "take_bit n (unat w) = unat w" by (metis unsigned_take_bit_eq)
  then show ?thesis by (metis take_bit_nat_less_exp)
qed

lemma ucast_ucast_small: "unat x < 2 ^ LENGTH('b::len) \<Longrightarrow> ucast (ucast x :: 'b word) = x"
  for x :: "'a::len word"
proof (rule bit_word_eqI)
  fix n assume "unat x < 2 ^ LENGTH('b)" "n < LENGTH('a)"
  then have "2 ^ n < (2 :: nat) ^ LENGTH('b)" if "bit x n" using bit_le_unat[OF that] by linarith
  then have "bit x n \<Longrightarrow> n < LENGTH('b)" by (simp only: power_strict_increasing_iff)
  then show "bit (ucast (ucast x :: 'b word) :: 'a word) n = bit x n"
    using \<open>n < LENGTH('a)\<close> by (auto simp: bit_simps)
qed

lemma bit_get_field:
  "bit (get_field hi lo w) n \<longleftrightarrow> n < Suc hi - lo \<and> bit w (lo + n)" for w :: "'a::len word"
  by (auto simp: get_field_def bit_simps)

lemma bit_set_field:
  "n < LENGTH('a) \<Longrightarrow> bit (set_field hi lo v w) n \<longleftrightarrow> (if lo \<le> n \<and> n \<le> hi then bit v (n - lo) else bit w n)"
  for w :: "'a::len word"
  by (auto simp: set_field_def bit_simps)

lemma next_power_of_two_spec:
  fixes n :: "'a::len word"
  assumes "unat n \<le> 2 ^ (LENGTH('a) - 1)"
  obtains k where "k < LENGTH('a)" "next_power_of_two n = 2 ^ k" "unat n \<le> 2 ^ k"
    "k = 0 \<or> 2 ^ (k - 1) < unat n"
proof (cases "n \<le> 1")
  case True
  then have "unat n \<le> 1" by (simp add: word_le_nat_alt)
  with True show thesis using that[of 0] by (simp add: next_power_of_two_def)
next
  case False
  let ?m = "n - 1"
  have n: "1 < unat n" using False by (simp add: word_le_nat_alt)
  then have m: "unat ?m = unat n - 1" by (intro unat_minus_1) auto
  then have nz: "?m \<noteq> 0" using n by (metis diff_is_0_eq not_less unat_0)
  obtain t where t: "leading_zeros ?m + Suc t = LENGTH('a)" "bit ?m t" "\<And>j. t < j \<Longrightarrow> \<not> bit ?m j"
    using leading_zeros_spec[OF nz] by blast
  have lo: "2 ^ t \<le> unat ?m" using t(2) by (rule bit_le_unat)
  have hi: "unat ?m < 2 ^ Suc t" using t(3) by (intro unat_less_top) auto
  have "2 ^ t < (2::nat) ^ (LENGTH('a) - 1)" using lo m n assms by linarith
  then have len: "Suc t < LENGTH('a)" by (simp add: power_strict_increasing_iff) 
  have "drop_bit (leading_zeros ?m) (- 1) = (mask (Suc t) :: 'a word)"
    using t(1) by (intro bit_word_eqI) (auto simp: bit_simps)
  then have "next_power_of_two n = 2 ^ Suc t"
    using False by (simp add: next_power_of_two_def mask_eq_exp_minus_1)
  then show thesis using that[of "Suc t"] len lo hi m n by simp
qed

section \<open>Little-endian byte strings\<close>

fun le_decode :: "u8 list \<Rightarrow> 'a::len word" where
  "le_decode [] = 0"
| "le_decode (b # bs) = ucast b OR push_bit 8 (le_decode bs)"

fun le_encode :: "nat \<Rightarrow> 'a::len word \<Rightarrow> u8 list" where
  "le_encode 0 w = []"
| "le_encode (Suc n) w = ucast w # le_encode n (drop_bit 8 w)"

lemma length_le_encode [simp]: "length (le_encode n w) = n"
  by (induction n arbitrary: w) auto

lemma le_decode_encode: "le_decode (le_encode n w) = take_bit (8 * n) w"
  for w :: "'a::len word"
proof (induction n arbitrary: w)
  case (Suc n)
  show ?case
    by (rule bit_word_eqI) (auto simp: Suc bit_simps)
qed simp

text \<open>Read back at a larger width.\<close>

lemma le_decode_encode_ucast:
  "LENGTH('a) \<le> LENGTH('b) \<Longrightarrow> (le_decode (le_encode n (w :: 'a::len word)) :: 'b::len word) = ucast (take_bit (8 * n) w)"
proof (induction n arbitrary: w)
  case (Suc n)
  show ?case
    using Suc.prems by (intro bit_word_eqI) (auto simp: Suc.IH[OF Suc.prems] bit_simps dest: bit_imp_le_length)
qed simp

end
