(* ===== verification/Hypervisor.thy ===== *)
theory Hypervisor
  imports Alioth_Prelude
begin

text \<open>
  \<^verbatim>\<open>alioth/src/hv/hv.rs\<close>: the errors of the hypervisor layer and the interrupt file descriptor,
  which MSI and MSI-X program and \<^verbatim>\<open>KvmIrqFd\<close> implements. A descriptor is a handle \<open>'f\<close> whose
  methods are the fields of \<open>irqfd_ops\<close> and act on the world \<open>'w\<close>. The locale states what its
  clients rely on: each register keeps what was written last.
\<close>

section \<open>Errors\<close>

record mem_map_option =
  opt_read :: bool
  opt_write :: bool
  opt_exec :: bool
  opt_log_dirty :: bool

text \<open>\<^verbatim>\<open>KvmError\<close> of \<^verbatim>\<open>alioth/src/hv/kvm/kvm.rs\<close>.\<close>

datatype kvm_error =
    GsiRouting string
  | AllocateGsi
  | CpuidTableTooLong
  | KvmApi string
  | OpenFile string string
  | MmapOption mem_map_option
  | MmapVcpuFd string
  | CheckCap string
  | EnableCap u32 string
  | GuestMemfd string
  | KvmCreateDevice u32 string
  | DeviceAttr string
  | KvmClockCtrl string

text \<open>\<^verbatim>\<open>hv::Error\<close> of the Linux builds; an operating system error is opaque.\<close>

datatype hv_error =
    GuestMap u64 u64 u64 string
  | GuestUnmap u64 u64 string
  | HvCapability string
  | SetupSignal string
  | CreateVm string
  | CreateVcpu string
  | CreateDevice string
  | SetVmParam string
  | VcpuReg string
  | GuestCpuid string
  | GuestMsr string
  | MemEncrypt string
  | MemoryCreated
  | IrqFdError string
  | IoeventFdError string
  | CreateIrq u8 string
  | SendInterrupt string
  | RunVcpu string
  | StopVcpu string
  | VmExitError string
  | BrokenChannel
  | KvmErr kvm_error
  | SevErr u32
  | TdxErr u64

text \<open>\<^verbatim>\<open>Box<dyn DebugTrace>\<close>, an error of any layer.\<close>

datatype boxed_error = BoxHv hv_error | BoxOther string

text \<open>An error of one layer becomes an error of the next.\<close>

definition map_err :: "('e \<Rightarrow> 'e2) \<Rightarrow> ('s, 'a, 'e) op \<Rightarrow> ('s, 'a, 'e2) op" where
  "map_err f m s = (case m s of (Ok a, s') \<Rightarrow> (Ok a, s') | (Err e, s') \<Rightarrow> (Err (f e), s') | (Panic, s') \<Rightarrow> (Panic, s'))"

lemma map_err_Ok: "m s = (Ok a, s') \<Longrightarrow> map_err f m s = (Ok a, s')"
  by (simp add: map_err_def)

lemma map_err_Ok_iff: "map_err f m s = (Ok a, s') \<longleftrightarrow> m s = (Ok a, s')"
  by (auto simp: map_err_def split: prod.splits outcome.splits)

section \<open>Interrupt file descriptors\<close>

record ('f, 'w) irqfd_ops =
  irq_set_addr_lo :: "'f \<Rightarrow> u32 \<Rightarrow> ('w, unit, hv_error) op"
  irq_get_addr_lo :: "'f \<Rightarrow> ('w, u32, hv_error) op"
  irq_set_addr_hi :: "'f \<Rightarrow> u32 \<Rightarrow> ('w, unit, hv_error) op"
  irq_get_addr_hi :: "'f \<Rightarrow> ('w, u32, hv_error) op"
  irq_set_data :: "'f \<Rightarrow> u32 \<Rightarrow> ('w, unit, hv_error) op"
  irq_get_data :: "'f \<Rightarrow> ('w, u32, hv_error) op"
  irq_set_masked :: "'f \<Rightarrow> bool \<Rightarrow> ('w, bool, hv_error) op"
  irq_get_masked :: "'f \<Rightarrow> ('w, bool, hv_error) op"

text \<open>The registers of a descriptor.\<close>

record irq_regs =
  r_addr_lo :: u32
  r_addr_hi :: u32
  r_data :: u32
  r_masked :: bool

text \<open>
  \<open>live w f\<close>: the descriptor exists and the host accepts its changes; \<open>regs w f\<close>: its registers.
\<close>

locale irqfd =
  fixes irq :: "('f, 'w) irqfd_ops" and live :: "'w \<Rightarrow> 'f \<Rightarrow> bool" and regs :: "'w \<Rightarrow> 'f \<Rightarrow> irq_regs"
  assumes set_addr_lo: "live w f \<Longrightarrow> \<exists>w'. irq_set_addr_lo irq f v w = (Ok (), w') \<and> live w' = live w \<and>
      regs w' = (regs w)(f := (regs w f)\<lparr>r_addr_lo := v\<rparr>)"
    and set_addr_hi: "live w f \<Longrightarrow> \<exists>w'. irq_set_addr_hi irq f v w = (Ok (), w') \<and> live w' = live w \<and>
      regs w' = (regs w)(f := (regs w f)\<lparr>r_addr_hi := v\<rparr>)"
    and set_data: "live w f \<Longrightarrow> \<exists>w'. irq_set_data irq f v w = (Ok (), w') \<and> live w' = live w \<and>
      regs w' = (regs w)(f := (regs w f)\<lparr>r_data := v\<rparr>)"
    and set_masked: "live w f \<Longrightarrow> \<exists>w'. irq_set_masked irq f b w = (Ok (r_masked (regs w f) \<noteq> b), w') \<and>
      live w' = live w \<and> regs w' = (regs w)(f := (regs w f)\<lparr>r_masked := b\<rparr>)"
    and get_regs: "live w f \<Longrightarrow> irq_get_addr_lo irq f w = (Ok (r_addr_lo (regs w f)), w) \<and>
      irq_get_addr_hi irq f w = (Ok (r_addr_hi (regs w f)), w) \<and>
      irq_get_data irq f w = (Ok (r_data (regs w f)), w) \<and>
      irq_get_masked irq f w = (Ok (r_masked (regs w f)), w)"
begin

text \<open>Masking, programming and unmasking a descriptor in one go.\<close>

lemma program_vector:
  assumes "live w f"
  shows "\<exists>w'. sbind (irq_set_masked irq f True) (\<lambda>_. sbind (irq_set_addr_hi irq f hi) (\<lambda>_.
      sbind (irq_set_addr_lo irq f lo) (\<lambda>_. sbind (irq_set_data irq f d) (\<lambda>_.
      sbind (irq_set_masked irq f False) (\<lambda>_. sret ()))))) w = (Ok (), w') \<and> live w' = live w \<and>
    regs w' = (regs w)(f := \<lparr>r_addr_lo = lo, r_addr_hi = hi, r_data = d, r_masked = False\<rparr>)"
proof -
  obtain w1 where w1: "irq_set_masked irq f True w = (Ok (r_masked (regs w f) \<noteq> True), w1)" "live w1 = live w"
    "regs w1 = (regs w)(f := (regs w f)\<lparr>r_masked := True\<rparr>)" using set_masked[OF assms, of True] by blast
  obtain w2 where w2: "irq_set_addr_hi irq f hi w1 = (Ok (), w2)" "live w2 = live w1"
    "regs w2 = (regs w1)(f := (regs w1 f)\<lparr>r_addr_hi := hi\<rparr>)" using set_addr_hi[of w1 f hi] w1(2) assms by auto
  obtain w3 where w3: "irq_set_addr_lo irq f lo w2 = (Ok (), w3)" "live w3 = live w2"
    "regs w3 = (regs w2)(f := (regs w2 f)\<lparr>r_addr_lo := lo\<rparr>)" using set_addr_lo[of w2 f lo] w1(2) w2(2) assms by auto
  obtain w4 where w4: "irq_set_data irq f d w3 = (Ok (), w4)" "live w4 = live w3"
    "regs w4 = (regs w3)(f := (regs w3 f)\<lparr>r_data := d\<rparr>)" using set_data[of w3 f d] w1(2) w2(2) w3(2) assms by auto
  obtain w5 b where w5: "irq_set_masked irq f False w4 = (Ok b, w5)" "live w5 = live w4"
    "regs w5 = (regs w4)(f := (regs w4 f)\<lparr>r_masked := False\<rparr>)"
    using set_masked[of w4 f False] w1(2) w2(2) w3(2) w4(2) assms by auto
  show ?thesis
    by (rule exI[of _ w5], cases "regs w f") (simp add: w1 w2 w3 w4 w5)
qed

end

end
