(* ===== verification/Kvm_Vm.thy ===== *)
theory Kvm_Vm
  imports Hypervisor
begin

text \<open>
  \<^verbatim>\<open>alioth/src/hv/kvm/vm/vm.rs\<close>: interrupts and memory of a KVM virtual machine. \<^verbatim>\<open>VmInner\<close> is the record
  \<open>vm_inner\<close>; the calls to the kernel are the fields of \<open>kvm_host\<close> and act on the state \<open>'h\<close> of the kernel, so an operation
  acts on the pair of both. A locked section is one step. The source is compiled for two architectures, which
  differ in the number of interrupt pins, in the translation of MSI addresses and in the device id of a route: the
  field \<open>kh_arch\<close> tells which.

  The routing table is written from a hash map, whose order is unspecified; \<open>kh_iter\<close> gives the order.
\<close>

unbundle bit_operations_syntax

section \<open>Data\<close>

datatype target_arch = X86_64 | Aarch64

datatype kvm_cap = Cap_IRQFD | Cap_KVMCLOCK_CTRL | Cap_SIGNAL_MSI | Cap_ARM_PSCI_0_2 | Cap_SPLIT_IRQCHIP
  | Cap_X2APIC_API | Cap_EXIT_HYPERCALL | Cap_X86_APIC_BUS_CYCLES_NS

definition kvm_cap_raw :: "kvm_cap \<Rightarrow> u32" where
  "kvm_cap_raw cap = (case cap of Cap_IRQFD \<Rightarrow> 32
     | Cap_KVMCLOCK_CTRL \<Rightarrow> 76
     | Cap_SIGNAL_MSI \<Rightarrow> 77
     | Cap_ARM_PSCI_0_2 \<Rightarrow> 102
     | Cap_SPLIT_IRQCHIP \<Rightarrow> 121
     | Cap_X2APIC_API \<Rightarrow> 129
     | Cap_EXIT_HYPERCALL \<Rightarrow> 201
     | Cap_X86_APIC_BUS_CYCLES_NS \<Rightarrow> 237)"

definition kvm_cap_name :: "kvm_cap \<Rightarrow> string" where
  "kvm_cap_name cap = (case cap of Cap_IRQFD \<Rightarrow> ''IRQFD''
     | Cap_KVMCLOCK_CTRL \<Rightarrow> ''KVMCLOCK_CTRL''
     | Cap_SIGNAL_MSI \<Rightarrow> ''SIGNAL_MSI''
     | Cap_ARM_PSCI_0_2 \<Rightarrow> ''ARM_PSCI_0_2''
     | Cap_SPLIT_IRQCHIP \<Rightarrow> ''SPLIT_IRQCHIP''
     | Cap_X2APIC_API \<Rightarrow> ''X2APIC_API''
     | Cap_EXIT_HYPERCALL \<Rightarrow> ''EXIT_HYPERCALL''
     | Cap_X86_APIC_BUS_CYCLES_NS \<Rightarrow> ''X86_APIC_BUS_CYCLES_NS'')"

record kvm_msi_entry_data =
  e_addr_lo :: u32
  e_addr_hi :: u32
  e_data :: u32
  e_masked :: bool
  e_dirty :: bool
  e_devid :: u32

definition msi_entry_default :: kvm_msi_entry_data where
  "msi_entry_default = \<lparr>e_addr_lo = 0, e_addr_hi = 0, e_data = 0, e_masked = False, e_dirty = False, e_devid = 0\<rparr>"

record kvm_io_event_fd =
  io_datamatch :: u64
  io_addr :: u64
  io_len :: u32
  io_fd :: u32
  io_flags :: u32

record vm_inner =
  vm_memfd :: "u32 option"
  ioeventfds :: "u32 \<Rightarrow> kvm_io_event_fd option"
  msi_table :: "u32 \<Rightarrow> kvm_msi_entry_data option"
  next_msi_gsi :: u32
  pin_map :: u32

text \<open>What \<^verbatim>\<open>KvmVm::new\<close> starts with.\<close>

definition vm_inner_new :: "u32 option \<Rightarrow> vm_inner" where
  "vm_inner_new memfd = \<lparr>vm_memfd = memfd, ioeventfds = Map.empty, msi_table = Map.empty, next_msi_gsi = 0, pin_map = 0\<rparr>"

text \<open>One entry of \<^verbatim>\<open>KvmIrqRouting\<close>; the flag of an MSI route says that its device id is valid.\<close>

datatype routing_entry =
    IrqchipRoute (route_gsi: u32) u32 u32
  | MsiRoute (route_gsi: u32) u32 u32 u32 u32 bool

record kvm_irqfd_request =
  rq_fd :: u32
  rq_gsi :: u32
  rq_deassign :: bool

record kvm_memory_region =
  mr_slot :: u32
  mr_flags :: u32
  mr_gpa :: u64
  mr_size :: u64
  mr_hva :: u64

text \<open>The system calls; an error is what \<^verbatim>\<open>errno\<close> says.\<close>

record 'h kvm_host =
  kh_arch :: target_arch
  kh_iter :: "(u32 \<Rightarrow> kvm_msi_entry_data option) \<Rightarrow> u32 list"
  kh_set_gsi_routing :: "routing_entry list \<Rightarrow> ('h, unit, string) op"
  kh_irqfd :: "kvm_irqfd_request \<Rightarrow> ('h, unit, string) op"
  kh_signal_msi :: "u32 \<Rightarrow> u32 \<Rightarrow> u32 \<Rightarrow> u32 \<Rightarrow> bool \<Rightarrow> ('h, unit, string) op"
  kh_ioeventfd :: "kvm_io_event_fd \<Rightarrow> ('h, unit, string) op"
  kh_set_region :: "kvm_memory_region \<Rightarrow> ('h, unit, string) op"
  kh_set_region2 :: "kvm_memory_region \<Rightarrow> u32 \<Rightarrow> u64 \<Rightarrow> ('h, unit, string) op"
  kh_encrypt_reg :: "u64 \<Rightarrow> u64 \<Rightarrow> ('h, unit, string) op"
  kh_encrypt_unreg :: "u64 \<Rightarrow> u64 \<Rightarrow> ('h, unit, string) op"
  kh_set_attributes :: "u64 \<Rightarrow> u64 \<Rightarrow> u64 \<Rightarrow> ('h, unit, string) op"
  kh_check_extension :: "kvm_cap \<Rightarrow> ('h, u32, string) op"
  kh_enable_cap :: "kvm_cap \<Rightarrow> u64 \<Rightarrow> ('h, unit, string) op"
  kh_eventfd :: "('h, u32, string) op"
  kh_write :: "u32 \<Rightarrow> u64 \<Rightarrow> ('h, unit, string) op"
  kh_close :: "u32 \<Rightarrow> 'h \<Rightarrow> 'h"

type_synonym ('h, 'a) vm_op = "(vm_inner \<times> 'h, 'a, hv_error) op"

text \<open>A system call with the context of its error.\<close>

definition sys :: "(string \<Rightarrow> hv_error) \<Rightarrow> ('h, 'a, string) op \<Rightarrow> ('h, 'a) vm_op" where
  "sys ctx f s = (case map_err ctx f (snd s) of (r, h) \<Rightarrow> (r, (fst s, h)))"

definition close_fd :: "'h kvm_host \<Rightarrow> u32 \<Rightarrow> vm_inner \<times> 'h \<Rightarrow> vm_inner \<times> 'h" where
  "close_fd kh fd s = (fst s, kh_close kh fd (snd s))"

section \<open>The routing table\<close>

definition MAX_GSI_ROUTES :: nat where "MAX_GSI_ROUTES = 256"

definition translate_msi_addr_x86 :: "u32 \<Rightarrow> u32 \<Rightarrow> u32 \<times> u32" where
  "translate_msi_addr_x86 addr_lo addr_hi =
     (if get_field 11 5 addr_lo = 0 \<or> bit addr_lo 4 \<or> get_field 31 8 addr_hi \<noteq> 0 then (addr_lo, addr_hi)
      else (set_field 11 5 0 addr_lo, set_field 31 8 (get_field 11 5 addr_lo) addr_hi))"

definition translate_msi_addr_arm :: "u32 \<Rightarrow> u32 \<Rightarrow> u32 \<times> u32" where
  "translate_msi_addr_arm addr_lo addr_hi = (addr_lo, addr_hi)"

definition translate_msi_addr :: "target_arch \<Rightarrow> u32 \<Rightarrow> u32 \<Rightarrow> u32 \<times> u32" where
  "translate_msi_addr arch = (case arch of X86_64 \<Rightarrow> translate_msi_addr_x86 | Aarch64 \<Rightarrow> translate_msi_addr_arm)"

definition irqchip_pins :: "target_arch \<Rightarrow> u32 \<times> nat" where
  "irqchip_pins arch = (case arch of X86_64 \<Rightarrow> (2, 24) | Aarch64 \<Rightarrow> (0, 32))"

text \<open>Writing the entry at the current index; an index past the end of the array panics.\<close>

definition push_route :: "routing_entry \<Rightarrow> routing_entry list \<Rightarrow> (routing_entry list, hv_error) outcome" where
  "push_route e es = (if length es < MAX_GSI_ROUTES then Ok (es @ [e]) else Panic)"

fun pin_routes :: "u32 \<Rightarrow> u32 \<Rightarrow> nat list \<Rightarrow> routing_entry list \<Rightarrow> (routing_entry list, hv_error) outcome" where
  "pin_routes irqchip pm [] es = Ok es"
| "pin_routes irqchip pm (pin # pins) es =
     (if pm AND shl 1 pin = 0 then pin_routes irqchip pm pins es
      else obind (push_route (IrqchipRoute (of_nat pin) irqchip (of_nat pin)) es) (pin_routes irqchip pm pins))"

definition msi_route :: "target_arch \<Rightarrow> u32 \<Rightarrow> kvm_msi_entry_data \<Rightarrow> routing_entry" where
  "msi_route arch gsi entry =
     (let (lo, hi) = translate_msi_addr arch (e_addr_lo entry) (e_addr_hi entry)
      in MsiRoute gsi hi lo (e_data entry) (if arch = Aarch64 then e_devid entry else 0) (arch = Aarch64))"

fun msi_routes :: "target_arch \<Rightarrow> (u32 \<Rightarrow> kvm_msi_entry_data option) \<Rightarrow> u32 list \<Rightarrow> routing_entry list
    \<Rightarrow> (routing_entry list, hv_error) outcome" where
  "msi_routes arch table [] es = Ok es"
| "msi_routes arch table (gsi # gsis) es = (case table gsi of
       None \<Rightarrow> msi_routes arch table gsis es
     | Some entry \<Rightarrow> (if e_masked entry then msi_routes arch table gsis es
         else obind (push_route (msi_route arch gsi entry) es) (msi_routes arch table gsis)))"

definition routing_entries :: "'h kvm_host \<Rightarrow> vm_inner \<Rightarrow> (routing_entry list, hv_error) outcome" where
  "routing_entries kh vm =
     (let (irqchip, max_pin) = irqchip_pins (kh_arch kh)
      in obind (pin_routes irqchip (pin_map vm) [0..<max_pin] [])
           (msi_routes (kh_arch kh) (msi_table vm) (kh_iter kh (msi_table vm))))"

definition update_routing_table :: "'h kvm_host \<Rightarrow> ('h, unit) vm_op" where
  "update_routing_table kh s = (case routing_entries kh (fst s) of
       Ok es \<Rightarrow> sys (\<lambda>e. KvmErr (GsiRouting e)) (kh_set_gsi_routing kh es) s
     | Err e \<Rightarrow> (Err e, s)
     | Panic \<Rightarrow> (Panic, s))"

text \<open>A capability of value 0 is missing.\<close>

definition check_extension :: "'h kvm_host \<Rightarrow> kvm_cap \<Rightarrow> ('h, u32) vm_op" where
  "check_extension kh cap =
     sbind (sys (\<lambda>e. KvmErr (CheckCap e)) (kh_check_extension kh cap)) (\<lambda>ret s.
       if ret \<noteq> 0 then (Ok ret, s) else (Err (HvCapability (kvm_cap_name cap)), s))"

definition enable_cap :: "'h kvm_host \<Rightarrow> kvm_cap \<Rightarrow> u64 \<Rightarrow> ('h, unit) vm_op" where
  "enable_cap kh cap arg0 = sys (\<lambda>e. KvmErr (EnableCap (kvm_cap_raw cap) e)) (kh_enable_cap kh cap arg0)"

section \<open>Interrupt descriptors of MSI vectors\<close>

record kvm_irq_fd =
  irqfd_event_fd :: u32
  irqfd_gsi :: u32

definition assign_irqfd :: "'h kvm_host \<Rightarrow> kvm_irq_fd \<Rightarrow> ('h, unit) vm_op" where
  "assign_irqfd kh fd = sys IrqFdError (kh_irqfd kh \<lparr>rq_fd = irqfd_event_fd fd, rq_gsi = irqfd_gsi fd, rq_deassign = False\<rparr>)"

definition deassign_irqfd :: "'h kvm_host \<Rightarrow> kvm_irq_fd \<Rightarrow> ('h, unit) vm_op" where
  "deassign_irqfd kh fd = sys IrqFdError (kh_irqfd kh \<lparr>rq_fd = irqfd_event_fd fd, rq_gsi = irqfd_gsi fd, rq_deassign = True\<rparr>)"

definition put_entry :: "u32 \<Rightarrow> kvm_msi_entry_data \<Rightarrow> vm_inner \<times> 'h \<Rightarrow> vm_inner \<times> 'h" where
  "put_entry gsi e s = ((fst s)\<lparr>msi_table := (msi_table (fst s))(gsi \<mapsto> e)\<rparr>, snd s)"

text \<open>
  The methods that \<^verbatim>\<open>impl_irqfd_method!\<close> makes for a field, given how to read and to replace it.
\<close>

definition irqfd_get :: "(kvm_msi_entry_data \<Rightarrow> 'v) \<Rightarrow> kvm_irq_fd \<Rightarrow> ('h, 'v) vm_op" where
  "irqfd_get get fd s = (case msi_table (fst s) (irqfd_gsi fd) of None \<Rightarrow> (Panic, s) | Some e \<Rightarrow> (Ok (get e), s))"

definition irqfd_set :: "'h kvm_host \<Rightarrow> (kvm_msi_entry_data \<Rightarrow> u32) \<Rightarrow> (u32 \<Rightarrow> kvm_msi_entry_data \<Rightarrow> kvm_msi_entry_data)
    \<Rightarrow> kvm_irq_fd \<Rightarrow> u32 \<Rightarrow> ('h, unit) vm_op" where
  "irqfd_set kh get put fd val s = (case msi_table (fst s) (irqfd_gsi fd) of
       None \<Rightarrow> (Panic, s)
     | Some e \<Rightarrow> (if get e = val then (Ok (), s)
         else let e1 = put val e
           in if \<not> e_masked e1 then update_routing_table kh (put_entry (irqfd_gsi fd) e1 s)
              else (Ok (), put_entry (irqfd_gsi fd) (e1\<lparr>e_dirty := True\<rparr>) s)))"

definition set_addr_lo :: "'h kvm_host \<Rightarrow> kvm_irq_fd \<Rightarrow> u32 \<Rightarrow> ('h, unit) vm_op" where
  "set_addr_lo kh = irqfd_set kh e_addr_lo (\<lambda>v e. e\<lparr>e_addr_lo := v\<rparr>)"

definition set_addr_hi :: "'h kvm_host \<Rightarrow> kvm_irq_fd \<Rightarrow> u32 \<Rightarrow> ('h, unit) vm_op" where
  "set_addr_hi kh = irqfd_set kh e_addr_hi (\<lambda>v e. e\<lparr>e_addr_hi := v\<rparr>)"

definition set_data :: "'h kvm_host \<Rightarrow> kvm_irq_fd \<Rightarrow> u32 \<Rightarrow> ('h, unit) vm_op" where
  "set_data kh = irqfd_set kh e_data (\<lambda>v e. e\<lparr>e_data := v\<rparr>)"

definition get_masked :: "kvm_irq_fd \<Rightarrow> ('h, bool) vm_op" where
  "get_masked = irqfd_get e_masked"

definition set_masked :: "'h kvm_host \<Rightarrow> kvm_irq_fd \<Rightarrow> bool \<Rightarrow> ('h, bool) vm_op" where
  "set_masked kh fd val s = (case msi_table (fst s) (irqfd_gsi fd) of
       None \<Rightarrow> (Panic, s)
     | Some e \<Rightarrow> (if e_masked e = val then (Ok False, s)
         else let s1 = put_entry (irqfd_gsi fd) (e\<lparr>e_masked := val\<rparr>) s
           in sbind (if \<not> val then sbind (if e_dirty e then update_routing_table kh else sret ()) (\<lambda>_. assign_irqfd kh fd)
                     else deassign_irqfd kh fd) (\<lambda>_. sret True) s1))"

text \<open>\<^verbatim>\<open>Drop\<close>: the entry goes, an unmasked descriptor is detached (a failure is only logged), the file is closed.\<close>

definition drop_irqfd :: "'h kvm_host \<Rightarrow> kvm_irq_fd \<Rightarrow> vm_inner \<times> 'h \<Rightarrow> vm_inner \<times> 'h" where
  "drop_irqfd kh fd s =
     (let s1 = ((fst s)\<lparr>msi_table := (msi_table (fst s))(irqfd_gsi fd := None)\<rparr>, snd s)
      in close_fd kh (irqfd_event_fd fd)
           (case msi_table (fst s) (irqfd_gsi fd) of
              None \<Rightarrow> s1
            | Some e \<Rightarrow> if e_masked e then s1 else snd (deassign_irqfd kh fd s1)))"

text \<open>The search for a free number: 232 tries from the shared counter.\<close>

fun alloc_gsi :: "nat \<Rightarrow> kvm_msi_entry_data \<Rightarrow> vm_inner \<Rightarrow> u32 option \<times> vm_inner" where
  "alloc_gsi 0 new_entry vm = (None, vm)"
| "alloc_gsi (Suc n) new_entry vm =
     (let gsi = next_msi_gsi vm mod (of_nat MAX_GSI_ROUTES - 24) + 24; vm1 = vm\<lparr>next_msi_gsi := next_msi_gsi vm + 1\<rparr>
      in case msi_table vm1 gsi of
           Some e \<Rightarrow> alloc_gsi n new_entry vm1
         | None \<Rightarrow> (Some gsi, vm1\<lparr>msi_table := (msi_table vm1)(gsi \<mapsto> new_entry)\<rparr>))"

definition create_irqfd :: "'h kvm_host \<Rightarrow> u32 \<Rightarrow> ('h, kvm_irq_fd) vm_op" where
  "create_irqfd kh devid =
     sbind (sys IrqFdError (kh_eventfd kh)) (\<lambda>event_fd s.
       case alloc_gsi (MAX_GSI_ROUTES - 24)
           (msi_entry_default\<lparr>e_devid := (if kh_arch kh = Aarch64 then devid else 0), e_masked := True\<rparr>) (fst s) of
         (Some gsi, vm) \<Rightarrow> (Ok \<lparr>irqfd_event_fd = event_fd, irqfd_gsi = gsi\<rparr>, (vm, snd s))
       | (None, vm) \<Rightarrow> (Err (KvmErr AllocateGsi), close_fd kh event_fd (vm, snd s)))"

definition msi_send :: "'h kvm_host \<Rightarrow> u32 \<Rightarrow> u64 \<Rightarrow> u32 \<Rightarrow> ('h, unit) vm_op" where
  "msi_send kh devid addr data =
     (let (lo, hi) = translate_msi_addr (kh_arch kh) (ucast addr) (ucast (shr addr 32))
      in sys SendInterrupt (kh_signal_msi kh lo hi data (if kh_arch kh = Aarch64 then devid else 0) (kh_arch kh = Aarch64)))"

definition create_msi_sender :: "'h kvm_host \<Rightarrow> ('h, unit) vm_op" where
  "create_msi_sender kh = sbind (check_extension kh Cap_SIGNAL_MSI) (\<lambda>_. sret ())"

section \<open>Interrupt pins\<close>

record kvm_irq_sender =
  sender_pin :: u8
  sender_event_fd :: u32

text \<open>\<^verbatim>\<open>1 << pin\<close>; \<open>shl\<close> takes the shift modulo the width, as the release build does.\<close>

definition pin_flag :: "u8 \<Rightarrow> u32" where "pin_flag pin = shl 1 (unat pin)"

definition create_irq_sender :: "'h kvm_host \<Rightarrow> u8 \<Rightarrow> ('h, kvm_irq_sender) vm_op" where
  "create_irq_sender kh pin s =
     (let old = pin_map (fst s); s1 = ((fst s)\<lparr>pin_map := old OR pin_flag pin\<rparr>, snd s)
      in if old AND pin_flag pin = pin_flag pin then (Err (CreateIrq pin ''AlreadyExists''), s1)
         else sbind (check_extension kh Cap_IRQFD) (\<lambda>_.
           sbind (sys (CreateIrq pin) (kh_eventfd kh)) (\<lambda>event_fd.
           sbind (update_routing_table kh) (\<lambda>_.
           sbind (sys (CreateIrq pin) (kh_irqfd kh \<lparr>rq_fd = event_fd, rq_gsi = ucast pin, rq_deassign = False\<rparr>)) (\<lambda>_.
           sret \<lparr>sender_pin = pin, sender_event_fd = event_fd\<rparr>)))) s1)"

definition irq_send :: "'h kvm_host \<Rightarrow> kvm_irq_sender \<Rightarrow> ('h, unit) vm_op" where
  "irq_send kh sender = sys SendInterrupt (kh_write kh (sender_event_fd sender) 1)"

definition drop_irq_sender :: "'h kvm_host \<Rightarrow> kvm_irq_sender \<Rightarrow> vm_inner \<times> 'h \<Rightarrow> vm_inner \<times> 'h" where
  "drop_irq_sender kh sender s =
     (let vm = fst s; s1 = (vm\<lparr>pin_map := pin_map vm AND NOT (pin_flag (sender_pin sender))\<rparr>, snd s)
      in close_fd kh (sender_event_fd sender)
           (snd (sys IrqFdError (kh_irqfd kh
             \<lparr>rq_fd = sender_event_fd sender, rq_gsi = ucast (sender_pin sender), rq_deassign = True\<rparr>) s1)))"

section \<open>Event descriptors of doorbells\<close>

definition IOEVENTFD_DATA_MATCH :: u32 where "IOEVENTFD_DATA_MATCH = 1"

definition IOEVENTFD_DEASSIGN :: u32 where "IOEVENTFD_DEASSIGN = 4"

definition ioeventfd_create :: "'h kvm_host \<Rightarrow> ('h, u32) vm_op" where
  "ioeventfd_create kh = sys IoeventFdError (kh_eventfd kh)"

definition ioeventfd_register :: "'h kvm_host \<Rightarrow> u32 \<Rightarrow> u64 \<Rightarrow> u8 \<Rightarrow> u64 option \<Rightarrow> ('h, unit) vm_op" where
  "ioeventfd_register kh fd gpa len data =
     (let request = \<lparr>io_datamatch = (case data of Some d \<Rightarrow> d | None \<Rightarrow> 0), io_addr = gpa, io_len = ucast len, io_fd = fd,
        io_flags = (case data of Some _ \<Rightarrow> IOEVENTFD_DATA_MATCH | None \<Rightarrow> 0)\<rparr>
      in sbind (sys IoeventFdError (kh_ioeventfd kh request)) (\<lambda>_ s.
           (Ok (), ((fst s)\<lparr>ioeventfds := (ioeventfds (fst s))(fd \<mapsto> request)\<rparr>, snd s))))"

definition ioeventfd_deregister :: "'h kvm_host \<Rightarrow> u32 \<Rightarrow> ('h, unit) vm_op" where
  "ioeventfd_deregister kh fd s =
     (let s1 = ((fst s)\<lparr>ioeventfds := (ioeventfds (fst s))(fd := None)\<rparr>, snd s)
      in case ioeventfds (fst s) fd of
           None \<Rightarrow> (Ok (), s1)
         | Some request \<Rightarrow> sys IoeventFdError
             (kh_ioeventfd kh (request\<lparr>io_flags := io_flags request OR IOEVENTFD_DEASSIGN\<rparr>)) s1)"

section \<open>Memory slots\<close>

definition MEM_LOG_DIRTY_PAGES :: u32 where "MEM_LOG_DIRTY_PAGES = 1"

definition MEM_READONLY :: u32 where "MEM_READONLY = 2"

definition MEM_GUEST_MEMFD :: u32 where "MEM_GUEST_MEMFD = 4"

record kvm_memory =
  km_slot_id :: u32
  km_slots :: "u64 \<times> u64 \<Rightarrow> u32 option"

definition kvm_memory_new :: kvm_memory where
  "kvm_memory_new = \<lparr>km_slot_id = 0, km_slots = Map.empty\<rparr>"

type_synonym ('h, 'a) km_op = "(kvm_memory \<times> 'h, 'a, hv_error) op"

definition map_flags :: "mem_map_option \<Rightarrow> u32" where
  "map_flags opt = (if opt_write opt then 0 else MEM_READONLY) OR (if opt_log_dirty opt then MEM_LOG_DIRTY_PAGES else 0)"

definition mem_call :: "(string \<Rightarrow> hv_error) \<Rightarrow> ('h, 'a, string) op \<Rightarrow> ('h, 'a) km_op" where
  "mem_call ctx f s = (case map_err ctx f (snd s) of (r, h) \<Rightarrow> (r, (fst s, h)))"

definition kvm_mem_map :: "'h kvm_host \<Rightarrow> u32 option \<Rightarrow> u64 \<Rightarrow> u64 \<Rightarrow> u64 \<Rightarrow> mem_map_option \<Rightarrow> ('h, unit) km_op" where
  "kvm_mem_map kh memfd gpa sz hva opt s =
     (if \<not> opt_read opt \<or> \<not> opt_exec opt then (Err (KvmErr (MmapOption opt)), s)
      else let slot = km_slot_id (fst s); flags = map_flags opt;
             call = (case memfd of
                 Some fd \<Rightarrow> kh_set_region2 kh \<lparr>mr_slot = slot, mr_flags = flags OR MEM_GUEST_MEMFD, mr_gpa = gpa, mr_size = sz,
                   mr_hva = hva\<rparr> fd gpa
               | None \<Rightarrow> kh_set_region kh \<lparr>mr_slot = slot, mr_flags = flags, mr_gpa = gpa, mr_size = sz, mr_hva = hva\<rparr>)
        in sbind (mem_call (GuestMap hva gpa sz) call) (\<lambda>_ s1.
             (Ok (), (\<lparr>km_slot_id = slot + 1, km_slots = (km_slots (fst s1))((gpa, sz) \<mapsto> slot)\<rparr>, snd s1))) s)"

definition unmap_slot :: "'h kvm_host \<Rightarrow> u32 \<Rightarrow> u64 \<Rightarrow> u64 \<Rightarrow> ('h, unit) km_op" where
  "unmap_slot kh slot gpa sz =
     mem_call (GuestUnmap gpa sz) (kh_set_region kh \<lparr>mr_slot = slot, mr_flags = 0, mr_gpa = gpa, mr_size = 0, mr_hva = 0\<rparr>)"

definition kvm_unmap :: "'h kvm_host \<Rightarrow> u64 \<Rightarrow> u64 \<Rightarrow> ('h, unit) km_op" where
  "kvm_unmap kh gpa sz s = (case km_slots (fst s) (gpa, sz) of
       None \<Rightarrow> (Err (GuestUnmap gpa sz ''NotFound''), s)
     | Some slot \<Rightarrow> unmap_slot kh slot gpa sz ((fst s)\<lparr>km_slots := (km_slots (fst s))((gpa, sz) := None)\<rparr>, snd s))"

definition kvm_register_encrypted_range :: "'h kvm_host \<Rightarrow> u64 \<Rightarrow> u64 \<Rightarrow> ('h, unit) km_op" where
  "kvm_register_encrypted_range kh addr len = mem_call MemEncrypt (kh_encrypt_reg kh addr len)"

definition kvm_deregister_encrypted_range :: "'h kvm_host \<Rightarrow> u64 \<Rightarrow> u64 \<Rightarrow> ('h, unit) km_op" where
  "kvm_deregister_encrypted_range kh addr len = mem_call MemEncrypt (kh_encrypt_unreg kh addr len)"

definition kvm_mark_private_memory :: "'h kvm_host \<Rightarrow> u64 \<Rightarrow> u64 \<Rightarrow> bool \<Rightarrow> ('h, unit) km_op" where
  "kvm_mark_private_memory kh gpa sz private =
     mem_call MemEncrypt (kh_set_attributes kh gpa sz (if private then 8 else 0))"

text \<open>
  \<^verbatim>\<open>drain\<close> yields the slots in some order, \<open>keys\<close>; when an unmapping fails, dropping the iterator still empties the map.
\<close>

definition kvm_reset :: "'h kvm_host \<Rightarrow> (u64 \<times> u64) list \<Rightarrow> ('h, unit) km_op" where
  "kvm_reset kh keys s =
     (let slots = km_slots (fst s); s1 = ((fst s)\<lparr>km_slots := Map.empty\<rparr>, snd s)
      in sbind (sforeach (\<lambda>k. case slots k of None \<Rightarrow> sret () | Some slot \<Rightarrow> unmap_slot kh slot (fst k) (snd k)) keys) (\<lambda>_ s2.
           (Ok (), ((fst s2)\<lparr>km_slot_id := 0\<rparr>, snd s2))) s1)"

text \<open>\<^verbatim>\<open>KvmVm::create_vm_memory\<close>: at most one memory for a machine.\<close>

definition create_vm_memory :: "bool \<Rightarrow> (kvm_memory, hv_error) outcome \<times> bool" where
  "create_vm_memory memory_created =
     (if memory_created then (Err MemoryCreated, memory_created) else (Ok kvm_memory_new, True))"

section \<open>What the routing table holds\<close>

text \<open>MSI numbers are those that \<open>alloc_gsi\<close> gives out, above the pins of the x86-64 interrupt controller.\<close>

definition gsi_ok :: "vm_inner \<Rightarrow> bool" where
  "gsi_ok vm \<longleftrightarrow> (\<forall>g. msi_table vm g \<noteq> None \<longrightarrow> 24 \<le> g \<and> g < 256)"

text \<open>The iteration of the hash map yields each key once.\<close>

definition iter_ok :: "'h kvm_host \<Rightarrow> bool" where
  "iter_ok kh \<longleftrightarrow> (\<forall>t. (\<forall>g. t g \<noteq> None \<longrightarrow> 24 \<le> g \<and> g < 256) \<longrightarrow> distinct (kh_iter kh t) \<and> set (kh_iter kh t) = dom t)"

definition unmasked :: "(u32 \<Rightarrow> kvm_msi_entry_data option) \<Rightarrow> u32 \<Rightarrow> bool" where
  "unmasked table g = (case table g of None \<Rightarrow> False | Some e \<Rightarrow> \<not> e_masked e)"

lemma pin_routes_Ok:
  "length es + length pins \<le> MAX_GSI_ROUTES \<Longrightarrow> \<forall>p \<in> set pins. p < 32 \<Longrightarrow>
   pin_routes chip pm pins es = Ok (es @ map (\<lambda>p. IrqchipRoute (of_nat p) chip (of_nat p)) (filter (bit pm) pins))"
proof (induction pins arbitrary: es)
  case (Cons p pins)
  have "pm AND shl 1 p = 0 \<longleftrightarrow> \<not> bit pm p"
    using Cons.prems(2) by (simp add: shl_def push_bit_of_1 and_exp_eq_0_iff_not_bit)
  then show ?case using Cons by (simp add: push_route_def)
qed simp

lemma msi_routes_Ok:
  "length es + length gsis \<le> MAX_GSI_ROUTES \<Longrightarrow>
   msi_routes arch table gsis es = Ok (es @ map (\<lambda>g. msi_route arch g (the (table g))) (filter (unmasked table) gsis))"
  by (induction gsis arbitrary: es) (auto simp: push_route_def unmasked_def split: option.splits)

lemma gsi_count: "\<forall>g. t g \<noteq> None \<longrightarrow> 24 \<le> g \<and> g < (256 :: u32) \<Longrightarrow> set gs = dom t \<Longrightarrow> distinct gs \<Longrightarrow> length gs \<le> 232"
proof -
  assume a: "\<forall>g. t g \<noteq> None \<longrightarrow> 24 \<le> g \<and> g < (256 :: u32)" "set gs = dom t" "distinct gs"
  have "unat ` set gs \<subseteq> {24..<256}" using a(1,2) by (force simp: word_le_nat_alt word_less_nat_alt dom_def)
  then have "card (unat ` set gs) \<le> card {24..<(256::nat)}" by (intro card_mono) auto
  moreover have "inj_on unat (set gs)" by (rule inj_onI) (simp add: word_unat_eq_iff)
  then have "card (unat ` set gs) = length gs" using a(3) by (simp add: card_image distinct_card)
  ultimately show ?thesis by simp
qed

definition pin_part :: "vm_inner \<Rightarrow> routing_entry list" where
  "pin_part vm = map (\<lambda>p. IrqchipRoute (of_nat p) 2 (of_nat p)) (filter (bit (pin_map vm)) [0..<24])"

definition msi_part :: "'h kvm_host \<Rightarrow> vm_inner \<Rightarrow> routing_entry list" where
  "msi_part kh vm = map (\<lambda>g. msi_route (kh_arch kh) g (the (msi_table vm g)))
     (filter (unmasked (msi_table vm)) (kh_iter kh (msi_table vm)))"

lemma routing_entries_Ok:
  assumes "gsi_ok vm" "iter_ok kh" "kh_arch kh = X86_64"
  shows "routing_entries kh vm = Ok (pin_part vm @ msi_part kh vm)" "length (pin_part vm @ msi_part kh vm) \<le> MAX_GSI_ROUTES"
proof -
  let ?gs = "kh_iter kh (msi_table vm)"
  have gs: "length ?gs \<le> 232" using assms(1,2) gsi_count[of "msi_table vm" ?gs] unfolding gsi_ok_def iter_ok_def by blast
  have pins: "length (pin_part vm) \<le> 24" unfolding pin_part_def by (rule le_trans[OF _ length_filter_le[THEN le_trans]]) auto
  have "pin_routes 2 (pin_map vm) [0..<24] [] = Ok (pin_part vm)"
    using pin_routes_Ok[of "[]" "[0..<24]" 2 "pin_map vm"] by (simp add: pin_part_def MAX_GSI_ROUTES_def)
  then show "routing_entries kh vm = Ok (pin_part vm @ msi_part kh vm)"
    using msi_routes_Ok[of "pin_part vm" ?gs X86_64 "msi_table vm"] gs pins assms(3)
    by (simp add: routing_entries_def irqchip_pins_def msi_part_def MAX_GSI_ROUTES_def)
  have "length (msi_part kh vm) \<le> 232" unfolding msi_part_def using gs by (simp add: le_trans[OF length_filter_le])
  then show "length (pin_part vm @ msi_part kh vm) \<le> MAX_GSI_ROUTES" using pins by (simp add: MAX_GSI_ROUTES_def)
qed

lemma route_gsi_msi [simp]: "route_gsi (msi_route arch g e) = g"
  by (simp add: msi_route_def case_prod_beta)

lemma routing_distinct:
  assumes "gsi_ok vm" "iter_ok kh"
  shows "distinct (map route_gsi (pin_part vm @ msi_part kh vm))"
proof -
  let ?gs = "filter (unmasked (msi_table vm)) (kh_iter kh (msi_table vm))"
  have gs: "distinct ?gs" "set ?gs \<subseteq> dom (msi_table vm)" using assms by (auto simp: gsi_ok_def iter_ok_def)
  have p: "map route_gsi (pin_part vm) = map of_nat (filter (bit (pin_map vm)) [0..<24])" by (simp add: pin_part_def)
  have inj: "inj_on (of_nat :: nat \<Rightarrow> u32) {..<24}" by (rule inj_onI) (auto simp: word_unat_eq_iff unat_of_nat)
  have "distinct (map (of_nat :: nat \<Rightarrow> u32) (filter (bit (pin_map vm)) [0..<24]))"
    by (auto simp: distinct_map intro: inj_on_subset[OF inj])
  moreover have "g < 24" if "g \<in> set (map (of_nat :: nat \<Rightarrow> u32) (filter (bit (pin_map vm)) [0..<24]))" for g
    using that by (auto simp: word_less_nat_alt unat_of_nat)
  moreover have "24 \<le> g" if "g \<in> set ?gs" for g using gs(2) that assms(1) by (auto simp: gsi_ok_def dom_def)
  moreover have "map route_gsi (msi_part kh vm) = ?gs" by (simp add: msi_part_def comp_def)
  ultimately show ?thesis using gs(1) unfolding map_append distinct_append p by (auto simp: not_le dest!: leD)
qed


section \<open>Reachable states\<close>

text \<open>The operations in any order and with any outcome of the system calls.\<close>

inductive vm_reachable :: "'h kvm_host \<Rightarrow> vm_inner \<times> 'h \<Rightarrow> bool" for kh where
  start: "vm_reachable kh (vm_inner_new memfd, h)"
| create_irqfd: "vm_reachable kh s \<Longrightarrow> vm_reachable kh (snd (create_irqfd kh devid s))"
| set_addr_lo: "vm_reachable kh s \<Longrightarrow> vm_reachable kh (snd (set_addr_lo kh fd v s))"
| set_addr_hi: "vm_reachable kh s \<Longrightarrow> vm_reachable kh (snd (set_addr_hi kh fd v s))"
| set_data: "vm_reachable kh s \<Longrightarrow> vm_reachable kh (snd (set_data kh fd v s))"
| set_masked: "vm_reachable kh s \<Longrightarrow> vm_reachable kh (snd (set_masked kh fd b s))"
| drop_irqfd: "vm_reachable kh s \<Longrightarrow> vm_reachable kh (drop_irqfd kh fd s)"
| create_irq_sender: "vm_reachable kh s \<Longrightarrow> vm_reachable kh (snd (create_irq_sender kh pin s))"
| drop_irq_sender: "vm_reachable kh s \<Longrightarrow> vm_reachable kh (drop_irq_sender kh sender s)"
| register: "vm_reachable kh s \<Longrightarrow> vm_reachable kh (snd (ioeventfd_register kh fd gpa len data s))"
| deregister: "vm_reachable kh s \<Longrightarrow> vm_reachable kh (snd (ioeventfd_deregister kh fd s))"

lemma sys_keeps [simp]: "fst (snd (sys ctx f s)) = fst s"
  by (simp add: sys_def split: prod.split)

lemma sys_cases: obtains r h where "sys ctx f s = (r, (fst s, h))"
  by (cases "sys ctx f s") (metis surj_pair sys_keeps fst_conv snd_conv)

lemma sys_Ok: "f (snd s) = (Ok a, h) \<Longrightarrow> sys ctx f s = (Ok a, (fst s, h))"
  by (simp add: sys_def map_err_def)

lemma keeps_snd: "keeps v f \<Longrightarrow> v (snd (f s)) = v s"
  by (metis keepsD surjective_pairing)

lemma keeps_sys: "keeps fst (sys ctx f)"
  by (simp add: keeps_def sys_def split: prod.split)

lemma keeps_update: "keeps fst (update_routing_table kh)"
  unfolding keeps_def update_routing_table_def by (auto split: outcome.split)

lemmas vm_keeps = keeps_sys keeps_update keeps_sbind keeps_sret

lemma keeps_check: "keeps fst (check_extension kh cap)"
  unfolding check_extension_def by (intro vm_keeps) (simp add: keeps_def)

lemma gsi_ok_put: "gsi_ok (fst s) \<Longrightarrow> msi_table (fst s) g \<noteq> None \<Longrightarrow> gsi_ok (fst (put_entry g e s))"
  by (auto simp: gsi_ok_def put_entry_def)

lemma gsi_ok_irqfd_set: "gsi_ok (fst s) \<Longrightarrow> gsi_ok (fst (snd (irqfd_set kh get put fd v s)))"
  by (auto simp: irqfd_set_def Let_def gsi_ok_put keeps_snd[OF keeps_update] split: option.split)

lemma gsi_ok_set_masked:
  assumes "gsi_ok (fst s)"
  shows "gsi_ok (fst (snd (set_masked kh fd b s)))"
proof (cases "msi_table (fst s) (irqfd_gsi fd)")
  case (Some e)
  have "keeps fst (sbind (if \<not> b then sbind (if e_dirty e then update_routing_table kh else sret ()) (\<lambda>_. assign_irqfd kh fd)
      else deassign_irqfd kh fd) (\<lambda>_. sret True))"
    by (auto simp: assign_irqfd_def deassign_irqfd_def intro!: vm_keeps)
  from keeps_snd[OF this] show ?thesis
    using Some assms gsi_ok_put[of s "irqfd_gsi fd"] by (simp add: set_masked_def Let_def)
qed (simp add: set_masked_def assms)

lemma alloc_gsi_ok: "gsi_ok vm \<Longrightarrow> gsi_ok (snd (alloc_gsi n e vm))"
proof (induction n arbitrary: vm)
  case (Suc n)
  have r: "24 \<le> x mod 232 + 24 \<and> x mod 232 + 24 < 256" for x :: u32
  proof -
    have "unat (x mod 232) < 232" by (simp add: unat_mod)
    then have "unat (x mod 232 + 24) = unat (x mod 232) + unat (24 :: u32)" by (intro unat_plus_no_wrap) simp
    then show ?thesis using \<open>unat (x mod 232) < 232\<close> by (simp add: word_le_nat_alt word_less_nat_alt)
  qed
  let ?g = "next_msi_gsi vm mod 232 + 24" and ?vm = "vm\<lparr>next_msi_gsi := next_msi_gsi vm + 1\<rparr>"
  have "gsi_ok ?vm" using Suc.prems by (simp add: gsi_ok_def)
  moreover from this have "gsi_ok (?vm\<lparr>msi_table := (msi_table vm)(?g \<mapsto> e)\<rparr>)"
    using r[of "next_msi_gsi vm"] unfolding gsi_ok_def by simp
  ultimately show ?case using Suc.IH[of ?vm] by (cases "msi_table vm ?g") (simp_all add: MAX_GSI_ROUTES_def Let_def)
qed simp


lemma gsi_ok_same: "msi_table vm' = msi_table vm \<Longrightarrow> gsi_ok vm' = gsi_ok vm"
  by (simp add: gsi_ok_def)

lemma create_irqfd_table:
  assumes "gsi_ok (fst s)"
  shows "gsi_ok (fst (snd (create_irqfd kh devid s)))"
proof -
  obtain r h where sys: "sys IrqFdError (kh_eventfd kh) s = (r, (fst s, h))" by (rule sys_cases)
  let ?e = "msi_entry_default\<lparr>e_devid := (if kh_arch kh = Aarch64 then devid else 0), e_masked := True\<rparr>"
  obtain g vm where "alloc_gsi (MAX_GSI_ROUTES - 24) ?e (fst s) = (g, vm)" by (cases "alloc_gsi (MAX_GSI_ROUTES - 24) ?e (fst s)")
  moreover from this have "gsi_ok vm" using alloc_gsi_ok[OF assms, of "MAX_GSI_ROUTES - 24" ?e] by simp
  ultimately show ?thesis using sys assms unfolding create_irqfd_def sbind_def
    by (cases r; cases g) (simp_all add: close_fd_def)
qed

lemma create_irq_sender_table: "msi_table (fst (snd (create_irq_sender kh pin s))) = msi_table (fst s)"
proof -
  have "keeps fst (sbind (check_extension kh Cap_IRQFD) (\<lambda>_.
           sbind (sys (CreateIrq pin) (kh_eventfd kh)) (\<lambda>event_fd.
           sbind (update_routing_table kh) (\<lambda>_.
           sbind (sys (CreateIrq pin) (kh_irqfd kh \<lparr>rq_fd = event_fd, rq_gsi = ucast pin, rq_deassign = False\<rparr>)) (\<lambda>_.
           sret \<lparr>sender_pin = pin, sender_event_fd = event_fd\<rparr>)))))"
    by (intro vm_keeps keeps_check)
  from keeps_snd[OF this] show ?thesis by (simp add: create_irq_sender_def Let_def)
qed

lemma ioeventfd_tables:
  "msi_table (fst (snd (ioeventfd_register kh fd gpa len data s))) = msi_table (fst s)"
  "msi_table (fst (snd (ioeventfd_deregister kh fd s))) = msi_table (fst s)"
proof -
  let ?q = "\<lparr>io_datamatch = (case data of Some d \<Rightarrow> d | None \<Rightarrow> 0), io_addr = gpa, io_len = ucast len, io_fd = fd,
        io_flags = (case data of Some _ \<Rightarrow> IOEVENTFD_DATA_MATCH | None \<Rightarrow> 0)\<rparr>"
  obtain r h where "sys IoeventFdError (kh_ioeventfd kh ?q) s = (r, (fst s, h))" by (rule sys_cases)
  then show "msi_table (fst (snd (ioeventfd_register kh fd gpa len data s))) = msi_table (fst s)"
    unfolding ioeventfd_register_def sbind_def Let_def by (cases r) simp_all
  show "msi_table (fst (snd (ioeventfd_deregister kh fd s))) = msi_table (fst s)"
    by (simp add: ioeventfd_deregister_def Let_def split: option.split)
qed

lemma reachable_gsi_ok: "vm_reachable kh s \<Longrightarrow> gsi_ok (fst s)"
proof (induction rule: vm_reachable.induct)
  case (drop_irqfd s fd)
  then show ?case by (auto simp: drop_irqfd_def Let_def close_fd_def deassign_irqfd_def gsi_ok_def split: option.split)
next
  case (drop_irq_sender s sender)
  then show ?case by (simp add: drop_irq_sender_def Let_def close_fd_def gsi_ok_def)
qed (simp_all add: gsi_ok_irqfd_set set_addr_lo_def set_addr_hi_def set_data_def gsi_ok_set_masked create_irqfd_table
    gsi_ok_same[OF create_irq_sender_table] gsi_ok_same[OF ioeventfd_tables(1)] gsi_ok_same[OF ioeventfd_tables(2)],
    simp add: gsi_ok_def vm_inner_new_def)


text \<open>
  C4.  On x86-64, whatever the sequence of operations and whichever system calls fail, writing the routing table never
  runs past the 256 entries of its array: the table has one entry for each pin in use and one for each unmasked
  MSI vector, and no number occurs twice.
\<close>

theorem routing_table_fits:
  assumes "vm_reachable kh s" "iter_ok kh" "kh_arch kh = X86_64"
  shows "\<exists>es. routing_entries kh (fst s) = Ok es \<and> length es \<le> MAX_GSI_ROUTES \<and> distinct (map route_gsi es) \<and>
    set es = {IrqchipRoute (of_nat p) 2 (of_nat p) | p. p < 24 \<and> bit (pin_map (fst s)) p} \<union>
      {msi_route X86_64 g e | g e. msi_table (fst s) g = Some e \<and> \<not> e_masked e}"
proof -
  let ?vm = "fst s"
  have ok: "gsi_ok ?vm" using assms(1) by (rule reachable_gsi_ok)
  have keys: "set (kh_iter kh (msi_table ?vm)) = dom (msi_table ?vm)" using ok assms(2) by (simp add: gsi_ok_def iter_ok_def)
  have "set (pin_part ?vm) = {IrqchipRoute (of_nat p) 2 (of_nat p) | p. p < 24 \<and> bit (pin_map ?vm) p}"
    by (auto simp: pin_part_def)
  moreover have "set (msi_part kh ?vm) = {msi_route X86_64 g e | g e. msi_table ?vm g = Some e \<and> \<not> e_masked e}"
    using keys assms(3) by (force simp: msi_part_def unmasked_def split: option.splits)
  ultimately show ?thesis using routing_entries_Ok[OF ok assms(2,3)] routing_distinct[OF ok assms(2)]
    by (intro exI[of _ "pin_part ?vm @ msi_part kh ?vm"]) simp
qed

text \<open>A host whose calls succeed and that remembers the routing table it was given; every event descriptor is 3.\<close>

definition gsi_keys :: "(u32 \<Rightarrow> 'e option) \<Rightarrow> u32 list" where
  "gsi_keys t = filter (\<lambda>g. t g \<noteq> None) (map of_nat [24..<256])"

definition plain_host :: "routing_entry list kvm_host" where
  "plain_host = \<lparr>kh_arch = X86_64, kh_iter = gsi_keys, kh_set_gsi_routing = (\<lambda>es h. (Ok (), es)), kh_irqfd = (\<lambda>_ h. (Ok (), h)),
     kh_signal_msi = (\<lambda>_ _ _ _ _ h. (Ok (), h)), kh_ioeventfd = (\<lambda>_ h. (Ok (), h)), kh_set_region = (\<lambda>_ h. (Ok (), h)),
     kh_set_region2 = (\<lambda>_ _ _ h. (Ok (), h)), kh_encrypt_reg = (\<lambda>_ _ h. (Ok (), h)), kh_encrypt_unreg = (\<lambda>_ _ h. (Ok (), h)),
     kh_set_attributes = (\<lambda>_ _ _ h. (Ok (), h)), kh_check_extension = (\<lambda>_ h. (Ok 1, h)), kh_enable_cap = (\<lambda>_ _ h. (Ok (), h)),
     kh_eventfd = (\<lambda>h. (Ok 3, h)), kh_write = (\<lambda>_ _ h. (Ok (), h)), kh_close = (\<lambda>_ h. h)\<rparr>"

lemma gsi_keys_distinct: "distinct (gsi_keys t)"
proof -
  have "inj_on (of_nat :: nat \<Rightarrow> u32) {24..<256}" by (rule inj_onI) (auto simp: word_unat_eq_iff unat_of_nat)
  then show ?thesis unfolding gsi_keys_def by (intro distinct_filter) (simp only: distinct_map set_upt distinct_upt simp_thms)
qed

lemma gsi_keys_dom:
  assumes "\<forall>g. t g \<noteq> None \<longrightarrow> 24 \<le> g \<and> g < 256"
  shows "set (gsi_keys t) = dom t"
proof -
  have "g \<in> of_nat ` {24..<256}" if "t g \<noteq> None" for g
    using assms that by (intro image_eqI[of _ _ "unat g"]) (auto simp: word_le_nat_alt word_less_nat_alt)
  then show ?thesis unfolding gsi_keys_def set_filter set_map set_upt by blast
qed

lemma plain_host_iter: "iter_ok plain_host"
  by (simp add: iter_ok_def plain_host_def gsi_keys_distinct gsi_keys_dom)

theorem routing_table_fits_witness:
  "\<exists>es. routing_entries plain_host (fst (snd (create_irq_sender plain_host 4 (vm_inner_new None, [])))) = Ok es \<and>
     length es \<le> MAX_GSI_ROUTES \<and> distinct (map route_gsi es)"
  using routing_table_fits[OF vm_reachable.create_irq_sender[OF vm_reachable.start] plain_host_iter, of 4 None "[]"]
  by (auto simp: plain_host_def)

section \<open>The registers of a descriptor\<close>

text \<open>
  The interface that MSI and MSI-X use. A descriptor is named by its number; \<open>fds\<close> gives the event descriptor that
  it was created with.
\<close>

definition kvm_irqfd_ops :: "'h kvm_host \<Rightarrow> (u32 \<Rightarrow> u32) \<Rightarrow> (u32, vm_inner \<times> 'h) irqfd_ops" where
  "kvm_irqfd_ops kh fds = (let fd = (\<lambda>g. \<lparr>irqfd_event_fd = fds g, irqfd_gsi = g\<rparr>)
     in \<lparr>irq_set_addr_lo = (\<lambda>g. set_addr_lo kh (fd g)), irq_get_addr_lo = (\<lambda>g. irqfd_get e_addr_lo (fd g)),
         irq_set_addr_hi = (\<lambda>g. set_addr_hi kh (fd g)), irq_get_addr_hi = (\<lambda>g. irqfd_get e_addr_hi (fd g)),
         irq_set_data = (\<lambda>g. set_data kh (fd g)), irq_get_data = (\<lambda>g. irqfd_get e_data (fd g)),
         irq_set_masked = (\<lambda>g. set_masked kh (fd g)), irq_get_masked = (\<lambda>g. get_masked (fd g))\<rparr>)"

definition entry_regs :: "kvm_msi_entry_data \<Rightarrow> irq_regs" where
  "entry_regs e = \<lparr>r_addr_lo = e_addr_lo e, r_addr_hi = e_addr_hi e, r_data = e_data e, r_masked = e_masked e\<rparr>"

definition kvm_regs :: "vm_inner \<times> 'h \<Rightarrow> u32 \<Rightarrow> irq_regs" where
  "kvm_regs s g = entry_regs (case msi_table (fst s) g of None \<Rightarrow> msi_entry_default | Some e \<Rightarrow> e)"

text \<open>The kernel accepts every routing table of at most 256 entries and every descriptor.\<close>

definition host_accepts :: "'h kvm_host \<Rightarrow> bool" where
  "host_accepts kh \<longleftrightarrow> kh_arch kh = X86_64 \<and> iter_ok kh \<and>
     (\<forall>es h. length es \<le> MAX_GSI_ROUTES \<longrightarrow> fst (kh_set_gsi_routing kh es h) = Ok ()) \<and> (\<forall>q h. fst (kh_irqfd kh q h) = Ok ())"

definition kvm_live :: "'h kvm_host \<Rightarrow> vm_inner \<times> 'h \<Rightarrow> u32 \<Rightarrow> bool" where
  "kvm_live kh s g \<longleftrightarrow> host_accepts kh \<and> gsi_ok (fst s) \<and> msi_table (fst s) g \<noteq> None"

lemma update_accepted:
  assumes "host_accepts kh" "gsi_ok (fst s)"
  shows "\<exists>h. update_routing_table kh s = (Ok (), (fst s, h))"
proof -
  let ?es = "pin_part (fst s) @ msi_part kh (fst s)"
  have es: "routing_entries kh (fst s) = Ok ?es" "length ?es \<le> MAX_GSI_ROUTES"
    using routing_entries_Ok[of "fst s" kh] assms by (simp_all add: host_accepts_def)
  then have "fst (kh_set_gsi_routing kh ?es (snd s)) = Ok ()" using assms(1) by (simp add: host_accepts_def)
  then have "kh_set_gsi_routing kh ?es (snd s) = (Ok (), snd (kh_set_gsi_routing kh ?es (snd s)))" by (metis surjective_pairing)
  then have "sys ctx (kh_set_gsi_routing kh ?es) s = (Ok (), (fst s, snd (kh_set_gsi_routing kh ?es (snd s))))" for ctx
    by (rule sys_Ok)
  then show ?thesis using es by (simp add: update_routing_table_def)
qed

lemma irqfd_accepted: "host_accepts kh \<Longrightarrow> \<exists>h. sys ctx (kh_irqfd kh q) s = (Ok (), (fst s, h))"
  by (metis host_accepts_def surjective_pairing sys_Ok)


text \<open>A change of one field of an entry is a change of one register of that descriptor.\<close>

lemma put_entry_live: "kvm_live kh s g \<Longrightarrow> kvm_live kh (fst (put_entry g e s), h) = kvm_live kh s"
  by (rule ext) (auto simp: kvm_live_def put_entry_def gsi_ok_def)

lemma put_entry_regs: "kvm_regs (fst (put_entry g e s), h) = (kvm_regs s)(g := entry_regs e)"
  by (rule ext) (simp add: kvm_regs_def put_entry_def)

lemma irqfd_set_regs:
  assumes live: "kvm_live kh s g" and e: "msi_table (fst s) g = Some e" and fd: "irqfd_gsi fd = g"
    and same: "get e = v \<Longrightarrow> put v e = e" and m: "\<And>e. e_masked (put v e) = e_masked e"
  shows "\<exists>s'. irqfd_set kh get put fd v s = (Ok (), s') \<and> kvm_live kh s' = kvm_live kh s \<and>
    kvm_regs s' = (kvm_regs s)(g := entry_regs (put v e))"
proof (cases "get e = v")
  case True
  then have "kvm_regs s = (kvm_regs s)(g := entry_regs (put v e))" using same e by (auto simp: kvm_regs_def)
  then show ?thesis using True e fd by (simp add: irqfd_set_def)
next
  case False
  show ?thesis
  proof (cases "e_masked e")
    case True
    let ?s = "put_entry g ((put v e)\<lparr>e_dirty := True\<rparr>) s"
    have "irqfd_set kh get put fd v s = (Ok (), ?s)" using False True e fd m by (simp add: irqfd_set_def Let_def)
    moreover have "?s = (fst ?s, snd ?s)" by simp
    moreover have "entry_regs ((put v e)\<lparr>e_dirty := True\<rparr>) = entry_regs (put v e)" by (simp add: entry_regs_def)
    ultimately show ?thesis using put_entry_live[OF live] put_entry_regs by metis
  next
    case unm: False
    have "gsi_ok (fst (put_entry g (put v e) s))" using live by (intro gsi_ok_put) (auto simp: kvm_live_def)
    then obtain h where "update_routing_table kh (put_entry g (put v e) s) = (Ok (), (fst (put_entry g (put v e) s), h))"
      using update_accepted[of kh "put_entry g (put v e) s"] live by (auto simp: kvm_live_def)
    moreover have "irqfd_set kh get put fd v s = update_routing_table kh (put_entry g (put v e) s)"
      using False unm e fd m by (simp add: irqfd_set_def Let_def)
    ultimately show ?thesis using put_entry_live[OF live] put_entry_regs by metis
  qed
qed

lemma set_masked_regs:
  assumes live: "kvm_live kh s g" and e: "msi_table (fst s) g = Some e" and fd: "irqfd_gsi fd = g"
  shows "\<exists>s'. set_masked kh fd b s = (Ok (e_masked e \<noteq> b), s') \<and> kvm_live kh s' = kvm_live kh s \<and>
    kvm_regs s' = (kvm_regs s)(g := entry_regs (e\<lparr>e_masked := b\<rparr>))"
proof (cases "e_masked e = b")
  case True
  then have "e\<lparr>e_masked := b\<rparr> = e" by (cases e) simp
  then have "kvm_regs s = (kvm_regs s)(g := entry_regs (e\<lparr>e_masked := b\<rparr>))" using e by (auto simp: kvm_regs_def)
  then show ?thesis using True e fd by (simp add: set_masked_def)
next
  case False
  let ?s = "put_entry g (e\<lparr>e_masked := b\<rparr>) s"
  have acc: "host_accepts kh" using live by (simp add: kvm_live_def)
  have ok: "gsi_ok (fst ?s)" using live by (intro gsi_ok_put) (auto simp: kvm_live_def)
  obtain h1 where h1: "(if e_dirty e then update_routing_table kh else sret ()) ?s = (Ok (), (fst ?s, h1))"
    using update_accepted[OF acc ok] by (cases "e_dirty e") (auto simp: put_entry_def)
  obtain h2 where h2: "assign_irqfd kh fd (fst ?s, h1) = (Ok (), (fst ?s, h2))"
    using irqfd_accepted[OF acc, where s = "(fst ?s, h1)"] unfolding assign_irqfd_def by fastforce
  obtain h3 where h3: "deassign_irqfd kh fd ?s = (Ok (), (fst ?s, h3))"
    using irqfd_accepted[OF acc] unfolding deassign_irqfd_def by blast
  have "set_masked kh fd b s = (Ok True, (fst ?s, if b then h3 else h2))"
    using False e fd h1 h2 h3 by (cases b; cases "e_dirty e") (simp_all add: set_masked_def Let_def sbind_def)
  then show ?thesis using False by (simp add: put_entry_live[OF live] put_entry_regs)
qed

interpretation kvm: irqfd "kvm_irqfd_ops kh fds" "kvm_live kh" kvm_regs for kh :: "'h kvm_host" and fds
proof
  fix s :: "vm_inner \<times> 'h" and g v b
  assume live: "kvm_live kh s g"
  then obtain e where e: "msi_table (fst s) g = Some e" by (auto simp: kvm_live_def)
  have r: "kvm_regs s g = entry_regs e" using e by (simp add: kvm_regs_def)
  let ?fd = "\<lparr>irqfd_event_fd = fds g, irqfd_gsi = g\<rparr>"
  show "\<exists>w'. irq_set_addr_lo (kvm_irqfd_ops kh fds) g v s = (Ok (), w') \<and> kvm_live kh w' = kvm_live kh s \<and>
      kvm_regs w' = (kvm_regs s)(g := (kvm_regs s g)\<lparr>r_addr_lo := v\<rparr>)"
    using irqfd_set_regs[OF live e, of ?fd e_addr_lo v "\<lambda>v e. e\<lparr>e_addr_lo := v\<rparr>"]
    by (auto simp: kvm_irqfd_ops_def set_addr_lo_def r entry_regs_def)
  show "\<exists>w'. irq_set_addr_hi (kvm_irqfd_ops kh fds) g v s = (Ok (), w') \<and> kvm_live kh w' = kvm_live kh s \<and>
      kvm_regs w' = (kvm_regs s)(g := (kvm_regs s g)\<lparr>r_addr_hi := v\<rparr>)"
    using irqfd_set_regs[OF live e, of ?fd e_addr_hi v "\<lambda>v e. e\<lparr>e_addr_hi := v\<rparr>"]
    by (auto simp: kvm_irqfd_ops_def set_addr_hi_def r entry_regs_def)
  show "\<exists>w'. irq_set_data (kvm_irqfd_ops kh fds) g v s = (Ok (), w') \<and> kvm_live kh w' = kvm_live kh s \<and>
      kvm_regs w' = (kvm_regs s)(g := (kvm_regs s g)\<lparr>r_data := v\<rparr>)"
    using irqfd_set_regs[OF live e, of ?fd e_data v "\<lambda>v e. e\<lparr>e_data := v\<rparr>"]
    by (auto simp: kvm_irqfd_ops_def set_data_def r entry_regs_def)
  show "\<exists>w'. irq_set_masked (kvm_irqfd_ops kh fds) g b s = (Ok (r_masked (kvm_regs s g) \<noteq> b), w') \<and>
      kvm_live kh w' = kvm_live kh s \<and> kvm_regs w' = (kvm_regs s)(g := (kvm_regs s g)\<lparr>r_masked := b\<rparr>)"
    using set_masked_regs[OF live e, of ?fd b] by (auto simp: kvm_irqfd_ops_def r entry_regs_def)
  show "irq_get_addr_lo (kvm_irqfd_ops kh fds) g s = (Ok (r_addr_lo (kvm_regs s g)), s) \<and>
      irq_get_addr_hi (kvm_irqfd_ops kh fds) g s = (Ok (r_addr_hi (kvm_regs s g)), s) \<and>
      irq_get_data (kvm_irqfd_ops kh fds) g s = (Ok (r_data (kvm_regs s g)), s) \<and>
      irq_get_masked (kvm_irqfd_ops kh fds) g s = (Ok (r_masked (kvm_regs s g)), s)"
    using e by (simp add: kvm_irqfd_ops_def irqfd_get_def get_masked_def r entry_regs_def)
qed


text \<open>
  A vector programmed while it is unmasked, then masked; another vector is unmasked, and then the first again. The
  run uses the numbers 24 and 25 only, and the iteration yields those.
\<close>

definition two_host :: "routing_entry list kvm_host" where
  "two_host = plain_host\<lparr>kh_iter := (\<lambda>t. filter (\<lambda>g. t g \<noteq> None) [24, 25])\<rparr>"

definition remask_run :: "(routing_entry list, unit) vm_op" where
  "remask_run =
     sbind (create_irqfd two_host 0) (\<lambda>a. sbind (create_irqfd two_host 0) (\<lambda>b.
     sbind (set_masked two_host a False) (\<lambda>_. sbind (set_addr_lo two_host a 0xfee00000) (\<lambda>_.
     sbind (set_masked two_host a True) (\<lambda>_. sbind (set_data two_host b 0x31) (\<lambda>_.
     sbind (set_masked two_host b False) (\<lambda>_. sbind (set_masked two_host a False) (\<lambda>_. sret ()))))))))"

definition routed :: "vm_inner \<times> routing_entry list \<Rightarrow> u32 \<Rightarrow> bool" where
  "routed s g = list_ex (\<lambda>r. route_gsi r = g) (snd s)"


end
