(* ===== verification/Addressable.thy ===== *)
theory Addressable
  imports Hypervisor
begin

text \<open>
  \<^verbatim>\<open>alioth/src/mem/addressable.rs\<close>: a sorted table of non-overlapping address slots. It
  carries the RAM layout, the MMIO and port buses, the region tables of the guest memory and
  the capability list of a PCI function. The backend type and its \<^verbatim>\<open>SlotBackend::size\<close> are
  parameters. The last part states the table as an interface (a locale) whose laws the
  buses rely on, and interprets it on the definitions below.
\<close>

section \<open>Errors of the memory layer\<close>

text \<open>
  \<^verbatim>\<open>mem::Error\<close>. Errors that wrap a value of the hypervisor, the operating system or a
  device are opaque here.
\<close>

datatype mem_error =
    HvError hv_error
  | ZeroSizedSlot
  | ExceedsLimit u64 u64
  | Overlap "u64 \<times> u64" "u64 \<times> u64"
  | NotMapped u64
  | BackendTooBig u64 u64
  | NotAligned u64 nat
  | NotContinuous u64 u64
  | SystemError string
  | WriteError string
  | ReadError string
  | MmioError boxed_error
  | ChangeLayoutError boxed_error

section \<open>Slots\<close>

record 'b slot =
  s_addr :: u64
  s_backend :: 'b

definition slot_new :: "('b \<Rightarrow> u64) \<Rightarrow> u64 \<Rightarrow> 'b \<Rightarrow> ('b slot, mem_error) outcome" where
  "slot_new sz a b =
     (if sz b = 0 then Err ZeroSizedSlot
      else case checked_add (sz b - 1) a of
             None \<Rightarrow> Err (ExceedsLimit a (sz b))
           | Some _ \<Rightarrow> Ok \<lparr>s_addr = a, s_backend = b\<rparr>)"

definition max_addr :: "('b \<Rightarrow> u64) \<Rightarrow> 'b slot \<Rightarrow> u64" where
  "max_addr sz s = (sz (s_backend s) - 1) + s_addr s"

section \<open>Binary search\<close>

text \<open>
  \<^verbatim>\<open>slice::binary_search_by_key\<close> of the standard library: \<open>Inr i\<close> (\<^verbatim>\<open>Ok(i)\<close>) when the key
  at \<open>i\<close> is equal, \<open>Inl i\<close> (\<^verbatim>\<open>Err(i)\<close>) with the insertion point otherwise.
\<close>

function bsearch_loop :: "u64 list \<Rightarrow> u64 \<Rightarrow> nat \<Rightarrow> nat \<Rightarrow> nat" where
  "bsearch_loop ks k base n =
     (if 1 < n
      then let half = n div 2; mid = base + half
           in bsearch_loop ks k (if k < ks ! mid then base else mid) (n - half)
      else base)"
  by pat_completeness auto
termination
  by (relation "measure (\<lambda>(ks, k, base, n). n)") auto

declare bsearch_loop.simps [simp del]

definition binary_search :: "u64 list \<Rightarrow> u64 \<Rightarrow> nat + nat" where
  "binary_search ks k =
     (if ks = [] then Inl 0
      else let base = bsearch_loop ks k 0 (length ks)
           in if ks ! base = k then Inr base
              else Inl (base + (if ks ! base < k then 1 else 0)))"

section \<open>The table\<close>

record 'b addressable =
  slots :: "'b slot list"

definition addressable_new :: "'b addressable" where
  "addressable_new = \<lparr>slots = []\<rparr>"

definition addressable_iter :: "'b addressable \<Rightarrow> (u64 \<times> 'b) list" where
  "addressable_iter t = map (\<lambda>s. (s_addr s, s_backend s)) (slots t)"

text \<open>\<^verbatim>\<open>drain(..)\<close> yields every slot and leaves the table empty.\<close>

definition addressable_drain :: "'b addressable \<Rightarrow> (u64 \<times> 'b) list \<times> 'b addressable" where
  "addressable_drain t = (map (\<lambda>s. (s_addr s, s_backend s)) (slots t), t\<lparr>slots := []\<rparr>)"

definition addressable_is_empty :: "'b addressable \<Rightarrow> bool" where
  "addressable_is_empty t \<longleftrightarrow> slots t = []"

definition addressable_last :: "'b addressable \<Rightarrow> (u64 \<times> 'b) option" where
  "addressable_last t =
     (if slots t = [] then None
      else Some (s_addr (last (slots t)), s_backend (last (slots t))))"

definition search_slot :: "'b addressable \<Rightarrow> u64 \<Rightarrow> nat + nat" where
  "search_slot t a = binary_search (map s_addr (slots t)) a"

text \<open>\<^verbatim>\<open>Vec::insert\<close> and \<^verbatim>\<open>Vec::remove\<close> at an index inside the vector.\<close>

definition vec_insert :: "nat \<Rightarrow> 'x \<Rightarrow> 'x list \<Rightarrow> 'x list" where
  "vec_insert i x xs = take i xs @ x # drop i xs"

definition vec_remove :: "nat \<Rightarrow> 'x list \<Rightarrow> 'x list" where
  "vec_remove i xs = take i xs @ drop (Suc i) xs"

definition addressable_add :: "('b \<Rightarrow> u64) \<Rightarrow> 'b addressable \<Rightarrow> u64 \<Rightarrow> 'b
    \<Rightarrow> ('b addressable, mem_error) outcome" where
  "addressable_add sz t a b =
     obind (slot_new sz a b) (\<lambda>slot.
       let ss = slots t;
           result = (case search_slot t a of
               Inr i \<Rightarrow> Inl (ss ! i)
             | Inl i \<Rightarrow>
                 (if i < length ss \<and> s_addr (ss ! i) \<le> max_addr sz slot then Inl (ss ! i)
                  else if 0 < i \<and> s_addr slot \<le> max_addr sz (ss ! (i - 1))
                       then Inl (ss ! (i - 1))
                  else Inr i))
       in case result of
            Inl exist \<Rightarrow> Err (Overlap (s_addr slot, max_addr sz slot)
                                     (s_addr exist, max_addr sz exist))
          | Inr i \<Rightarrow> Ok (t\<lparr>slots := vec_insert i slot ss\<rparr>))"

definition addressable_remove :: "'b addressable \<Rightarrow> u64
    \<Rightarrow> ('b \<times> 'b addressable, mem_error) outcome" where
  "addressable_remove t a = (case search_slot t a of
       Inr i \<Rightarrow> Ok (s_backend (slots t ! i), t\<lparr>slots := vec_remove i (slots t)\<rparr>)
     | Inl _ \<Rightarrow> Err (NotMapped a))"

definition addressable_search :: "('b \<Rightarrow> u64) \<Rightarrow> 'b addressable \<Rightarrow> u64
    \<Rightarrow> (u64 \<times> 'b) option" where
  "addressable_search sz t a = (case search_slot t a of
       Inr i \<Rightarrow> Some (s_addr (slots t ! i), s_backend (slots t ! i))
     | Inl i \<Rightarrow>
         (if i = 0 then None
          else let cand = slots t ! (i - 1)
               in if a \<le> max_addr sz cand then Some (s_addr cand, s_backend cand) else None))"

definition addressable_search_next :: "('b \<Rightarrow> u64) \<Rightarrow> 'b addressable \<Rightarrow> u64
    \<Rightarrow> (u64 \<times> 'b) option" where
  "addressable_search_next sz t a = (case search_slot t a of
       Inr i \<Rightarrow> Some (s_addr (slots t ! i), s_backend (slots t ! i))
     | Inl i \<Rightarrow>
         (if i = 0 then None
          else let cand = slots t ! (i - 1)
               in if a \<le> max_addr sz cand then Some (s_addr cand, s_backend cand)
                  else if i < length (slots t)
                       then Some (s_addr (slots t ! i), s_backend (slots t ! i))
                       else None))"

section \<open>Binary search is correct on increasing keys\<close>

abbreviation increasing :: "u64 list \<Rightarrow> bool" where
  "increasing \<equiv> sorted_wrt (<)"

lemma bsearch_loop_invariant:
  assumes "increasing ks" "base + n \<le> length ks" "0 < n"
    and "base = 0 \<or> ks ! base \<le> k" "\<And>j. base + n \<le> j \<Longrightarrow> j < length ks \<Longrightarrow> k < ks ! j"
  shows "bsearch_loop ks k base n < length ks \<and>
    (bsearch_loop ks k base n = 0 \<or> ks ! bsearch_loop ks k base n \<le> k) \<and>
    (\<forall>j. bsearch_loop ks k base n < j \<longrightarrow> j < length ks \<longrightarrow> k < ks ! j)"
  using assms
proof (induction ks k base n rule: bsearch_loop.induct)
  case (1 ks k base n)
  show ?case
  proof (cases "1 < n")
    case True
    let ?mid = "base + n div 2"
    let ?base = "if k < ks ! ?mid then base else ?mid"
    have mid: "?mid < length ks" using True "1.prems"(2) by simp
    have rest: "k < ks ! j" if "?base + (n - n div 2) \<le> j" "j < length ks" for j
    proof (cases "k < ks ! ?mid")
      case True
      then have "?mid \<le> j" using that by simp
      then have "ks ! ?mid \<le> ks ! j"
        using "1.prems"(1) that(2) by (cases "?mid = j") (auto simp: sorted_wrt_iff_nth_less less_imp_le)
      with True show ?thesis by simp
    next
      case False
      then show ?thesis using that "1.prems"(5)[of j] by simp
    qed
    have b: "?base = 0 \<or> ks ! ?base \<le> k" using "1.prems"(4) by auto
    have len: "?base + (n - n div 2) \<le> length ks" "0 < n - n div 2"
      using "1.prems"(2,3) True by auto
    have eq: "bsearch_loop ks k base n = bsearch_loop ks k ?base (n - n div 2)"
      by (subst bsearch_loop.simps) (simp only: True if_True Let_def)
    show ?thesis
      unfolding eq by (rule "1.IH"[OF True refl refl "1.prems"(1) len b rest])
  next
    case False
    then have "n = 1" using "1.prems"(3) by simp
    moreover have "bsearch_loop ks k base n = base"
      using False by (subst bsearch_loop.simps) simp
    ultimately show ?thesis using "1.prems" by auto
  qed
qed

lemma binary_search_Inr:
  assumes "increasing ks" "binary_search ks k = Inr i"
  shows "i < length ks \<and> ks ! i = k"
  using assms bsearch_loop_invariant[of ks 0 "length ks" k]
  by (auto simp: binary_search_def Let_def split: if_splits)

lemma binary_search_Inl:
  assumes "increasing ks" "binary_search ks k = Inl i"
  shows "i \<le> length ks \<and> (\<forall>j<i. ks ! j < k) \<and> (\<forall>j. i \<le> j \<longrightarrow> j < length ks \<longrightarrow> k < ks ! j)"
proof (cases "ks = []")
  case True
  with assms show ?thesis by (auto simp: binary_search_def)
next
  case False
  define b where "b = bsearch_loop ks k 0 (length ks)"
  have b: "b < length ks" "b = 0 \<or> ks ! b \<le> k" "\<And>j. b < j \<Longrightarrow> j < length ks \<Longrightarrow> k < ks ! j"
    using bsearch_loop_invariant[of ks 0 "length ks" k] assms(1) False by (auto simp: b_def)
  have i: "i = b + (if ks ! b < k then 1 else 0)" and ne: "ks ! b \<noteq> k"
    using assms(2) False by (auto simp: binary_search_def Let_def b_def split: if_splits)
  have low: "ks ! j < ks ! b" if "j < b" for j
    using that b(1) assms(1) by (auto simp: sorted_wrt_iff_nth_less)
  show ?thesis
  proof (cases "ks ! b < k")
    case True
    then show ?thesis using i b low by (auto simp: less_Suc_eq intro: less_trans)
  next
    case False
    then have "b = 0" "k < ks ! b" using b(2) ne by auto
    then show ?thesis using i b False by (auto simp: le_less)
  qed
qed

section \<open>The table invariant\<close>

text \<open>
  Every slot is non-empty and ends inside the address space, and the slots are in increasing
  order without overlap.
\<close>

definition slot_ok :: "('b \<Rightarrow> u64) \<Rightarrow> u64 \<Rightarrow> 'b \<Rightarrow> bool" where
  "slot_ok sz a b \<longleftrightarrow> sz b \<noteq> 0 \<and> unat a + unat (sz b) \<le> 2 ^ 64"

definition addressable_inv :: "('b \<Rightarrow> u64) \<Rightarrow> 'b addressable \<Rightarrow> bool" where
  "addressable_inv sz t \<longleftrightarrow>
     (\<forall>s \<in> set (slots t). slot_ok sz (s_addr s) (s_backend s)) \<and>
     sorted_wrt (\<lambda>s s'. max_addr sz s < s_addr s') (slots t)"

text \<open>The addresses of a slot, and two slots that share an address.\<close>

definition covers :: "('b \<Rightarrow> u64) \<Rightarrow> u64 \<times> 'b \<Rightarrow> u64 \<Rightarrow> bool" where
  "covers sz e x \<longleftrightarrow> unat (fst e) \<le> unat x \<and> unat x < unat (fst e) + unat (sz (snd e))"

definition overlaps :: "('b \<Rightarrow> u64) \<Rightarrow> u64 \<times> 'b \<Rightarrow> u64 \<times> 'b \<Rightarrow> bool" where
  "overlaps sz e f \<longleftrightarrow> (\<exists>x. covers sz e x \<and> covers sz f x)"

lemma unat_max_addr:
  assumes "slot_ok sz (s_addr s) (s_backend s)"
  shows "unat (max_addr sz s) = unat (s_addr s) + unat (sz (s_backend s)) - 1"
proof -
  from assms have pos: "0 < unat (sz (s_backend s))"
    and le: "unat (s_addr s) + unat (sz (s_backend s)) \<le> 2 ^ 64"
    by (auto simp: slot_ok_def unat_gt_0)
  then show ?thesis
    using assms by (simp add: max_addr_def slot_ok_def unat_simps)
qed

lemma s_addr_le_max:
  assumes "slot_ok sz (s_addr s) (s_backend s)"
  shows "s_addr s \<le> max_addr sz s"
  using unat_max_addr[OF assms] assms unat_gt_0[of "sz (s_backend s)"]
  by (simp add: slot_ok_def word_le_nat_alt)

lemma covers_slot_iff:
  assumes "slot_ok sz (s_addr s) (s_backend s)"
  shows "covers sz (s_addr s, s_backend s) x \<longleftrightarrow> s_addr s \<le> x \<and> x \<le> max_addr sz s"
  using unat_max_addr[OF assms] assms unat_gt_0[of "sz (s_backend s)"]
  by (auto simp: covers_def slot_ok_def word_le_nat_alt)

lemma overlaps_slot_iff:
  assumes "slot_ok sz (s_addr s) (s_backend s)" "slot_ok sz (s_addr s') (s_backend s')"
  shows "overlaps sz (s_addr s, s_backend s) (s_addr s', s_backend s') \<longleftrightarrow>
    s_addr s \<le> max_addr sz s' \<and> s_addr s' \<le> max_addr sz s"
proof
  assume "overlaps sz (s_addr s, s_backend s) (s_addr s', s_backend s')"
  then show "s_addr s \<le> max_addr sz s' \<and> s_addr s' \<le> max_addr sz s"
    using assms by (auto simp: overlaps_def covers_slot_iff)
next
  assume *: "s_addr s \<le> max_addr sz s' \<and> s_addr s' \<le> max_addr sz s"
  show "overlaps sz (s_addr s, s_backend s) (s_addr s', s_backend s')"
    unfolding overlaps_def
    using * assms s_addr_le_max[OF assms(1)] s_addr_le_max[OF assms(2)]
    by (intro exI[of _ "max (s_addr s) (s_addr s')"]) (auto simp: covers_slot_iff max_def)
qed

lemma slot_in_iter: "s \<in> set (slots t) \<Longrightarrow> (s_addr s, s_backend s) \<in> set (addressable_iter t)"
  by (auto simp: addressable_iter_def)

lemma iter_slotE:
  assumes "(a, b) \<in> set (addressable_iter t)"
  obtains s where "s \<in> set (slots t)" "s_addr s = a" "s_backend s = b"
  using assms by (auto simp: addressable_iter_def)

lemma inv_slot_ok: "addressable_inv sz t \<Longrightarrow> s \<in> set (slots t) \<Longrightarrow> slot_ok sz (s_addr s) (s_backend s)"
  by (simp add: addressable_inv_def)

lemma inv_iter_ok: "addressable_inv sz t \<Longrightarrow> (a, b) \<in> set (addressable_iter t) \<Longrightarrow> slot_ok sz a b"
  by (auto elim!: iter_slotE dest: inv_slot_ok)

lemma inv_nth_less:
  "addressable_inv sz t \<Longrightarrow> i < j \<Longrightarrow> j < length (slots t) \<Longrightarrow>
   max_addr sz (slots t ! i) < s_addr (slots t ! j)"
  by (auto simp: addressable_inv_def sorted_wrt_iff_nth_less)

lemma inv_increasing:
  assumes "addressable_inv sz t"
  shows "increasing (map s_addr (slots t))"
  unfolding sorted_wrt_iff_nth_less
proof (intro allI impI)
  fix i j assume ij: "i < j" "j < length (map s_addr (slots t))"
  then have "s_addr (slots t ! i) \<le> max_addr sz (slots t ! i)"
    using assms by (intro s_addr_le_max inv_slot_ok) auto
  also have "\<dots> < s_addr (slots t ! j)" using assms ij by (simp add: inv_nth_less)
  finally show "map s_addr (slots t) ! i < map s_addr (slots t) ! j" using ij by simp
qed

lemma search_slot_Inr:
  "addressable_inv sz t \<Longrightarrow> search_slot t a = Inr i \<Longrightarrow>
   i < length (slots t) \<and> s_addr (slots t ! i) = a"
  using binary_search_Inr[OF inv_increasing, of sz t a i] by (auto simp: search_slot_def)

lemma search_slot_Inl:
  assumes "addressable_inv sz t" "search_slot t a = Inl i"
  shows "i \<le> length (slots t)"
    and "\<And>j. j < i \<Longrightarrow> s_addr (slots t ! j) < a"
    and "\<And>j. i \<le> j \<Longrightarrow> j < length (slots t) \<Longrightarrow> a < s_addr (slots t ! j)"
  using binary_search_Inl[OF inv_increasing, of sz t a i] assms by (auto simp: search_slot_def)

lemma addressable_inv_new [simp]: "addressable_inv sz addressable_new"
  by (simp add: addressable_inv_def addressable_new_def)

lemma addressable_iter_new [simp]: "addressable_iter addressable_new = []"
  by (simp add: addressable_iter_def addressable_new_def)

section \<open>Lookups\<close>

lemma covers_unique:
  assumes inv: "addressable_inv sz t"
    and "e \<in> set (addressable_iter t)" "covers sz e x"
    and "f \<in> set (addressable_iter t)" "covers sz f x"
  shows "e = f"
proof -
  obtain i where i: "i < length (slots t)" "e = (s_addr (slots t ! i), s_backend (slots t ! i))"
    using assms(2) by (auto simp: addressable_iter_def in_set_conv_nth)
  obtain j where j: "j < length (slots t)" "f = (s_addr (slots t ! j), s_backend (slots t ! j))"
    using assms(4) by (auto simp: addressable_iter_def in_set_conv_nth)
  have ci: "s_addr (slots t ! i) \<le> x" "x \<le> max_addr sz (slots t ! i)"
    using assms(3) i inv_slot_ok[OF inv] by (auto simp: covers_slot_iff)
  have cj: "s_addr (slots t ! j) \<le> x" "x \<le> max_addr sz (slots t ! j)"
    using assms(5) j inv_slot_ok[OF inv] by (auto simp: covers_slot_iff)
  have "\<not> i < j" using inv_nth_less[OF inv, of i j] j ci(2) cj(1) by auto
  moreover have "\<not> j < i" using inv_nth_less[OF inv, of j i] i ci(1) cj(2) by auto
  ultimately show ?thesis using i j by simp
qed

lemma search_sound:
  assumes inv: "addressable_inv sz t" and s: "addressable_search sz t x = Some e"
  shows "e \<in> set (addressable_iter t) \<and> covers sz e x"
proof (cases "search_slot t x")
  case (Inr i)
  from search_slot_Inr[OF inv Inr] have i: "i < length (slots t)" "s_addr (slots t ! i) = x"
    by auto
  then show ?thesis
    using s Inr inv_slot_ok[OF inv nth_mem] s_addr_le_max[OF inv_slot_ok[OF inv nth_mem]]
    by (auto simp: addressable_search_def slot_in_iter covers_slot_iff)
next
  case (Inl i)
  with s have pos: "i \<noteq> 0" and max: "x \<le> max_addr sz (slots t ! (i - 1))"
    and e: "e = (s_addr (slots t ! (i - 1)), s_backend (slots t ! (i - 1)))"
    by (auto simp: addressable_search_def Let_def split: if_splits)
  have len: "i - 1 < length (slots t)" using search_slot_Inl(1)[OF inv Inl] pos by simp
  have "s_addr (slots t ! (i - 1)) \<le> x"
    using search_slot_Inl(2)[OF inv Inl, of "i - 1"] pos by simp
  then show ?thesis
    using e max len inv_slot_ok[OF inv nth_mem[OF len]] by (auto simp: slot_in_iter covers_slot_iff)
qed

lemma search_complete:
  assumes inv: "addressable_inv sz t" and e: "e \<in> set (addressable_iter t)" "covers sz e x"
  shows "addressable_search sz t x = Some e"
proof -
  obtain j where j: "j < length (slots t)" "e = (s_addr (slots t ! j), s_backend (slots t ! j))"
    using e(1) by (auto simp: addressable_iter_def in_set_conv_nth)
  have cj: "s_addr (slots t ! j) \<le> x" "x \<le> max_addr sz (slots t ! j)"
    using e(2) j inv_slot_ok[OF inv] by (auto simp: covers_slot_iff)
  have "\<exists>f. addressable_search sz t x = Some f"
  proof (cases "search_slot t x")
    case (Inr i)
    then show ?thesis by (simp add: addressable_search_def)
  next
    case (Inl i)
    have ji: "j < i" using search_slot_Inl(3)[OF inv Inl, of j] j cj by (meson not_le)
    have "max_addr sz (slots t ! j) \<le> max_addr sz (slots t ! (i - 1))"
    proof (cases "j = i - 1")
      case False
      then have less: "j < i - 1" "i - 1 < length (slots t)"
        using ji search_slot_Inl(1)[OF inv Inl] by auto
      then have "max_addr sz (slots t ! j) < s_addr (slots t ! (i - 1))"
        using inv_nth_less[OF inv] by blast
      also have "\<dots> \<le> max_addr sz (slots t ! (i - 1))"
        using less by (intro s_addr_le_max inv_slot_ok[OF inv] nth_mem)
      finally show ?thesis by simp
    qed simp
    with cj ji Inl show ?thesis by (auto simp: addressable_search_def Let_def)
  qed
  then obtain f where f: "addressable_search sz t x = Some f" ..
  with covers_unique[OF inv _ _ e, of f] search_sound[OF inv f] show ?thesis by auto
qed

lemma search_iff:
  "addressable_inv sz t \<Longrightarrow>
   addressable_search sz t x = Some e \<longleftrightarrow> e \<in> set (addressable_iter t) \<and> covers sz e x"
  using search_sound search_complete by blast

lemma search_None_iff:
  "addressable_inv sz t \<Longrightarrow>
   addressable_search sz t x = None \<longleftrightarrow> (\<forall>e \<in> set (addressable_iter t). \<not> covers sz e x)"
  by (metis option.exhaust option.distinct(1) search_iff)

section \<open>Insertion and removal\<close>

lemma slot_new_Ok_iff:
  "slot_new sz a b = Ok s \<longleftrightarrow> slot_ok sz a b \<and> s = \<lparr>s_addr = a, s_backend = b\<rparr>"
  using unat_gt_0[of "sz b"]
  by (cases "sz b = 0") (auto simp: slot_new_def slot_ok_def checked_add_def unat_minus_1
      split: option.splits if_splits)

lemma slot_new_Err_iff:
  "slot_new sz a b = Err e \<longleftrightarrow>
     sz b = 0 \<and> e = ZeroSizedSlot \<or>
     sz b \<noteq> 0 \<and> 2 ^ 64 < unat a + unat (sz b) \<and> e = ExceedsLimit a (sz b)"
  using unat_gt_0[of "sz b"]
  by (cases "sz b = 0") (auto simp: slot_new_def checked_add_def unat_minus_1
      split: option.splits if_splits)

lemma slot_new_no_Panic: "slot_new sz a b \<noteq> Panic"
  by (auto simp: slot_new_def split: option.splits)

lemma set_take_drop: "set (take i xs) \<union> set (drop i xs) = set xs"
  by (metis append_take_drop_id set_append)

lemma set_vec_insert [simp]: "set (vec_insert i x xs) = insert x (set xs)"
  using set_take_drop[of i xs] by (auto simp: vec_insert_def)

lemma vec_remove_insert: "i \<le> length xs \<Longrightarrow> vec_remove i (vec_insert i x xs) = xs"
  by (simp add: vec_remove_def vec_insert_def)

lemma vec_insert_remove: "i < length xs \<Longrightarrow> vec_insert i (xs ! i) (vec_remove i xs) = xs"
  by (simp add: vec_remove_def vec_insert_def id_take_nth_drop[symmetric])

lemma sorted_wrt_vec_insert:
  assumes "sorted_wrt P xs" "i \<le> length xs"
    and "\<And>j. j < i \<Longrightarrow> P (xs ! j) x" "\<And>j. i \<le> j \<Longrightarrow> j < length xs \<Longrightarrow> P x (xs ! j)"
  shows "sorted_wrt P (vec_insert i x xs)"
proof -
  have "sorted_wrt P (take i xs @ drop i xs)" using assms(1) by simp
  then have parts: "sorted_wrt P (take i xs)" "sorted_wrt P (drop i xs)"
    "\<forall>y\<in>set (take i xs). \<forall>z\<in>set (drop i xs). P y z"
    by (auto simp only: sorted_wrt_append)
  have "\<forall>y\<in>set (take i xs). P y x"
    using assms(2,3) by (auto simp: in_set_conv_nth)
  moreover have "\<forall>z\<in>set (drop i xs). P x z"
    using assms(2,4) by (auto simp: in_set_conv_nth)
  ultimately show ?thesis using parts by (auto simp: vec_insert_def sorted_wrt_append)
qed

lemma sorted_wrt_vec_remove: "sorted_wrt P xs \<Longrightarrow> sorted_wrt P (vec_remove i xs)"
proof -
  assume sorted: "sorted_wrt P xs"
  have drop: "drop (Suc i) xs = tl (drop i xs)" by (simp add: drop_Suc tl_drop)
  have "sorted_wrt P (take i xs @ drop i xs)" using sorted by simp
  then have "sorted_wrt P (take i xs)" "sorted_wrt P (drop i xs)"
    "\<forall>y\<in>set (take i xs). \<forall>z\<in>set (drop i xs). P y z"
    by (auto simp only: sorted_wrt_append)
  then show ?thesis
    by (cases "drop i xs") (auto simp: vec_remove_def drop sorted_wrt_append)
qed

lemma in_set_vec_removeD: "x \<in> set (vec_remove i xs) \<Longrightarrow> x \<in> set xs"
  by (auto simp: vec_remove_def dest: in_set_takeD in_set_dropD)

text \<open>What a successful insertion stores, and where.\<close>

lemma add_OkE:
  assumes inv: "addressable_inv sz t" and ok: "addressable_add sz t a b = Ok t'"
  obtains i where "i \<le> length (slots t)" "slot_ok sz a b"
    "slots t' = vec_insert i \<lparr>s_addr = a, s_backend = b\<rparr> (slots t)"
    "\<And>j. j < i \<Longrightarrow> max_addr sz (slots t ! j) < a"
    "\<And>j. i \<le> j \<Longrightarrow> j < length (slots t) \<Longrightarrow>
        max_addr sz \<lparr>s_addr = a, s_backend = b\<rparr> < s_addr (slots t ! j)"
proof -
  let ?s = "\<lparr>s_addr = a, s_backend = b\<rparr>"
  from ok have sok: "slot_ok sz a b"
    by (auto simp: addressable_add_def obind_Ok_iff slot_new_Ok_iff)
  then have new: "slot_new sz a b = Ok ?s" by (simp add: slot_new_Ok_iff)
  with ok obtain i where i: "search_slot t a = Inl i"
    and n1: "\<not> (i < length (slots t) \<and> s_addr (slots t ! i) \<le> max_addr sz ?s)"
    and n2: "\<not> (0 < i \<and> a \<le> max_addr sz (slots t ! (i - 1)))"
    and t': "t' = t\<lparr>slots := vec_insert i ?s (slots t)\<rparr>"
    by (auto simp: addressable_add_def Let_def split: sum.splits if_splits)
  have len: "i \<le> length (slots t)" by (rule search_slot_Inl(1)[OF inv i])
  have below: "max_addr sz (slots t ! j) < a" if "j < i" for j
  proof (cases "j = i - 1")
    case True
    then show ?thesis using n2 that by auto
  next
    case False
    then have "max_addr sz (slots t ! j) < s_addr (slots t ! (i - 1))"
      using inv_nth_less[OF inv, of j "i - 1"] that len by simp
    also have "\<dots> < a" using search_slot_Inl(2)[OF inv i, of "i - 1"] that by simp
    finally show ?thesis .
  qed
  have above: "max_addr sz ?s < s_addr (slots t ! j)" if "i \<le> j" "j < length (slots t)" for j
  proof -
    have 1: "max_addr sz ?s < s_addr (slots t ! i)" using n1 that by auto
    show ?thesis
    proof (cases "i = j")
      case False
      then have "max_addr sz (slots t ! i) < s_addr (slots t ! j)"
        using inv_nth_less[OF inv, of i j] that by simp
      with 1 s_addr_le_max[OF inv_slot_ok[OF inv nth_mem, of i]] that show ?thesis
        by (meson less_trans not_le order.strict_trans1)
    qed (use 1 in simp)
  qed
  show thesis using that[OF len sok _ below above] t' by simp
qed

lemma add_inv:
  assumes inv: "addressable_inv sz t" and ok: "addressable_add sz t a b = Ok t'"
  shows "addressable_inv sz t'"
  using inv by - (rule add_OkE[OF inv ok],
    auto simp: addressable_inv_def intro!: sorted_wrt_vec_insert)

lemma add_iter:
  assumes inv: "addressable_inv sz t" and ok: "addressable_add sz t a b = Ok t'"
  shows "set (addressable_iter t') = insert (a, b) (set (addressable_iter t))"
  by (rule add_OkE[OF inv ok]) (auto simp: addressable_iter_def)

lemma add_Ok_iff:
  assumes inv: "addressable_inv sz t"
  shows "(\<exists>t'. addressable_add sz t a b = Ok t') \<longleftrightarrow>
    slot_ok sz a b \<and> (\<forall>e \<in> set (addressable_iter t). \<not> overlaps sz (a, b) e)"
    (is "?L \<longleftrightarrow> ?R")
proof
  let ?s = "\<lparr>s_addr = a, s_backend = b\<rparr>"
  assume ?L
  then obtain t' where ok: "addressable_add sz t a b = Ok t'" ..
  show ?R
  proof (rule add_OkE[OF inv ok], intro conjI ballI)
    fix i e assume sok: "slot_ok sz a b" and e: "e \<in> set (addressable_iter t)"
      and below: "\<And>j. j < i \<Longrightarrow> max_addr sz (slots t ! j) < a"
      and above: "\<And>j. i \<le> j \<Longrightarrow> j < length (slots t) \<Longrightarrow> max_addr sz ?s < s_addr (slots t ! j)"
    obtain j where j: "j < length (slots t)" "e = (s_addr (slots t ! j), s_backend (slots t ! j))"
      using e by (auto simp: addressable_iter_def in_set_conv_nth)
    have "\<not> (a \<le> max_addr sz (slots t ! j) \<and> s_addr (slots t ! j) \<le> max_addr sz ?s)"
      using below[of j] above[of j] j(1) by (cases "j < i") auto
    then show "\<not> overlaps sz (a, b) e"
      using overlaps_slot_iff[of sz ?s "slots t ! j"] sok j inv_slot_ok[OF inv nth_mem[OF j(1)]]
      by simp
  qed
next
  let ?s = "\<lparr>s_addr = a, s_backend = b\<rparr>"
  assume R: ?R
  then have new: "slot_new sz a b = Ok ?s" by (simp add: slot_new_Ok_iff)
  have no: "\<not> (a \<le> max_addr sz (slots t ! j) \<and> s_addr (slots t ! j) \<le> max_addr sz ?s)"
    if "j < length (slots t)" for j
    using R that overlaps_slot_iff[of sz ?s "slots t ! j"] inv_slot_ok[OF inv nth_mem[OF that]]
      slot_in_iter[OF nth_mem[OF that]] by auto
  show ?L
  proof (cases "search_slot t a")
    case (Inr i)
    then have i: "i < length (slots t)" "s_addr (slots t ! i) = a"
      using search_slot_Inr[OF inv] by auto
    then have "a \<le> max_addr sz (slots t ! i)" "a \<le> max_addr sz ?s"
      using s_addr_le_max[OF inv_slot_ok[OF inv nth_mem]] s_addr_le_max[of sz ?s] R by auto
    with no[of i] i show ?thesis by simp
  next
    case (Inl i)
    have "a \<le> max_addr sz (slots t ! i)" if "i < length (slots t)"
      using search_slot_Inl(3)[OF inv Inl, of i] that
        s_addr_le_max[OF inv_slot_ok[OF inv nth_mem, of i]] by simp
    then have "\<not> (i < length (slots t) \<and> s_addr (slots t ! i) \<le> max_addr sz ?s)"
      using no[of i] by blast
    moreover have "s_addr (slots t ! (i - 1)) \<le> max_addr sz ?s" if "0 < i"
      using search_slot_Inl(2)[OF inv Inl, of "i - 1"] that s_addr_le_max[of sz ?s] R by simp
    then have "\<not> (0 < i \<and> a \<le> max_addr sz (slots t ! (i - 1)))"
      using no[of "i - 1"] search_slot_Inl(1)[OF inv Inl]
      by (metis One_nat_def Suc_pred less_eq_Suc_le)
    ultimately show ?thesis
      using new Inl by (auto simp: addressable_add_def Let_def)
  qed
qed

lemma add_Err_cases:
  assumes inv: "addressable_inv sz t" and err: "addressable_add sz t a b = Err e"
  shows "sz b = 0 \<and> e = ZeroSizedSlot \<or>
    sz b \<noteq> 0 \<and> 2 ^ 64 < unat a + unat (sz b) \<and> e = ExceedsLimit a (sz b) \<or>
    slot_ok sz a b \<and> (\<exists>c d. (c, d) \<in> set (addressable_iter t) \<and> overlaps sz (a, b) (c, d) \<and>
       e = Overlap (a, (sz b - 1) + a) (c, (sz d - 1) + c))"
proof (cases "slot_new sz a b")
  case (Ok s)
  then have sok: "slot_ok sz a b" and s: "s = \<lparr>s_addr = a, s_backend = b\<rparr>"
    by (auto simp: slot_new_Ok_iff)
  have "\<exists>j < length (slots t). e = Overlap (a, max_addr sz s)
      (s_addr (slots t ! j), max_addr sz (slots t ! j)) \<and>
      a \<le> max_addr sz (slots t ! j) \<and> s_addr (slots t ! j) \<le> max_addr sz s"
  proof (cases "search_slot t a")
    case (Inr i)
    then have i: "i < length (slots t)" "s_addr (slots t ! i) = a"
      using search_slot_Inr[OF inv] by auto
    then show ?thesis
      using err Ok Inr s s_addr_le_max[OF inv_slot_ok[OF inv nth_mem[OF i(1)]]]
        s_addr_le_max[of sz s] sok
      by (intro exI[of _ i]) (auto simp: addressable_add_def Let_def)
  next
    case (Inl i)
    then show ?thesis
    proof (cases "i < length (slots t) \<and> s_addr (slots t ! i) \<le> max_addr sz s")
      case True
      then show ?thesis
        using err Ok Inl s search_slot_Inl(3)[OF inv Inl, of i]
          s_addr_le_max[OF inv_slot_ok[OF inv nth_mem, of i]]
        by (intro exI[of _ i]) (auto simp: addressable_add_def Let_def)
    next
      case False
      then have *: "0 < i \<and> a \<le> max_addr sz (slots t ! (i - 1))"
        using err Ok Inl s by (auto simp: addressable_add_def Let_def split: if_splits)
      then have "s_addr (slots t ! (i - 1)) \<le> max_addr sz s"
        using search_slot_Inl(2)[OF inv Inl, of "i - 1"] s_addr_le_max[of sz s] s sok by auto
      then show ?thesis
        using * False err Ok Inl s search_slot_Inl(1)[OF inv Inl]
        by (intro exI[of _ "i - 1"]) (auto simp: addressable_add_def Let_def)
    qed
  qed
  then obtain j where j: "j < length (slots t)"
    and e: "e = Overlap (a, max_addr sz s) (s_addr (slots t ! j), max_addr sz (slots t ! j))"
    and o: "a \<le> max_addr sz (slots t ! j)" "s_addr (slots t ! j) \<le> max_addr sz s"
    by blast
  have "overlaps sz (a, b) (s_addr (slots t ! j), s_backend (slots t ! j))"
    using overlaps_slot_iff[of sz s "slots t ! j"] o s sok inv_slot_ok[OF inv nth_mem[OF j]] by simp
  then show ?thesis using sok e s slot_in_iter[OF nth_mem[OF j]] by (auto simp: max_addr_def)
next
  case (Err e')
  then have "e' = e" using err by (simp add: addressable_add_def)
  then show ?thesis using Err by (auto simp: slot_new_Err_iff)
next
  case Panic
  then show ?thesis using slot_new_no_Panic by metis
qed

lemma add_no_Panic: "addressable_add sz t a b \<noteq> Panic"
  using slot_new_no_Panic[of sz a b]
  by (auto simp: addressable_add_def Let_def obind_def split: outcome.splits sum.splits)

lemma remove_Ok_iff:
  assumes inv: "addressable_inv sz t"
  shows "(\<exists>t'. addressable_remove t a = Ok (b, t')) \<longleftrightarrow> (a, b) \<in> set (addressable_iter t)"
proof (cases "search_slot t a")
  case (Inr i)
  then have i: "i < length (slots t)" "s_addr (slots t ! i) = a"
    using search_slot_Inr[OF inv] by auto
  have "b = s_backend (slots t ! i)" if "(a, b) \<in> set (addressable_iter t)"
  proof -
    have "covers sz (a, b) a" "covers sz (a, s_backend (slots t ! i)) a"
      using inv_iter_ok[OF inv that] inv_slot_ok[OF inv nth_mem[OF i(1)]] i
      by (auto simp: covers_def slot_ok_def unat_gt_0)
    with covers_unique[OF inv that _ slot_in_iter[OF nth_mem[OF i(1)]]] i show ?thesis by auto
  qed
  then show ?thesis
    using Inr i slot_in_iter[OF nth_mem[OF i(1)]] by (auto simp: addressable_remove_def)
next
  case (Inl i)
  have "s_addr s \<noteq> a" if "s \<in> set (slots t)" for s
  proof -
    from that obtain j where "j < length (slots t)" "s = slots t ! j" by (auto simp: in_set_conv_nth)
    then show ?thesis
      using search_slot_Inl[OF inv Inl] by (metis less_irrefl not_le)
  qed
  then show ?thesis using Inl by (auto simp: addressable_remove_def elim!: iter_slotE)
qed

lemma remove_Err_iff:
  assumes inv: "addressable_inv sz t"
  shows "addressable_remove t a = Err e \<longleftrightarrow>
    e = NotMapped a \<and> (\<forall>b. (a, b) \<notin> set (addressable_iter t))"
  using remove_Ok_iff[OF inv, of a]
  by (cases "search_slot t a") (auto simp: addressable_remove_def)

lemma remove_no_Panic: "addressable_remove t a \<noteq> Panic"
  by (auto simp: addressable_remove_def split: sum.splits)

lemma remove_inv:
  assumes inv: "addressable_inv sz t" and ok: "addressable_remove t a = Ok (b, t')"
  shows "addressable_inv sz t'"
proof -
  from ok obtain i where "slots t' = vec_remove i (slots t)"
    by (cases "search_slot t a") (auto simp: addressable_remove_def)
  with inv show ?thesis
    unfolding addressable_inv_def by (metis in_set_vec_removeD sorted_wrt_vec_remove)
qed

text \<open>A table is determined by the set of its slots.\<close>

lemma iter_key_unique:
  assumes inv: "addressable_inv sz t"
    and "(a, b) \<in> set (addressable_iter t)" "(a, c) \<in> set (addressable_iter t)"
  shows "b = c"
proof -
  have "covers sz (a, b) a" "covers sz (a, c) a"
    using assms(2,3)[THEN inv_iter_ok[OF inv]] by (auto simp: covers_def slot_ok_def unat_gt_0)
  with covers_unique[OF inv assms(2) _ assms(3)] show ?thesis by blast
qed

lemma table_ext:
  fixes t u :: "'b addressable"
  assumes t: "addressable_inv sz t" and u: "addressable_inv sz u"
    and eq: "set (addressable_iter t) = set (addressable_iter u)"
  shows "t = u"
proof -
  have keys: "map s_addr (slots t) = map s_addr (slots u)"
    using arg_cong[OF eq, of "image fst"] inv_increasing[OF t] inv_increasing[OF u]
    by (intro strict_sorted_equal) (auto simp: addressable_iter_def image_image)
  have len: "length (slots t) = length (slots u)" using arg_cong[OF keys, of length] by simp
  have "slots t = slots u"
  proof (rule nth_equalityI[OF len])
    fix i assume i: "i < length (slots t)"
    have key: "s_addr (slots t ! i) = s_addr (slots u ! i)"
      using arg_cong[OF keys, of "\<lambda>ks. ks ! i"] i len by simp
    have "(s_addr (slots t ! i), s_backend (slots t ! i)) \<in> set (addressable_iter t)"
      using i by (simp add: slot_in_iter)
    moreover have "(s_addr (slots t ! i), s_backend (slots u ! i)) \<in> set (addressable_iter t)"
      using i len key eq slot_in_iter[of "slots u ! i" u] by simp
    ultimately have "s_backend (slots t ! i) = s_backend (slots u ! i)"
      by (rule iter_key_unique[OF t])
    with key show "slots t ! i = slots u ! i" by simp
  qed
  then show ?thesis by simp
qed

lemma remove_iter:
  assumes inv: "addressable_inv sz t" and ok: "addressable_remove t a = Ok (b, t')"
  shows "set (addressable_iter t') = set (addressable_iter t) - {(a, b)}"
proof -
  from ok obtain i where i: "search_slot t a = Inr i"
    and t': "slots t' = vec_remove i (slots t)" and b: "b = s_backend (slots t ! i)"
    by (cases "search_slot t a") (auto simp: addressable_remove_def)
  from search_slot_Inr[OF inv i] have len: "i < length (slots t)" and a: "s_addr (slots t ! i) = a"
    by auto
  have "distinct (map s_addr (slots t))"
    using inv_increasing[OF inv] by (simp add: strict_sorted_iff)
  moreover have slots: "slots t = take i (slots t) @ slots t ! i # drop (Suc i) (slots t)"
    by (rule id_take_nth_drop[OF len])
  ultimately have "distinct (map s_addr (take i (slots t) @ slots t ! i # drop (Suc i) (slots t)))"
    by simp
  then have fresh: "s_addr s \<noteq> a" if "s \<in> set (slots t')" for s
    using that t' a by (auto simp: vec_remove_def) (metis imageI)+
  have "set (slots t) = insert (slots t ! i) (set (slots t'))"
    using arg_cong[OF slots, of set] by (auto simp: t' vec_remove_def)
  then have "set (addressable_iter t) = insert (a, b) (set (addressable_iter t'))"
    using a b by (auto simp: addressable_iter_def)
  moreover have "(a, b) \<notin> set (addressable_iter t')"
    using fresh by (auto simp: addressable_iter_def)
  ultimately show ?thesis by auto
qed

lemma remove_after_add:
  assumes inv: "addressable_inv sz t" and ok: "addressable_add sz t a b = Ok t'"
  shows "addressable_remove t' a = Ok (b, t)"
proof -
  have inv': "addressable_inv sz t'" by (rule add_inv[OF inv ok])
  obtain u where u: "addressable_remove t' a = Ok (b, u)"
    using remove_Ok_iff[OF inv', of a b] add_iter[OF inv ok] by auto
  have "(a, b) \<notin> set (addressable_iter t)"
  proof
    assume *: "(a, b) \<in> set (addressable_iter t)"
    then have "slot_ok sz a b" by (rule inv_iter_ok[OF inv])
    then have "overlaps sz (a, b) (a, b)"
      by (auto simp: overlaps_def covers_def slot_ok_def unat_gt_0)
    with * add_Ok_iff[OF inv, of a b] ok show False by auto
  qed
  then have "set (addressable_iter u) = set (addressable_iter t)"
    using remove_iter[OF inv' u] add_iter[OF inv ok] by auto
  with table_ext[OF remove_inv[OF inv' u] inv] u show ?thesis by simp
qed

lemma add_after_remove:
  assumes inv: "addressable_inv sz t" and ok: "addressable_remove t a = Ok (b, t')"
  shows "addressable_add sz t' a b = Ok t"
proof -
  have inv': "addressable_inv sz t'" by (rule remove_inv[OF inv ok])
  have mem: "(a, b) \<in> set (addressable_iter t)" using remove_Ok_iff[OF inv] ok by blast
  have "\<not> overlaps sz (a, b) e" if "e \<in> set (addressable_iter t')" for e
    using that remove_iter[OF inv ok] covers_unique[OF inv mem] unfolding overlaps_def
    by (metis DiffE insertI1)
  then obtain u where u: "addressable_add sz t' a b = Ok u"
    using add_Ok_iff[OF inv'] inv_iter_ok[OF inv mem] by blast
  have "set (addressable_iter u) = set (addressable_iter t)"
    using add_iter[OF inv' u] remove_iter[OF inv ok] mem by auto
  with table_ext[OF add_inv[OF inv' u] inv] u show ?thesis by simp
qed

section \<open>The interface the buses rely on\<close>

locale address_map =
  fixes sz :: "'b \<Rightarrow> u64"
    and inv :: "'m \<Rightarrow> bool"
    and entries :: "'m \<Rightarrow> (u64 \<times> 'b) set"
    and empty :: "'m"
    and add :: "'m \<Rightarrow> u64 \<Rightarrow> 'b \<Rightarrow> ('m, mem_error) outcome"
    and remove :: "'m \<Rightarrow> u64 \<Rightarrow> ('b \<times> 'm, mem_error) outcome"
    and search :: "'m \<Rightarrow> u64 \<Rightarrow> (u64 \<times> 'b) option"
  assumes empty_inv: "inv empty"
    and empty_entries: "entries empty = {}"
    and entry_ok: "inv m \<Longrightarrow> (a, b) \<in> entries m \<Longrightarrow> slot_ok sz a b"
    and entries_unique: "inv m \<Longrightarrow> e \<in> entries m \<Longrightarrow> covers sz e x \<Longrightarrow> f \<in> entries m \<Longrightarrow>
      covers sz f x \<Longrightarrow> e = f"
    and search_entries: "inv m \<Longrightarrow> search m x = Some e \<longleftrightarrow> e \<in> entries m \<and> covers sz e x"
    and add_accepts: "inv m \<Longrightarrow>
      (\<exists>m'. add m a b = Ok m') \<longleftrightarrow> slot_ok sz a b \<and> (\<forall>e \<in> entries m. \<not> overlaps sz (a, b) e)"
    and add_entries: "inv m \<Longrightarrow> add m a b = Ok m' \<Longrightarrow> entries m' = insert (a, b) (entries m)"
    and add_keeps: "inv m \<Longrightarrow> add m a b = Ok m' \<Longrightarrow> inv m'"
    and remove_accepts: "inv m \<Longrightarrow> (\<exists>m'. remove m a = Ok (b, m')) \<longleftrightarrow> (a, b) \<in> entries m"
    and remove_entries: "inv m \<Longrightarrow> remove m a = Ok (b, m') \<Longrightarrow> entries m' = entries m - {(a, b)}"
    and remove_keeps: "inv m \<Longrightarrow> remove m a = Ok (b, m') \<Longrightarrow> inv m'"
begin

lemma search_empty: "search empty x = None"
  using search_entries[OF empty_inv, of x] by (cases "search empty x") (auto simp: empty_entries)

lemma search_after_add:
  assumes "inv m" "add m a b = Ok m'"
  shows "search m' x = (if covers sz (a, b) x then Some (a, b) else search m x)"
proof (cases "covers sz (a, b) x")
  case True
  then show ?thesis
    using search_entries[OF add_keeps[OF assms], of x "(a, b)"] add_entries[OF assms] by simp
next
  case False
  have "search m' x = Some e \<longleftrightarrow> search m x = Some e" for e
    using search_entries[OF add_keeps[OF assms], of x e] search_entries[OF assms(1), of x e]
      add_entries[OF assms] False by auto
  then have "search m' x = search m x" by (metis option.exhaust)
  with False show ?thesis by simp
qed

lemma search_after_remove:
  assumes "inv m" "remove m a = Ok (b, m')"
  shows "search m' x = (if covers sz (a, b) x then None else search m x)"
proof -
  have mem: "(a, b) \<in> entries m" using remove_accepts[OF assms(1)] assms(2) by blast
  have iff: "search m' x = Some e \<longleftrightarrow> search m x = Some e \<and> e \<noteq> (a, b)" for e
    using search_entries[OF remove_keeps[OF assms], of x e] search_entries[OF assms(1), of x e]
      remove_entries[OF assms] by auto
  show ?thesis
  proof (cases "covers sz (a, b) x")
    case True
    then have "search m x = Some (a, b)" using search_entries[OF assms(1)] mem by blast
    with iff True show ?thesis by (metis option.exhaust option.inject)
  next
    case False
    then have "search m x \<noteq> Some (a, b)" using search_entries[OF assms(1)] by blast
    with iff False show ?thesis by (metis option.exhaust)
  qed
qed

lemma add_is_fresh:
  assumes "inv m" "add m a b = Ok m'" "covers sz (a, b) x"
  shows "search m x = None"
proof (rule ccontr)
  assume "search m x \<noteq> None"
  then obtain e where "e \<in> entries m" "covers sz e x"
    using search_entries[OF assms(1)] by auto
  with assms add_accepts[OF assms(1), of a b] show False by (auto simp: overlaps_def)
qed

end

interpretation table: address_map sz "addressable_inv sz" "\<lambda>t. set (addressable_iter t)"
    addressable_new "addressable_add sz" addressable_remove "addressable_search sz"
  for sz :: "'b \<Rightarrow> u64"
  by unfold_locales
    (simp_all add: search_iff remove_Ok_iff add_Ok_iff add_iter remove_iter inv_iter_ok,
      (blast intro: covers_unique add_inv remove_inv)+)

section \<open>Searching for the next slot\<close>

text \<open>
  \<^verbatim>\<open>search_next\<close> returns the first slot that ends at or after the address, provided some slot
  starts at or below it; below the first slot it returns nothing, although a next slot exists.
\<close>

lemma search_next_Inl_0_iff:
  assumes inv: "addressable_inv sz t"
  shows "search_slot t x = Inl 0 \<longleftrightarrow> (\<forall>s \<in> set (slots t). x < s_addr s)"
proof
  assume "search_slot t x = Inl 0"
  then show "\<forall>s \<in> set (slots t). x < s_addr s"
    using search_slot_Inl(3)[OF inv, of x 0] by (auto simp: in_set_conv_nth)
next
  assume all: "\<forall>s \<in> set (slots t). x < s_addr s"
  show "search_slot t x = Inl 0"
  proof (cases "search_slot t x")
    case (Inr i)
    then have "slots t ! i \<in> set (slots t)" "s_addr (slots t ! i) = x"
      using search_slot_Inr[OF inv Inr] by auto
    with all show ?thesis by auto
  next
    case (Inl i)
    have "i = 0"
    proof (rule ccontr)
      assume "i \<noteq> 0"
      then have "s_addr (slots t ! 0) < x" "0 < length (slots t)"
        using search_slot_Inl(1,2)[OF inv Inl] by auto
      then show False using all nth_mem[of 0 "slots t"] by fastforce
    qed
    with Inl show ?thesis by simp
  qed
qed

lemma search_next_Some:
  assumes inv: "addressable_inv sz t" and s: "s \<in> set (slots t)" "s_addr s \<le> x"
  shows "addressable_search_next sz t x =
    map_option (\<lambda>s. (s_addr s, s_backend s)) (find (\<lambda>s. x \<le> max_addr sz s) (slots t))"
proof -
  let ?P = "\<lambda>s. x \<le> max_addr sz s"
  have first: "find ?P (slots t) = Some (slots t ! k)"
    if "k < length (slots t)" "?P (slots t ! k)" "\<And>j. j < k \<Longrightarrow> \<not> ?P (slots t ! j)" for k
    using that by (auto simp: find_Some_iff intro!: exI[of _ k])
  have before: "\<not> ?P (slots t ! j)" if "j < k" "k < length (slots t)" "s_addr (slots t ! k) \<le> x" for j k
    using inv_nth_less[OF inv that(1,2)] that(3) by auto
  show ?thesis
  proof (cases "search_slot t x")
    case (Inr i)
    then have i: "i < length (slots t)" "s_addr (slots t ! i) = x"
      using search_slot_Inr[OF inv] by auto
    then have "?P (slots t ! i)"
      using s_addr_le_max[OF inv_slot_ok[OF inv nth_mem[OF i(1)]]] by simp
    then show ?thesis using Inr i first[of i] before[of _ i] by (simp add: addressable_search_next_def)
  next
    case (Inl i)
    have pos: "0 < i"
      using search_next_Inl_0_iff[OF inv, of x] s Inl by (metis not_gr_zero not_le)
    have len: "i - 1 < length (slots t)" and low: "s_addr (slots t ! (i - 1)) < x"
      using search_slot_Inl(1,2)[OF inv Inl] pos by auto
    show ?thesis
    proof (cases "?P (slots t ! (i - 1))")
      case True
      then show ?thesis
        using Inl pos len low first[of "i - 1"] before[of _ "i - 1"]
        by (simp add: addressable_search_next_def Let_def)
    next
      case False
      have none: "\<not> ?P (slots t ! j)" if "j < i" for j
        using that before[of j "i - 1"] len low False by (cases "j = i - 1") auto
      show ?thesis
      proof (cases "i < length (slots t)")
        case True
        then have "?P (slots t ! i)"
          using search_slot_Inl(3)[OF inv Inl, of i]
            s_addr_le_max[OF inv_slot_ok[OF inv nth_mem[OF True]]] by simp
        then show ?thesis
          using Inl pos False True first[of i] none
          by (simp add: addressable_search_next_def Let_def)
      next
        case not: False
        then have "find ?P (slots t) = None"
          using none search_slot_Inl(1)[OF inv Inl] by (auto simp: find_None_iff in_set_conv_nth)
        then show ?thesis
          using Inl pos False not by (simp add: addressable_search_next_def Let_def)
      qed
    qed
  qed
qed

lemma search_next_covers:
  assumes inv: "addressable_inv sz t" and mem: "(a, b) \<in> set (addressable_iter t)"
    and cov: "covers sz (a, b) x"
  shows "addressable_search_next sz t x = Some (a, b)"
proof -
  obtain k where k: "k < length (slots t)" "s_addr (slots t ! k) = a" "s_backend (slots t ! k) = b"
    using mem by (auto simp: addressable_iter_def in_set_conv_nth)
  then have in_slot: "s_addr (slots t ! k) \<le> x" "x \<le> max_addr sz (slots t ! k)"
    using covers_slot_iff[of sz "slots t ! k" x] inv_slot_ok[OF inv nth_mem[OF k(1)]] cov by auto
  have "\<not> x \<le> max_addr sz (slots t ! j)" if "j < k" for j
    using inv_nth_less[OF inv that k(1)] in_slot(1) by auto
  then have "find (\<lambda>s. x \<le> max_addr sz s) (slots t) = Some (slots t ! k)"
    using k(1) in_slot(2) by (auto simp: find_Some_iff intro!: exI[of _ k])
  then show ?thesis using search_next_Some[OF inv nth_mem[OF k(1)] in_slot(1)] k by simp
qed

section \<open>Properties\<close>

text \<open>
  C21. Inserting a slot that the table accepts keeps the table sorted and free of overlap, and
  changes the lookup exactly on the addresses of the new slot: there it returns the new slot
  with its start address, everywhere else what it returned before (and nothing was mapped at
  the new addresses before).
\<close>

theorem addressable_add_lookup:
  assumes "addressable_inv sz t" and "addressable_add sz t a b = Ok t'"
  shows "addressable_inv sz t' \<and>
    addressable_search sz t' x =
      (if covers sz (a, b) x then Some (a, b) else addressable_search sz t x) \<and>
    (covers sz (a, b) x \<longrightarrow> addressable_search sz t x = None)"
  using table.add_keeps[OF assms] table.search_after_add[OF assms] table.add_is_fresh[OF assms]
  by simp

definition two_slots :: "u64 addressable" where
  "two_slots = \<lparr>slots = [\<lparr>s_addr = 0x1000, s_backend = 0x1000\<rparr>,
                         \<lparr>s_addr = 0x5000, s_backend = 0x1000\<rparr>]\<rparr>"

definition three_slots :: "u64 addressable" where
  "three_slots = \<lparr>slots = [\<lparr>s_addr = 0x1000, s_backend = 0x1000\<rparr>,
     \<lparr>s_addr = 0x2000, s_backend = 0x2000\<rparr>, \<lparr>s_addr = 0x5000, s_backend = 0x1000\<rparr>]\<rparr>"

lemmas table_eval = addressable_add_def addressable_remove_def addressable_search_def
  addressable_search_next_def search_slot_def binary_search_def bsearch_loop.simps slot_new_def
  checked_add_def max_addr_def vec_insert_def vec_remove_def addressable_inv_def slot_ok_def
  covers_def

lemma two_slots_inv: "addressable_inv id two_slots"
  by (simp add: table_eval two_slots_def)

lemma two_slots_add: "addressable_add id two_slots 0x2000 0x2000 = Ok three_slots"
  by (simp add: table_eval two_slots_def three_slots_def)

theorem addressable_add_lookup_witness:
  "addressable_search id three_slots 0x3fff = Some (0x2000, 0x2000) \<and>
   addressable_search id two_slots 0x3fff = None"
  using addressable_add_lookup[OF two_slots_inv two_slots_add, of "0x3fff"]
  by (simp add: covers_def)



text \<open>
  Insertion and removal undo each other exactly: removing the slot just inserted gives
  back its backend and the table of before, and inserting the slot just removed is accepted
  and gives back the table of before.
\<close>

lemma addressable_add_remove_inverse:
  assumes "addressable_inv sz t"
  shows "(addressable_add sz t a b = Ok t' \<longrightarrow> addressable_remove t' a = Ok (b, t)) \<and>
    (addressable_remove t a = Ok (b, t') \<longrightarrow>
       addressable_inv sz t' \<and> addressable_add sz t' a b = Ok t)"
  using remove_after_add[OF assms] add_after_remove[OF assms] remove_inv[OF assms] by blast

text \<open>
  \<^verbatim>\<open>search_next\<close> returns the first slot that ends at or after the address whenever some
  slot starts at or below the address, and nothing when every slot starts above it.
\<close>

lemma addressable_search_next_spec:
  assumes "addressable_inv sz t"
  shows "addressable_search_next sz t x =
    (if \<exists>s \<in> set (slots t). s_addr s \<le> x
     then map_option (\<lambda>s. (s_addr s, s_backend s)) (find (\<lambda>s. x \<le> max_addr sz s) (slots t))
     else None)"
proof (cases "\<exists>s \<in> set (slots t). s_addr s \<le> x")
  case True
  then show ?thesis using search_next_Some[OF assms, of _ x] by auto
next
  case False
  then have "search_slot t x = Inl 0" using search_next_Inl_0_iff[OF assms, of x] by auto
  with False show ?thesis by (simp add: addressable_search_next_def)
qed

end
