(* ===== verification/Mmio_Bus.thy ===== *)
theory Mmio_Bus
  imports Addressable
begin

text \<open>
  \<^verbatim>\<open>alioth/src/mem/emulated.rs\<close>: devices behind the \<^verbatim>\<open>Mmio\<close> trait, the bus that routes an
  access to the device whose slot holds the address, and the read-only register block that
  the macro \<^verbatim>\<open>impl_mmio_for_zerocopy!\<close> builds from the bytes of a structure.

  A trait object is a handle of type \<open>'d\<close>; its methods are the fields of \<open>mmio_ops\<close> and act on
  the world \<open>'w\<close> that holds the state of all devices, since \<^verbatim>\<open>&self\<close> methods change state
  behind locks.
\<close>

section \<open>Devices\<close>

text \<open>\<^verbatim>\<open>Action\<close>: what a register write asks of the virtual machine.\<close>

datatype 'c action = ActNone | ActShutdown | ActReset | ActChangeLayout 'c

record ('d, 'w, 'c) mmio_ops =
  mmio_size :: "'d \<Rightarrow> u64"
  mmio_read :: "'d \<Rightarrow> u64 \<Rightarrow> u8 \<Rightarrow> ('w, u64, mem_error) op"
  mmio_write :: "'d \<Rightarrow> u64 \<Rightarrow> u8 \<Rightarrow> u64 \<Rightarrow> ('w, 'c action, mem_error) op"

text \<open>
  \<^verbatim>\<open>impl_mmio_for_zerocopy!\<close>: reads of size 1, 2, 4 and 8 inside the structure give its
  little-endian value, all others 0; writes are ignored.
\<close>

definition read_from_prefix :: "nat \<Rightarrow> u8 list \<Rightarrow> u64 option" where
  "read_from_prefix n bs = (if n \<le> length bs then Some (le_decode (take n bs)) else None)"

definition bytes_from :: "u8 list \<Rightarrow> nat \<Rightarrow> u8 list option" where
  "bytes_from bs off = (if off \<le> length bs then Some (drop off bs) else None)"

definition zerocopy_read :: "u8 list \<Rightarrow> u64 \<Rightarrow> u8 \<Rightarrow> u64" where
  "zerocopy_read bs offset sz =
     (let off = unat offset;
          val = (if sz = 1 then (if off < length bs then Some (ucast (bs ! off)) else None)
                 else if sz = 2 then Option.bind (bytes_from bs off) (read_from_prefix 2)
                 else if sz = 4 then Option.bind (bytes_from bs off) (read_from_prefix 4)
                 else if sz = 8 then Option.bind (bytes_from bs off) (read_from_prefix 8)
                 else None)
      in case val of Some v \<Rightarrow> v | None \<Rightarrow> 0)"

definition zerocopy_write :: "u64 \<Rightarrow> u8 \<Rightarrow> u64 \<Rightarrow> 'c action" where
  "zerocopy_write offset sz val = ActNone"

section \<open>The bus\<close>

record 'd mmio_bus =
  bus_inner :: "'d addressable"

definition mmio_bus_new :: "'d mmio_bus" where
  "mmio_bus_new = \<lparr>bus_inner = addressable_new\<rparr>"

definition mmio_bus_is_empty :: "'d mmio_bus \<Rightarrow> bool" where
  "mmio_bus_is_empty bus = addressable_is_empty (bus_inner bus)"

definition mmio_bus_add :: "('d, 'w, 'c, 'z) mmio_ops_scheme \<Rightarrow> 'd mmio_bus \<Rightarrow> u64 \<Rightarrow> 'd
    \<Rightarrow> ('d mmio_bus, mem_error) outcome" where
  "mmio_bus_add ops bus a dev =
     obind (addressable_add (mmio_size ops) (bus_inner bus) a dev)
       (\<lambda>t. Ok (bus\<lparr>bus_inner := t\<rparr>))"

definition mmio_bus_remove :: "'d mmio_bus \<Rightarrow> u64 \<Rightarrow> ('d \<times> 'd mmio_bus, mem_error) outcome" where
  "mmio_bus_remove bus a =
     obind (addressable_remove (bus_inner bus) a) (\<lambda>(dev, t). Ok (dev, bus\<lparr>bus_inner := t\<rparr>))"

definition mmio_bus_read :: "('d, 'w, 'c, 'z) mmio_ops_scheme \<Rightarrow> 'd mmio_bus \<Rightarrow> u64 \<Rightarrow> u8
    \<Rightarrow> ('w, u64, mem_error) op" where
  "mmio_bus_read ops bus a sz w =
     (case addressable_search (mmio_size ops) (bus_inner bus) a of
        Some (start, dev) \<Rightarrow> mmio_read ops dev (a - start) sz w
      | None \<Rightarrow> (Ok (- 1), w))"

definition mmio_bus_write :: "('d, 'w, 'c, 'z) mmio_ops_scheme \<Rightarrow> 'd mmio_bus \<Rightarrow> u64 \<Rightarrow> u8 \<Rightarrow> u64
    \<Rightarrow> ('w, 'c action, mem_error) op" where
  "mmio_bus_write ops bus a sz val w =
     (case addressable_search (mmio_size ops) (bus_inner bus) a of
        Some (start, dev) \<Rightarrow> mmio_write ops dev (a - start) sz val w
      | None \<Rightarrow> (Ok ActNone, w))"

section \<open>Routing\<close>

abbreviation bus_inv :: "('d, 'w, 'c, 'z) mmio_ops_scheme \<Rightarrow> 'd mmio_bus \<Rightarrow> bool" where
  "bus_inv ops bus \<equiv> addressable_inv (mmio_size ops) (bus_inner bus)"

abbreviation bus_devices :: "'d mmio_bus \<Rightarrow> (u64 \<times> 'd) set" where
  "bus_devices bus \<equiv> set (addressable_iter (bus_inner bus))"

lemma mmio_bus_add_Ok:
  "mmio_bus_add ops bus a dev = Ok bus' \<longleftrightarrow>
   (\<exists>t. addressable_add (mmio_size ops) (bus_inner bus) a dev = Ok t \<and> bus' = bus\<lparr>bus_inner := t\<rparr>)"
  by (auto simp: mmio_bus_add_def obind_Ok_iff)

lemma mmio_bus_remove_Ok:
  "mmio_bus_remove bus a = Ok (dev, bus') \<longleftrightarrow>
   (\<exists>t. addressable_remove (bus_inner bus) a = Ok (dev, t) \<and> bus' = bus\<lparr>bus_inner := t\<rparr>)"
  by (auto simp: mmio_bus_remove_def obind_Ok_iff)

text \<open>The bus is an address map too, so the laws of the table hold of it.\<close>

interpretation bus: address_map "mmio_size ops" "bus_inv ops" bus_devices mmio_bus_new
    "mmio_bus_add ops" mmio_bus_remove "\<lambda>bus. addressable_search (mmio_size ops) (bus_inner bus)"
  for ops :: "('d, 'w, 'c, 'z) mmio_ops_scheme"
proof unfold_locales
  fix m :: "'d mmio_bus" and a b assume inv: "bus_inv ops m"
  show "(\<exists>m'. mmio_bus_add ops m a b = Ok m') \<longleftrightarrow>
    slot_ok (mmio_size ops) a b \<and> (\<forall>e\<in>bus_devices m. \<not> overlaps (mmio_size ops) (a, b) e)"
    using table.add_accepts[OF inv, of a b] by (auto simp: mmio_bus_add_Ok)
  show "(\<exists>m'. mmio_bus_remove m a = Ok (b, m')) \<longleftrightarrow> (a, b) \<in> bus_devices m"
    using table.remove_accepts[OF inv, of a b] by (auto simp: mmio_bus_remove_Ok)
next
  fix m m' :: "'d mmio_bus" and a b
  assume inv: "bus_inv ops m" and "mmio_bus_add ops m a b = Ok m'"
  then obtain t where t: "addressable_add (mmio_size ops) (bus_inner m) a b = Ok t"
    "m' = m\<lparr>bus_inner := t\<rparr>" by (auto simp: mmio_bus_add_Ok)
  show "bus_devices m' = insert (a, b) (bus_devices m)"
    using table.add_entries[OF inv t(1)] t(2) by simp
  show "bus_inv ops m'" using table.add_keeps[OF inv t(1)] t(2) by simp
next
  fix m m' :: "'d mmio_bus" and a b
  assume inv: "bus_inv ops m" and "mmio_bus_remove m a = Ok (b, m')"
  then obtain t where t: "addressable_remove (bus_inner m) a = Ok (b, t)"
    "m' = m\<lparr>bus_inner := t\<rparr>" by (auto simp: mmio_bus_remove_Ok)
  show "bus_devices m' = bus_devices m - {(a, b)}"
    using table.remove_entries[OF inv t(1)] t(2) by simp
  show "bus_inv ops m'" using table.remove_keeps[OF inv t(1)] t(2) by simp
qed (simp_all add: mmio_bus_new_def table.search_entries,
    (blast intro: table.entry_ok table.entries_unique)+)

lemma covers_offset_less:
  "covers sz (start, b) x \<Longrightarrow> unat (x - start) < unat (sz b)"
  by (auto simp: covers_def word_le_nat_alt unat_minus_le)

lemma zerocopy_read_in_range:
  assumes "unat n \<in> {1, 2, 4, 8}" "unat off + unat n \<le> length bs"
  shows "zerocopy_read bs off n = le_decode (take (unat n) (drop (unat off) bs))"
proof -
  consider "n = 1" | "n = 2" | "n = 4" | "n = 8"
  proof -
    have "n = of_nat (unat n)" by simp
    then show thesis using assms(1) that by (elim insertE emptyE) (metis of_nat_numeral of_nat_1)+
  qed
  then show ?thesis
  proof cases
    case 1
    then have "unat off < length bs" using assms(2) by simp
    then have "take 1 (drop (unat off) bs) = [bs ! unat off]"
      by (simp add: take_Suc_conv_app_nth)
    with 1 \<open>unat off < length bs\<close> show ?thesis by (simp add: zerocopy_read_def Let_def)
  qed (use assms(2) in \<open>auto simp: zerocopy_read_def Let_def bytes_from_def read_from_prefix_def\<close>)
qed

section \<open>Properties\<close>

text \<open>
  The bus hands an access to exactly the device whose slot holds the address, with the
  offset from the start of its slot, which lies inside the device; an address no device holds
  reads as all ones and ignores writes, and neither touches any device.
\<close>

lemma mmio_bus_routing:
  assumes "bus_inv ops bus"
  shows "(\<forall>start dev. (start, dev) \<in> bus_devices bus \<and> covers (mmio_size ops) (start, dev) a \<longrightarrow>
      unat (a - start) < unat (mmio_size ops dev) \<and>
      mmio_bus_read ops bus a n w = mmio_read ops dev (a - start) n w \<and>
      mmio_bus_write ops bus a n v w = mmio_write ops dev (a - start) n v w) \<and>
    ((\<forall>e \<in> bus_devices bus. \<not> covers (mmio_size ops) e a) \<longrightarrow>
      mmio_bus_read ops bus a n w = (Ok (- 1), w) \<and>
      mmio_bus_write ops bus a n v w = (Ok ActNone, w))"
proof (intro conjI allI impI; (elim conjE)?)
  fix start dev
  assume dev: "(start, dev) \<in> bus_devices bus" "covers (mmio_size ops) (start, dev) a"
  then have "addressable_search (mmio_size ops) (bus_inner bus) a = Some (start, dev)"
    using bus.search_entries[OF assms, of a] by blast
  then show "mmio_bus_read ops bus a n w = mmio_read ops dev (a - start) n w"
    and "mmio_bus_write ops bus a n v w = mmio_write ops dev (a - start) n v w"
    by (simp_all add: mmio_bus_read_def mmio_bus_write_def)
  show "unat (a - start) < unat (mmio_size ops dev)" using dev(2) by (rule covers_offset_less)
next
  assume "\<forall>e \<in> bus_devices bus. \<not> covers (mmio_size ops) e a"
  then have "addressable_search (mmio_size ops) (bus_inner bus) a = None"
    using search_None_iff[OF assms, of a] by blast
  then show "mmio_bus_read ops bus a n w = (Ok (- 1), w)"
    and "mmio_bus_write ops bus a n v w = (Ok ActNone, w)"
    by (simp_all add: mmio_bus_read_def mmio_bus_write_def)
qed

end
