(* ===== verification/Ioapic.thy ===== *)
theory Ioapic
  imports Mmio_Bus
begin

text \<open>
  \<^verbatim>\<open>alioth/src/device/ioapic.rs\<close> with the registers of \<^verbatim>\<open>alioth/src/arch/x86_64/ioapic.rs\<close> and
  \<^verbatim>\<open>intr.rs\<close>: the interrupt controller that turns a pin into a message. The controller is reached through a
  register-select and a window register. Sending a message (\<^verbatim>\<open>MsiSender::send\<close>) is a parameter that acts on the
  world \<open>'w\<close>; \<open>msi_send\<close> of the KVM machine is an instance.
\<close>

unbundle bit_operations_syntax

section \<open>Registers\<close>

definition IOREGSEL :: u64 where "IOREGSEL = 0"

definition IOWIN :: u64 where "IOWIN = 0x10"

definition IOAPICID :: u8 where "IOAPICID = 0"

definition IOAPICVER :: u8 where "IOAPICVER = 1"

definition IOAPICARB :: u8 where "IOAPICARB = 2"

definition IOREDTBL_BASE :: u8 where "IOREDTBL_BASE = 0x10"

definition IOREDTBL_MAX :: u8 where "IOREDTBL_MAX = 0x3f"

definition NUM_PINS :: u8 where "NUM_PINS = 24"

definition IOAPIC_VER :: u8 where "IOAPIC_VER = 0x11"

definition IOAPIC_START :: u64 where "IOAPIC_START = 0xfec00000"

definition IOAPIC_END :: u64 where "IOAPIC_END = IOAPIC_START + 0x100"

definition APIC_START :: u64 where "APIC_START = 0xfee00000"

text \<open>The fields of \<^verbatim>\<open>RegId\<close>, \<^verbatim>\<open>RegVer\<close> and \<^verbatim>\<open>RedirectEntry\<close>.\<close>

definition reg_id :: "u32 \<Rightarrow> u32" where "reg_id r = get_field 27 24 r"

definition set_reg_id :: "u32 \<Rightarrow> u32 \<Rightarrow> u32" where "set_reg_id v r = set_field 27 24 v r"

definition reg_ver_new :: "u8 \<Rightarrow> u8 \<Rightarrow> u32" where
  "reg_ver_new version max_entry = set_field 23 16 (ucast max_entry) (set_field 7 0 (ucast version) 0)"

definition re_vector :: "u64 \<Rightarrow> u8" where "re_vector e = ucast (get_field 7 0 e)"

definition re_delivery_mode :: "u64 \<Rightarrow> u8" where "re_delivery_mode e = ucast (get_field 10 8 e)"

definition re_logical :: "u64 \<Rightarrow> bool" where "re_logical e = bit e 11"

definition re_level :: "u64 \<Rightarrow> bool" where "re_level e = bit e 15"

definition re_masked :: "u64 \<Rightarrow> bool" where "re_masked e = bit e 16"

definition re_virt_dest_id_hi :: "u64 \<Rightarrow> u8" where "re_virt_dest_id_hi e = ucast (get_field 55 49 e)"

definition re_dest_id :: "u64 \<Rightarrow> u8" where "re_dest_id e = ucast (get_field 63 56 e)"

text \<open>\<^verbatim>\<open>MsiData::new\<close>.\<close>

definition msi_data_new :: "u8 \<Rightarrow> u8 \<Rightarrow> bool \<Rightarrow> bool \<Rightarrow> u32" where
  "msi_data_new vector delivery_mode level trigger_mode =
     set_bit_to 15 trigger_mode (set_bit_to 14 level (set_field 11 8 (ucast delivery_mode) (set_field 7 0 (ucast vector) 0)))"

record ioapic_regs =
  ioapic_id :: u32
  redirtbl :: "u64 list"
  ioapic_select :: u8

definition ioapic_new :: ioapic_regs where
  "ioapic_new = \<lparr>ioapic_id = 0, redirtbl = replicate (unat NUM_PINS) 0, ioapic_select = 0\<rparr>"

section \<open>Operations\<close>

definition service_pin :: "(u64 \<Rightarrow> u32 \<Rightarrow> ('w, unit, hv_error) op) \<Rightarrow> u8 \<Rightarrow> (ioapic_regs \<times> 'w, unit, hv_error) op" where
  "service_pin send pin s =
     (let regs = fst s
      in if length (redirtbl regs) \<le> unat pin then (Ok (), s)
         else let entry = redirtbl regs ! unat pin
           in if re_masked entry then (Ok (), s)
              else if re_logical entry then (Ok (), s)
              else if re_level entry then (Ok (), s)
              else let addr_lo = set_field 11 5 (ucast (re_virt_dest_id_hi entry))
                     (set_field 19 12 (ucast (re_dest_id entry)) (ucast APIC_START :: u32));
                     data = msi_data_new (re_vector entry) (re_delivery_mode entry) False (re_level entry)
                in case send (ucast addr_lo) data (snd s) of (r, w) \<Rightarrow> (r, (regs, w)))"

definition redir_pin :: "u8 \<Rightarrow> nat" where
  "redir_pin select = unat (shr (select - IOREDTBL_BASE) 1)"

definition ioapic_read_reg :: "ioapic_regs \<Rightarrow> u32" where
  "ioapic_read_reg regs =
     (let select = ioapic_select regs
      in if select = IOAPICID \<or> select = IOAPICARB then ioapic_id regs
         else if select = IOAPICVER then reg_ver_new IOAPIC_VER (NUM_PINS - 1)
         else if IOREDTBL_BASE \<le> select \<and> select \<le> IOREDTBL_MAX
         then let pin = redir_pin select
           in if length (redirtbl regs) \<le> pin then 0
              else if select mod 2 = 0 then ucast (redirtbl regs ! pin) else ucast (shr (redirtbl regs ! pin) 32)
         else 0)"

definition ioapic_write_reg :: "u32 \<Rightarrow> ioapic_regs \<Rightarrow> ioapic_regs" where
  "ioapic_write_reg val regs =
     (let select = ioapic_select regs
      in if select = IOAPICID then regs\<lparr>ioapic_id := set_reg_id (reg_id val) (ioapic_id regs)\<rparr>
         else if select = IOAPICVER \<or> select = IOAPICARB then regs
         else if IOREDTBL_BASE \<le> select \<and> select \<le> IOREDTBL_MAX
         then let pin = redir_pin select
           in if length (redirtbl regs) \<le> pin then regs
              else let e = redirtbl regs ! pin
                in regs\<lparr>redirtbl := (redirtbl regs)[pin :=
                     if select mod 2 = 0 then (e AND 0xffffffff00000000) OR ucast val
                     else (e AND 0x00000000ffffffff) OR shl (ucast val) 32]\<rparr>
         else regs)"

definition ioapic_size :: u64 where "ioapic_size = IOAPIC_END - IOAPIC_START"

definition ioapic_read :: "u64 \<Rightarrow> u8 \<Rightarrow> ioapic_regs \<Rightarrow> u64" where
  "ioapic_read offset sz regs =
     (if sz \<noteq> 4 then 0
      else if offset = IOREGSEL then ucast (ioapic_select regs)
      else if offset = IOWIN then ucast (ioapic_read_reg regs)
      else 0)"

definition ioapic_write :: "u64 \<Rightarrow> u8 \<Rightarrow> u64 \<Rightarrow> ioapic_regs \<Rightarrow> ioapic_regs" where
  "ioapic_write offset sz val regs =
     (if sz \<noteq> 4 then regs
      else if offset = IOREGSEL then regs\<lparr>ioapic_select := ucast val\<rparr>
      else if offset = IOWIN then ioapic_write_reg (ucast val) regs
      else regs)"

section \<open>Programming a pin\<close>

text \<open>What a driver does: select the low half of the entry, write it, and the same for the high half.\<close>

definition program_pin :: "u8 \<Rightarrow> u64 \<Rightarrow> ioapic_regs \<Rightarrow> ioapic_regs" where
  "program_pin pin v regs =
     ioapic_write IOWIN 4 (shr v 32) (ioapic_write IOREGSEL 4 (0x11 + 2 * ucast pin)
       (ioapic_write IOWIN 4 (v AND 0xffffffff) (ioapic_write IOREGSEL 4 (0x10 + 2 * ucast pin) regs)))"

lemma redir_select:
  assumes "pin < NUM_PINS"
  shows "ucast (0x10 + 2 * ucast pin :: u64) = (0x10 + 2 * pin :: u8)" "ucast (0x11 + 2 * ucast pin :: u64) = (0x11 + 2 * pin :: u8)"
    "unat (0x10 + 2 * pin) = 16 + 2 * unat pin" "unat (0x11 + 2 * pin) = 17 + 2 * unat pin"
proof -
  have p: "unat pin < 24" using assms by (simp add: NUM_PINS_def word_less_nat_alt)
  show "unat (0x10 + 2 * pin) = 16 + 2 * unat pin" "unat (0x11 + 2 * pin) = 17 + 2 * unat pin"
    using p by (simp_all add: unat_word_ariths)
  show "ucast (0x10 + 2 * ucast pin :: u64) = (0x10 + 2 * pin :: u8)" "ucast (0x11 + 2 * ucast pin :: u64) = (0x11 + 2 * pin :: u8)"
    using p by (simp_all add: word_unat_eq_iff unsigned_ucast_eq unat_word_ariths take_bit_eq_mod)
qed


lemma redir_slot:
  assumes "pin < NUM_PINS"
  shows "redir_pin (0x10 + 2 * pin) = unat pin" "redir_pin (0x11 + 2 * pin) = unat pin"
    "(0x10 + 2 * pin) mod 2 = 0" "(0x11 + 2 * pin) mod 2 \<noteq> 0"
    "IOREDTBL_BASE \<le> 0x10 + 2 * pin \<and> 0x10 + 2 * pin \<le> IOREDTBL_MAX"
    "IOREDTBL_BASE \<le> 0x11 + 2 * pin \<and> 0x11 + 2 * pin \<le> IOREDTBL_MAX"
proof -
  note sel = redir_select(3,4)[OF assms]
  have p: "unat pin < 24" using assms by (simp add: NUM_PINS_def word_less_nat_alt)
  have half: "unat (shr x 1) = unat x div 2" for x :: u8 by (simp add: shr_def unat_div drop_bit_eq_div)
  have "unat (0x11 + 2 * pin - IOREDTBL_BASE) = 2 * unat pin + 1" "unat (0x10 + 2 * pin - IOREDTBL_BASE) = 2 * unat pin"
    using p by (simp_all add: IOREDTBL_BASE_def unat_word_ariths)
  then show "redir_pin (0x10 + 2 * pin) = unat pin" "redir_pin (0x11 + 2 * pin) = unat pin"
    unfolding redir_pin_def half by simp_all
  show "(0x10 + 2 * pin) mod 2 = 0" "(0x11 + 2 * pin) mod 2 \<noteq> 0"
    using sel by (simp_all add: word_unat_eq_iff unat_mod mod_Suc)
  show "IOREDTBL_BASE \<le> 0x10 + 2 * pin \<and> 0x10 + 2 * pin \<le> IOREDTBL_MAX"
    "IOREDTBL_BASE \<le> 0x11 + 2 * pin \<and> 0x11 + 2 * pin \<le> IOREDTBL_MAX"
    using sel p by (simp_all add: IOREDTBL_BASE_def IOREDTBL_MAX_def word_le_nat_alt)
qed

lemma redir_halves:
  "((e AND 0xffffffff00000000) OR ucast (ucast (v AND 0xffffffff) :: u32)) AND 0x00000000ffffffff OR
     shl (ucast (ucast (shr v 32) :: u32)) 32 = v" for e v :: u64
proof -
  have c: "(0xffffffff :: u64) = mask 32" "(0xffffffff00000000 :: u64) = NOT (mask 32)" by (simp_all add: mask_eq_exp_minus_1)
  have sum: "n < 32 \<or> bit v (32 + (n - 32)) = bit v n" for n by (cases "n < 32") auto
  show ?thesis unfolding c
    using sum by (intro bit_word_eqI) (auto simp: shl_def shr_def bit_simps)
qed

lemma program_pin_entry:
  assumes "pin < NUM_PINS" "length (redirtbl regs) = 24"
  shows "redirtbl (program_pin pin v regs) = (redirtbl regs)[unat pin := v]" "ioapic_id (program_pin pin v regs) = ioapic_id regs"
proof -
  have p: "unat pin < 24" using assms(1) by (simp add: NUM_PINS_def word_less_nat_alt)
  have base: "x \<noteq> c" if "IOREDTBL_BASE \<le> x" "c < IOREDTBL_BASE" for x c using that by auto
  have low: "IOAPICID < IOREDTBL_BASE" "IOAPICVER < IOREDTBL_BASE" "IOAPICARB < IOREDTBL_BASE"
    by (simp_all add: IOAPICID_def IOAPICVER_def IOAPICARB_def IOREDTBL_BASE_def)
  have n: "0x10 + 2 * pin \<noteq> IOAPICID" "0x10 + 2 * pin \<noteq> IOAPICVER" "0x10 + 2 * pin \<noteq> IOAPICARB"
    "0x11 + 2 * pin \<noteq> IOAPICID" "0x11 + 2 * pin \<noteq> IOAPICVER" "0x11 + 2 * pin \<noteq> IOAPICARB"
    using base[OF _ low(1)] base[OF _ low(2)] base[OF _ low(3)] redir_slot(5,6)[OF assms(1)] by blast+
  have w: "IOWIN \<noteq> IOREGSEL" by (simp add: IOWIN_def IOREGSEL_def)
  show "redirtbl (program_pin pin v regs) = (redirtbl regs)[unat pin := v]" "ioapic_id (program_pin pin v regs) = ioapic_id regs"
    using p n w assms(2) redir_slot[OF assms(1)] redir_select(1,2)[OF assms(1)] redir_halves[of "redirtbl regs ! unat pin" v]
    by (simp_all add: program_pin_def ioapic_write_def ioapic_write_reg_def Let_def)
qed

section \<open>The message of a pin\<close>

definition pin_addr :: "u64 \<Rightarrow> u32" where
  "pin_addr e = 0xfee00000 OR shl (ucast (re_dest_id e)) 12 OR shl (ucast (re_virt_dest_id_hi e)) 5"

definition pin_data :: "u64 \<Rightarrow> u32" where
  "pin_data e = shl (ucast (re_delivery_mode e)) 8 OR ucast (re_vector e)"

lemma apic_base_bits: "bit (0xfee00000 :: u32) n \<Longrightarrow> 20 \<le> n"
proof -
  have "(0xfee00000 :: u32) = push_bit 20 0xfee" by simp
  then show "bit (0xfee00000 :: u32) n \<Longrightarrow> 20 \<le> n" by (metis bit_push_bit_iff)
qed

lemma virt_dest_small: "bit (re_virt_dest_id_hi e) n \<Longrightarrow> n < 7" and delivery_mode_small: "bit (re_delivery_mode e) n \<Longrightarrow> n < 3"
  by (auto simp: re_virt_dest_id_hi_def re_delivery_mode_def bit_simps bit_get_field)

lemma service_pin_sends:
  assumes "unat pin < length (redirtbl regs)"
  defines "e \<equiv> redirtbl regs ! unat pin"
  assumes "\<not> re_masked e" "\<not> re_logical e" "\<not> re_level e"
  shows "service_pin send pin (regs, w) = (case send (ucast (pin_addr e)) (pin_data e) w of (r, w') \<Rightarrow> (r, (regs, w')))"
proof -
  have a: "set_field 11 5 (ucast (re_virt_dest_id_hi e)) (set_field 19 12 (ucast (re_dest_id e)) (0xfee00000 :: u32)) = pin_addr e"
    by (rule bit_word_eqI) (auto simp: bit_set_field pin_addr_def shl_def bit_simps
      simp del: bit_numeral_word_iff dest: apic_base_bits virt_dest_small bit_imp_le_length)
  have d: "msi_data_new (re_vector e) (re_delivery_mode e) False False = pin_data e"
    by (rule bit_word_eqI) (auto simp: msi_data_new_def bit_set_field pin_data_def shl_def bit_simps
      dest: delivery_mode_small bit_imp_le_length)
  have "ucast APIC_START = (0xfee00000 :: u32)" by (simp add: APIC_START_def)
  then show ?thesis using assms a d by (simp add: service_pin_def Let_def)
qed

end
