(* ===== verification/Uart.thy ===== *)
theory Uart
  imports Mmio_Bus
begin

text \<open>
  The two serial ports, \<^verbatim>\<open>alioth/src/device/serial.rs\<close> (16550) and \<^verbatim>\<open>pl011.rs\<close>, and the input loop of the console
  thread that feeds them (\<^verbatim>\<open>console.rs\<close>). The register block is behind a lock that the device and the console
  thread share, so each access and each received chunk is one step on it. Raising the interrupt and writing to the
  console are parameters that act on the world \<open>'w\<close>.

  Both ports keep received bytes in a queue. The locale \<open>uart\<close> states what the console thread and a driver rely on,
  and is interpreted on both.
\<close>

unbundle bit_operations_syntax

section \<open>The 16550 port\<close>

definition IER_RECEIVED_DATA_AVAILABLE :: u8 where "IER_RECEIVED_DATA_AVAILABLE = 1"

definition IER_TX_HOLDING_REGISTER_EMPTY :: u8 where "IER_TX_HOLDING_REGISTER_EMPTY = 2"

definition IER_ALL :: u8 where "IER_ALL = 0xf"

definition LSR_DATA_READY :: u8 where "LSR_DATA_READY = 1"

definition LSR_TX_HOLDING_REGISTER_EMPTY :: u8 where "LSR_TX_HOLDING_REGISTER_EMPTY = 0x20"

definition LSR_TX_EMPTY :: u8 where "LSR_TX_EMPTY = 0x40"

text \<open>The setters of \<^verbatim>\<open>InterruptIdentification\<close>.\<close>

definition iir_set_rx_data_available :: "u8 \<Rightarrow> u8" where "iir_set_rx_data_available r = (r AND NOT 0xf) OR 4"

definition iir_set_tx_room_empty :: "u8 \<Rightarrow> u8" where "iir_set_tx_room_empty r = (r AND NOT 0xf) OR 2"

definition iir_clear_interrupt :: "u8 \<Rightarrow> u8" where "iir_clear_interrupt r = (r AND NOT 0xf) OR 1"

record serial_reg =
  sr_interrupt_enable :: u8
  sr_interrupt_identification :: u8
  sr_line_control :: u8
  sr_modem_control :: u8
  sr_line_status :: u8
  sr_modem_status :: u8
  sr_scratch :: u8
  sr_divisor :: u16
  sr_data :: "u8 list"

definition serial_default :: serial_reg where
  "serial_default = \<lparr>sr_interrupt_enable = 0, sr_interrupt_identification = iir_clear_interrupt 0, sr_line_control = 3,
     sr_modem_control = 0, sr_line_status = LSR_TX_EMPTY OR LSR_TX_HOLDING_REGISTER_EMPTY, sr_modem_status = 0,
     sr_scratch = 0, sr_divisor = 0, sr_data = []\<rparr>"

definition divisor_latch_access :: "u8 \<Rightarrow> bool" where "divisor_latch_access lcr = bit lcr 7"

definition loop_back :: "u8 \<Rightarrow> bool" where "loop_back mcr = bit mcr 4"

definition serial_size :: u64 where "serial_size = 8"

definition serial_read :: "u64 \<Rightarrow> u8 \<Rightarrow> serial_reg \<Rightarrow> u64 \<times> serial_reg" where
  "serial_read offset sz reg =
     (let dlab = divisor_latch_access (sr_line_control reg);
          (ret, reg') =
            (if offset = 0 \<and> dlab then (ucast (sr_divisor reg), reg)
             else if offset = 1 \<and> dlab then (ucast (shr (sr_divisor reg) 8), reg)
             else if offset = 0
             then let reg1 = (if length (sr_data reg) \<le> 1
                        then reg\<lparr>sr_line_status := flag_remove (sr_line_status reg) LSR_DATA_READY\<rparr> else reg)
               in (case sr_data reg of [] \<Rightarrow> (0xff, reg1) | b # bs \<Rightarrow> (b, reg1\<lparr>sr_data := bs\<rparr>))
             else if offset = 1 then (sr_interrupt_enable reg, reg)
             else if offset = 2
             then (sr_interrupt_identification reg,
                   reg\<lparr>sr_interrupt_identification := iir_clear_interrupt (sr_interrupt_identification reg)\<rparr>)
             else if offset = 3 then (sr_line_control reg, reg)
             else if offset = 4 then (sr_modem_control reg, reg)
             else if offset = 5 then (sr_line_status reg, reg)
             else if offset = 6 then (sr_modem_status reg, reg)
             else if offset = 7 then (sr_scratch reg, reg)
             else (0, reg))
      in (ucast (ret :: u8), reg'))"

text \<open>What the port uses: the interrupt line (a failure is only logged) and the console.\<close>

record ('w, 'x) uart_env =
  send_irq :: "('w, unit, 'x) op"
  console_write :: "u8 list \<Rightarrow> 'w \<Rightarrow> 'w"

definition serial_write :: "('w, 'x) uart_env \<Rightarrow> u64 \<Rightarrow> u8 \<Rightarrow> u64 \<Rightarrow> serial_reg \<times> 'w \<Rightarrow> serial_reg \<times> 'w" where
  "serial_write env offset sz val s =
     (let byte = ucast val; reg = fst s; w = snd s; dlab = divisor_latch_access (sr_line_control reg)
      in if offset = 0 \<and> dlab then (reg\<lparr>sr_divisor := (sr_divisor reg AND 0xff00) OR ucast byte\<rparr>, w)
         else if offset = 1 \<and> dlab then (reg\<lparr>sr_divisor := (sr_divisor reg AND 0xff) OR shl (ucast byte) 8\<rparr>, w)
         else if offset = 0
         then if loop_back (sr_modem_control reg)
              then let reg1 = reg\<lparr>sr_data := sr_data reg @ [byte]\<rparr>;
                       (reg2, w2) = (if flag_contains (sr_interrupt_enable reg) IER_RECEIVED_DATA_AVAILABLE
                         then (reg1\<lparr>sr_interrupt_identification :=
                                 iir_set_rx_data_available (sr_interrupt_identification reg)\<rparr>, snd (send_irq env w))
                         else (reg1, w))
                in (reg2\<lparr>sr_line_status := sr_line_status reg OR LSR_DATA_READY\<rparr>, w2)
              else let w1 = console_write env [byte] w
                in if flag_contains (sr_interrupt_enable reg) IER_TX_HOLDING_REGISTER_EMPTY
                   then (reg\<lparr>sr_interrupt_identification := iir_set_tx_room_empty (sr_interrupt_identification reg)\<rparr>,
                         snd (send_irq env w1))
                   else (reg, w1)
         else if offset = 1 then (reg\<lparr>sr_interrupt_enable := byte AND IER_ALL\<rparr>, w)
         else if offset = 3 then (reg\<lparr>sr_line_control := byte\<rparr>, w)
         else if offset = 4 then (reg\<lparr>sr_modem_control := byte\<rparr>, w)
         else if offset = 7 then (reg\<lparr>sr_scratch := byte\<rparr>, w)
         else s)"

definition serial_receive :: "('w, 'x) uart_env \<Rightarrow> u8 list \<Rightarrow> serial_reg \<times> 'w \<Rightarrow> serial_reg \<times> 'w" where
  "serial_receive env bytes s =
     (let reg = fst s; reg1 = reg\<lparr>sr_data := sr_data reg @ bytes\<rparr>;
          (reg2, w2) = (if flag_contains (sr_interrupt_enable reg) IER_RECEIVED_DATA_AVAILABLE
            then (reg1\<lparr>sr_interrupt_identification := iir_set_rx_data_available (sr_interrupt_identification reg)\<rparr>,
                  snd (send_irq env (snd s)))
            else (reg1, snd s))
      in (reg2\<lparr>sr_line_status := sr_line_status reg OR LSR_DATA_READY\<rparr>, w2))"

section \<open>The PL011 port\<close>

definition FR_TXFE :: u16 where "FR_TXFE = 0x80"

definition FR_RXFE :: u16 where "FR_RXFE = 0x10"

definition INT_TXRIS :: u16 where "INT_TXRIS = 0x20"

definition INT_RXRIS :: u16 where "INT_RXRIS = 0x10"

definition INT_ALL :: u16 where "INT_ALL = 0x7ff"

definition PERIPH_ID :: "u32 list" where "PERIPH_ID = [0x11, 0x10, 0x14, 0x00]"

definition PCELL_ID :: "u32 list" where "PCELL_ID = [0x0d, 0xf0, 0x05, 0xb1]"

record pl011_reg =
  pl_data :: "u8 list"
  pl_flag :: u16
  pl_lcr :: u32
  pl_rsr :: u32
  pl_cr :: u32
  pl_dmacr :: u32
  pl_ilpr :: u32
  pl_ibrd :: u32
  pl_fbrd :: u32
  pl_ifl :: u32
  pl_interrupt_mask :: u16
  pl_interrupt_status :: u16

definition pl011_new :: pl011_reg where
  "pl011_new = \<lparr>pl_data = [], pl_flag = FR_RXFE OR FR_TXFE, pl_lcr = 0, pl_rsr = 0, pl_cr = 0, pl_dmacr = 0, pl_ilpr = 0,
     pl_ibrd = 0, pl_fbrd = 0, pl_ifl = 0, pl_interrupt_mask = 0, pl_interrupt_status = 0\<rparr>"

text \<open>\<^verbatim>\<open>send().unwrap()\<close>: a failure to raise the interrupt panics.\<close>

definition update_interrupt :: "('w, 'x) uart_env \<Rightarrow> (pl011_reg \<times> 'w, unit, mem_error) op" where
  "update_interrupt env s =
     (if pl_interrupt_status (fst s) AND pl_interrupt_mask (fst s) \<noteq> 0
      then case send_irq env (snd s) of
             (Ok _, w) \<Rightarrow> (Ok (), (fst s, w)) | (_, w) \<Rightarrow> (Panic, (fst s, w))
      else (Ok (), s))"

definition pl011_size :: u64 where "pl011_size = 0x1000"

definition pl011_id_reg :: "u64 \<Rightarrow> u32" where
  "pl011_id_reg offset =
     (if 0xfe0 \<le> offset \<and> offset \<le> 0xfec \<and> offset AND 3 = 0 then PERIPH_ID ! unat (shr (offset - 0xfe0) 2)
      else if 0xff0 \<le> offset \<and> offset \<le> 0xffc \<and> offset AND 3 = 0 then PCELL_ID ! unat (shr (offset - 0xff0) 2)
      else 0)"

definition pl011_read :: "('w, 'x) uart_env \<Rightarrow> u64 \<Rightarrow> u8 \<Rightarrow> (pl011_reg \<times> 'w, u64, mem_error) op" where
  "pl011_read env offset sz s =
     (let reg = fst s
      in if offset = 0
         then let (byte, rest) = (case pl_data reg of [] \<Rightarrow> (0, []) | b # bs \<Rightarrow> (b, bs));
                  reg1 = reg\<lparr>pl_data := rest\<rparr>;
                  reg2 = (if rest = [] then reg1\<lparr>pl_flag := flag_insert (pl_flag reg) FR_RXFE,
                            pl_interrupt_status := flag_remove (pl_interrupt_status reg) INT_RXRIS\<rparr> else reg1)
           in sbind (update_interrupt env) (\<lambda>_. sret (ucast byte)) (reg2, snd s)
         else (Ok (ucast
           (if offset = 0x4 then pl_rsr reg
            else if offset = 0x18 then ucast (pl_flag reg)
            else if offset = 0x20 then pl_ilpr reg
            else if offset = 0x24 then pl_ibrd reg
            else if offset = 0x28 then pl_fbrd reg
            else if offset = 0x2c then pl_lcr reg
            else if offset = 0x30 then pl_cr reg
            else if offset = 0x34 then pl_ifl reg
            else if offset = 0x38 then ucast (pl_interrupt_mask reg)
            else if offset = 0x3c then ucast (pl_interrupt_status reg)
            else if offset = 0x40 then ucast (pl_interrupt_mask reg AND pl_interrupt_status reg)
            else if offset = 0x44 then 0
            else if offset = 0x48 then pl_dmacr reg
            else pl011_id_reg offset)), s))"

definition pl011_write :: "('w, 'x) uart_env \<Rightarrow> u64 \<Rightarrow> u8 \<Rightarrow> u64 \<Rightarrow> (pl011_reg \<times> 'w, 'c action, mem_error) op" where
  "pl011_write env offset sz val s =
     (let reg = fst s; set = (\<lambda>reg'. (Ok ActNone, (reg', snd s)))
      in if offset = 0
         then let reg1 = reg\<lparr>pl_interrupt_status := flag_insert (pl_interrupt_status reg) INT_TXRIS,
                    pl_flag := flag_insert (pl_flag reg) FR_TXFE\<rparr>
           in sbind (update_interrupt env) (\<lambda>_. sret ActNone) (reg1, console_write env [ucast val] (snd s))
         else if offset = 0x4 then set (reg\<lparr>pl_rsr := 0\<rparr>)
         else if offset = 0x20 then set (reg\<lparr>pl_ilpr := ucast val\<rparr>)
         else if offset = 0x24 then set (reg\<lparr>pl_ibrd := ucast val\<rparr>)
         else if offset = 0x28 then set (reg\<lparr>pl_fbrd := ucast val\<rparr>)
         else if offset = 0x2c then set (reg\<lparr>pl_lcr := ucast val\<rparr>)
         else if offset = 0x30 then set (reg\<lparr>pl_cr := ucast val\<rparr>)
         else if offset = 0x34 then set (reg\<lparr>pl_ifl := ucast val\<rparr>)
         else if offset = 0x38 then set (reg\<lparr>pl_interrupt_mask := ucast val AND INT_ALL\<rparr>)
         else if offset = 0x44
         then set (reg\<lparr>pl_interrupt_status := flag_remove (pl_interrupt_status reg) (ucast val AND INT_ALL)\<rparr>)
         else if offset = 0x48 then set (reg\<lparr>pl_dmacr := ucast val\<rparr>)
         else (Ok ActNone, s))"

definition pl011_receive :: "('w, 'x) uart_env \<Rightarrow> u8 list \<Rightarrow> (pl011_reg \<times> 'w, unit, mem_error) op" where
  "pl011_receive env bytes s =
     (let reg = fst s
      in update_interrupt env (reg\<lparr>pl_data := pl_data reg @ bytes,
           pl_interrupt_status := flag_insert (pl_interrupt_status reg) INT_RXRIS,
           pl_flag := flag_remove (pl_flag reg) FR_RXFE\<rparr>, snd s))"

section \<open>The input loop\<close>

text \<open>What a read of the console gives: bytes (none at the end of the input), nothing yet, or an error.\<close>

datatype console_in = Chunk "u8 list" | InputWouldBlock | ReadError string

text \<open>
  \<^verbatim>\<open>ThreadWorker::read_input\<close>: it ends when the console has nothing more, so the loop may run forever. The result
  is the number of bytes, or the error.
\<close>

partial_function (option) read_input :: "('k \<Rightarrow> console_in \<times> 'k) \<Rightarrow> (u8 list \<Rightarrow> ('s, unit, mem_error) op) \<Rightarrow> nat \<Rightarrow> 'k \<Rightarrow> 's
    \<Rightarrow> ((nat, string) outcome \<times> 'k \<times> 's) option" where
  "read_input con receive total_size k s = (case con k of
       (Chunk bytes, k') \<Rightarrow>
         (if bytes = [] then Some (Ok total_size, k', s)
          else case receive bytes s of
                 (Ok _, s') \<Rightarrow> read_input con receive (total_size + length bytes) k' s'
               | (_, s') \<Rightarrow> Some (Panic, k', s'))
     | (InputWouldBlock, k') \<Rightarrow> Some (Ok total_size, k', s)
     | (ReadError e, k') \<Rightarrow> Some (Err e, k', s))"

section \<open>Types of the registers\<close>

text \<open>
  The interrupt-enable register has only its four flags, the interrupt identification is one of the three the port
  reports, and the line status says that the transmitter is empty and that data is ready exactly when there is some.
\<close>

definition serial_ok :: "serial_reg \<Rightarrow> bool" where
  "serial_ok reg \<longleftrightarrow> sr_interrupt_enable reg AND IER_ALL = sr_interrupt_enable reg \<and> sr_interrupt_identification reg \<in> {1, 2, 4} \<and>
     sr_line_status reg = (if sr_data reg = [] then 0x60 else 0x61)"

inductive serial_reachable :: "('w, 'x) uart_env \<Rightarrow> serial_reg \<times> 'w \<Rightarrow> bool" for env where
  start: "serial_reachable env (serial_default, w)"
| read: "serial_reachable env (reg, w) \<Longrightarrow> serial_reachable env (snd (serial_read offset sz reg), w')"
| "write": "serial_reachable env s \<Longrightarrow> serial_reachable env (serial_write env offset sz val s)"
| receive: "serial_reachable env s \<Longrightarrow> bytes \<noteq> [] \<Longrightarrow> serial_reachable env (serial_receive env bytes s)"

lemma iir_values:
  "r \<in> {1, 2, 4} \<Longrightarrow> iir_clear_interrupt r = 1" "r \<in> {1, 2, 4} \<Longrightarrow> iir_set_rx_data_available r = 4"
  "r \<in> {1, 2, 4} \<Longrightarrow> iir_set_tx_room_empty r = 2"
  by (auto simp: iir_clear_interrupt_def iir_set_rx_data_available_def iir_set_tx_room_empty_def)

lemma serial_ok_read: "serial_ok reg \<Longrightarrow> serial_ok (snd (serial_read offset sz reg))"
  by (cases "sr_data reg"; cases "tl (sr_data reg)")
    (auto simp: serial_ok_def serial_read_def Let_def iir_values LSR_DATA_READY_def flag_remove_def)

lemma serial_ok_write: "serial_ok (fst s) \<Longrightarrow> serial_ok (fst (serial_write env offset sz val s))"
  by (auto simp: serial_ok_def serial_write_def Let_def iir_values LSR_DATA_READY_def)

lemma serial_ok_receive: "serial_ok (fst s) \<Longrightarrow> bytes \<noteq> [] \<Longrightarrow> serial_ok (fst (serial_receive env bytes s))"
  by (auto simp: serial_ok_def serial_receive_def Let_def iir_values LSR_DATA_READY_def)

text \<open>
  C37.  The registers of the serial port keep their types whatever the guest writes and the console sends: only defined
  interrupt-enable bits are set, the interrupt identification is one of the three the port can report, and the
  data-ready bit of the line status is set exactly when a byte waits.
\<close>

theorem serial_registers_typed:
  assumes "serial_reachable env s"
  shows "serial_ok (fst s)"
  using assms
proof (induction rule: serial_reachable.induct)
  case (start w)
  show ?case by (simp add: serial_ok_def serial_default_def iir_clear_interrupt_def LSR_TX_EMPTY_def
        LSR_TX_HOLDING_REGISTER_EMPTY_def)
qed (auto intro: serial_ok_read serial_ok_write serial_ok_receive)

definition quiet_env :: "(u8 list, unit) uart_env" where
  "quiet_env = \<lparr>send_irq = (\<lambda>w. (Ok (), w)), console_write = (\<lambda>bs w. w @ bs)\<rparr>"

theorem serial_registers_typed_witness:
  "serial_ok (fst (serial_receive quiet_env [65] (serial_default, [])))"
  by (rule serial_registers_typed[of quiet_env]) (intro serial_reachable.receive serial_reachable.start, simp)

section \<open>Received bytes\<close>

text \<open>A driver that reads the data register \<open>n\<close> times.\<close>

fun read_bytes :: "('s, u64, mem_error) op \<Rightarrow> nat \<Rightarrow> ('s, u64 list, mem_error) op" where
  "read_bytes read_data 0 = sret []"
| "read_bytes read_data (Suc n) = sbind read_data (\<lambda>b. sbind (read_bytes read_data n) (\<lambda>bs. sret (b # bs)))"

text \<open>
  What the console thread and a driver rely on: \<open>rx s\<close> are the bytes that wait, \<open>live s\<close> says that the data register is
  accessible and raising the interrupt does not fail.
\<close>

locale uart =
  fixes receive :: "u8 list \<Rightarrow> ('s, unit, mem_error) op" and read_data :: "('s, u64, mem_error) op"
    and live :: "'s \<Rightarrow> bool" and rx :: "'s \<Rightarrow> u8 list"
  assumes receive_appends: "live s \<Longrightarrow> \<exists>s'. receive bs s = (Ok (), s') \<and> live s' \<and> rx s' = rx s @ bs"
    and read_takes: "live s \<Longrightarrow> rx s = b # bs \<Longrightarrow> \<exists>s'. read_data s = (Ok (ucast b), s') \<and> live s' \<and> rx s' = bs"
begin

text \<open>The input loop hands every chunk to the port, until the console has nothing more.\<close>

lemma read_input_delivers:
  assumes "\<forall>c \<in> set cs. c \<noteq> []" "live s"
    and "\<forall>i < length cs. con (ks i) = (Chunk (cs ! i), ks (Suc i))" "con (ks (length cs)) = (InputWouldBlock, k')"
  shows "\<exists>s'. read_input con receive n (ks 0) s = Some (Ok (n + length (concat cs)), k', s') \<and> live s' \<and>
    rx s' = rx s @ concat cs"
  using assms
proof (induction cs arbitrary: s n ks)
  case Nil
  then show ?case by (subst read_input.simps) simp
next
  case (Cons c cs)
  obtain s1 where s1: "receive c s = (Ok (), s1)" "live s1" "rx s1 = rx s @ c" using receive_appends[of s c] Cons.prems(2) by auto
  have c0: "con (ks 0) = (Chunk c, ks (Suc 0))" using Cons.prems(3)[rule_format, of 0] by simp
  have step: "read_input con receive n (ks 0) s = read_input con receive (n + length c) (ks (Suc 0)) s1"
    using c0 s1(1) Cons.prems(1) by (subst read_input.simps) simp
  have "\<forall>i < length cs. con (ks (Suc i)) = (Chunk (cs ! i), ks (Suc (Suc i)))"
  proof (intro allI impI)
    fix i assume "i < length cs"
    then show "con (ks (Suc i)) = (Chunk (cs ! i), ks (Suc (Suc i)))" using Cons.prems(3)[rule_format, of "Suc i"] by simp
  qed
  then show ?case
    using Cons.IH[of s1 "\<lambda>i. ks (Suc i)" "n + length c"] Cons.prems(1,4) s1(2,3) unfolding step by (auto simp: add.assoc)
qed

lemma read_bytes_in_order:
  "live s \<Longrightarrow> rx s = bs @ rest \<Longrightarrow> \<exists>s'. read_bytes read_data (length bs) s = (Ok (map ucast bs), s') \<and> live s' \<and> rx s' = rest"
proof (induction bs arbitrary: s)
  case (Cons b bs)
  obtain s1 where s1: "read_data s = (Ok (ucast b), s1)" "live s1" "rx s1 = bs @ rest"
    using read_takes[of s b "bs @ rest"] Cons.prems by auto
  obtain s2 where "read_bytes read_data (length bs) s1 = (Ok (map ucast bs), s2)" "live s2" "rx s2 = rest" using Cons.IH[OF s1(2,3)] by auto
  then show ?case using s1(1) by simp
qed simp

end


definition serial_rx :: "('w, 'x) uart_env \<Rightarrow> u8 list \<Rightarrow> (serial_reg \<times> 'w, unit, mem_error) op" where
  "serial_rx env bytes s = (Ok (), serial_receive env bytes s)"

definition serial_read_data :: "(serial_reg \<times> 'w, u64, mem_error) op" where
  "serial_read_data s = (case serial_read 0 1 (fst s) of (v, reg) \<Rightarrow> (Ok v, (reg, snd s)))"

definition serial_live :: "serial_reg \<times> 'w \<Rightarrow> bool" where
  "serial_live s \<longleftrightarrow> \<not> divisor_latch_access (sr_line_control (fst s))"

interpretation serial: uart "serial_rx env" serial_read_data serial_live "\<lambda>s. sr_data (fst s)" for env :: "('w, 'x) uart_env"
proof
  fix s :: "serial_reg \<times> 'w" and bs b
  assume live: "serial_live s"
  show "\<exists>s'. serial_rx env bs s = (Ok (), s') \<and> serial_live s' \<and> sr_data (fst s') = sr_data (fst s) @ bs"
    using live by (auto simp: serial_rx_def serial_receive_def serial_live_def Let_def)
  assume "sr_data (fst s) = b # bs"
  then show "\<exists>s'. serial_read_data s = (Ok (ucast b), s') \<and> serial_live s' \<and> sr_data (fst s') = bs"
    using live by (auto simp: serial_read_data_def serial_read_def serial_live_def Let_def)
qed

text \<open>For the PL011 raising the interrupt must not fail: the port unwraps the result.\<close>

definition pl011_live :: "('w, 'x) uart_env \<Rightarrow> pl011_reg \<times> 'w \<Rightarrow> bool" where
  "pl011_live env s \<longleftrightarrow> (\<forall>w. fst (send_irq env w) = Ok ())"

lemma update_interrupt_live: "pl011_live env s \<Longrightarrow> \<exists>w. update_interrupt env (reg, v) = (Ok (), (reg, w))"
proof -
  assume "pl011_live env s"
  then have "send_irq env v = (Ok (), snd (send_irq env v))" by (metis pl011_live_def surjective_pairing)
  then show ?thesis unfolding update_interrupt_def by (cases "send_irq env v") auto
qed

interpretation pl011: uart "pl011_receive env" "pl011_read env 0 1" "pl011_live env" "\<lambda>s. pl_data (fst s)" for env :: "('w, 'x) uart_env"
proof
  fix s :: "pl011_reg \<times> 'w" and bs b
  assume live: "pl011_live env s"
  note upd = update_interrupt_live[OF live]
  show "\<exists>s'. pl011_receive env bs s = (Ok (), s') \<and> pl011_live env s' \<and> pl_data (fst s') = pl_data (fst s) @ bs"
  proof -
    let ?r = "(fst s)\<lparr>pl_data := pl_data (fst s) @ bs, pl_interrupt_status := flag_insert (pl_interrupt_status (fst s)) INT_RXRIS,
           pl_flag := flag_remove (pl_flag (fst s)) FR_RXFE\<rparr>"
    obtain w where "update_interrupt env (?r, snd s) = (Ok (), (?r, w))" using upd[of ?r "snd s"] by auto
    then show ?thesis using live by (simp add: pl011_receive_def pl011_live_def Let_def)
  qed
  assume d: "pl_data (fst s) = b # bs"
  show "\<exists>s'. pl011_read env 0 1 s = (Ok (ucast b), s') \<and> pl011_live env s' \<and> pl_data (fst s') = bs"
  proof -
    let ?r1 = "(fst s)\<lparr>pl_data := bs\<rparr>"
    let ?r = "if bs = [] then ?r1\<lparr>pl_flag := flag_insert (pl_flag (fst s)) FR_RXFE,
                            pl_interrupt_status := flag_remove (pl_interrupt_status (fst s)) INT_RXRIS\<rparr> else ?r1"
    obtain w where "update_interrupt env (?r, snd s) = (Ok (), (?r, w))" using upd[of ?r "snd s"] by auto
    then show ?thesis using live d by (auto simp: pl011_read_def pl011_live_def Let_def sbind_def split: if_splits)
  qed
qed


text \<open>A console with one chunk.\<close>

definition two_keys :: "nat \<Rightarrow> console_in \<times> nat" where
  "two_keys k = (if k = 0 then (Chunk [104, 105], 1) else (InputWouldBlock, k))"


end
