(* ===== verification/Rtc.thy ===== *)
theory Rtc
  imports Mmio_Bus
begin

text \<open>
  The clocks: \<^verbatim>\<open>alioth/src/device/cmos.rs\<close> and \<^verbatim>\<open>pl031.rs\<close>, and the firmware's debug port \<^verbatim>\<open>fw_dbg.rs\<close>. The time is an
  argument of the operations that ask the clock for it: a duration since 1970 in nanoseconds. The calendar is that of
  the chrono library, a parameter of the operation that uses it.
\<close>

unbundle bit_operations_syntax

section \<open>The CMOS clock\<close>

text \<open>The fields of \<^verbatim>\<open>DateTime\<close> that the device reads; the year is a signed number.\<close>

record date_time =
  dt_second :: u32
  dt_minute :: u32
  dt_hour :: u32
  dt_number_from_sunday :: u32
  dt_day :: u32
  dt_month :: u32
  dt_year :: u32
  dt_nanosecond :: u32

definition CmosIntrFreq_HZ_1024 :: u8 where "CmosIntrFreq_HZ_1024 = 6"

definition CmosTimeBase_HZ_32768 :: u8 where "CmosTimeBase_HZ_32768 = 2"

definition cmos_reg_a_default :: u8 where
  "cmos_reg_a_default = set_bit_to 7 False (set_field 6 4 CmosTimeBase_HZ_32768 (set_field 3 0 CmosIntrFreq_HZ_1024 0))"

definition HOUR_24 :: u8 where "HOUR_24 = 2"

definition BINARY_FORMAT :: u8 where "BINARY_FORMAT = 4"

definition CMOS_POWER :: u8 where "CMOS_POWER = 0x80"

definition cmos_size :: u64 where "cmos_size = 2"

text \<open>
  The device has one register, the index. \<open>calendar\<close> is \<^verbatim>\<open>DateTime::from_timestamp_nanos\<close>, on a 64-bit number; the nanoseconds
  of the clock are truncated to that width.
\<close>

definition cmos_read :: "(u64 \<Rightarrow> date_time) \<Rightarrow> nat \<Rightarrow> u64 \<Rightarrow> u8 \<Rightarrow> u8 \<Rightarrow> u64" where
  "cmos_read calendar nanos offset sz reg =
     (if offset = 0 then ucast reg
      else let now = calendar (of_nat nanos); r = get_field 6 0 reg
        in ucast (if r = 0x00 then dt_second now
             else if r = 0x02 then dt_minute now
             else if r = 0x04 then dt_hour now
             else if r = 0x06 then dt_number_from_sunday now
             else if r = 0x07 then dt_day now
             else if r = 0x08 then dt_month now
             else if r = 0x09 then dt_year now mod 100
             else if r = 0x32 then dt_year now div 100 + 1
             else if r = 0x0a
             then ucast (if dt_nanosecond now < 244140 then set_bit_to 7 True cmos_reg_a_default else cmos_reg_a_default)
             else if r = 0x0b then ucast (HOUR_24 OR BINARY_FORMAT)
             else if r = 0x0d then ucast CMOS_POWER
             else (0 :: u32)))"

definition cmos_write :: "u64 \<Rightarrow> u8 \<Rightarrow> u64 \<Rightarrow> u8 \<Rightarrow> u8" where
  "cmos_write offset sz val reg = (if offset = 0 then ucast val else reg)"

section \<open>The PL031 clock\<close>

record pl031_reg =
  rtc_mr :: u32
  rtc_lr :: u32
  rtc_offset :: u32

definition pl031_new :: pl031_reg where
  "pl031_new = \<lparr>rtc_mr = 0, rtc_lr = 0, rtc_offset = 0\<rparr>"

definition RTC_PERIPH_ID :: "u8 list" where "RTC_PERIPH_ID = [0x31, 0x10, 0x04, 0x00]"

definition RTC_PCELL_ID :: "u8 list" where "RTC_PCELL_ID = [0x0d, 0xf0, 0x05, 0xb1]"

definition pl031_size :: u64 where "pl031_size = 0x1000"

text \<open>The whole seconds of the clock, truncated.\<close>

definition pl031_now :: "nat \<Rightarrow> u32" where
  "pl031_now nanos = of_nat (nanos div 1000000000)"

definition pl031_read :: "nat \<Rightarrow> u64 \<Rightarrow> u8 \<Rightarrow> pl031_reg \<Rightarrow> u64" where
  "pl031_read nanos offset sz reg = ucast
     (if offset = 0x000 then rtc_offset reg + pl031_now nanos
      else if offset = 0x004 then rtc_mr reg
      else if offset = 0x008 then rtc_lr reg
      else if offset = 0x00c then 1
      else if offset = 0x010 \<or> offset = 0x014 \<or> offset = 0x018 then 0
      else if offset = 0xfe0 then ucast (RTC_PERIPH_ID ! 0)
      else if offset = 0xfe4 then ucast (RTC_PERIPH_ID ! 1)
      else if offset = 0xfe8 then ucast (RTC_PERIPH_ID ! 2)
      else if offset = 0xfec then ucast (RTC_PERIPH_ID ! 3)
      else if offset = 0xff0 then ucast (RTC_PCELL_ID ! 0)
      else if offset = 0xff4 then ucast (RTC_PCELL_ID ! 1)
      else if offset = 0xff8 then ucast (RTC_PCELL_ID ! 2)
      else if offset = 0xffc then ucast (RTC_PCELL_ID ! 3)
      else (0 :: u32))"

definition pl031_write :: "nat \<Rightarrow> u64 \<Rightarrow> u8 \<Rightarrow> u64 \<Rightarrow> pl031_reg \<Rightarrow> pl031_reg" where
  "pl031_write nanos offset sz val reg =
     (if offset = 0x004 then reg\<lparr>rtc_mr := ucast val\<rparr>
      else if offset = 0x008 then reg\<lparr>rtc_offset := ucast val - pl031_now nanos, rtc_lr := ucast val\<rparr>
      else reg)"

text \<open>
  Setting the clock: from then on the data register counts the seconds from the value written, also across the wrap
  of the 32-bit registers, and writes to other registers do not disturb it.
\<close>

lemma pl031_counts_from_load:
  fixes reg :: pl031_reg and val :: u64
  assumes "offset \<noteq> 0x008" "t0 \<le> t"
  defines "reg1 \<equiv> pl031_write (t0 * 1000000000) 0x008 4 val reg"
  shows "pl031_read (t * 1000000000) 0x000 4 (pl031_write n offset sz v reg1) = ucast (ucast val + of_nat (t - t0) :: u32)"
proof -
  have "rtc_offset (pl031_write n offset sz v reg1) = ucast val - of_nat t0"
    using assms(1) by (simp add: reg1_def pl031_write_def pl031_now_def)
  then show ?thesis using assms(2) by (simp add: pl031_read_def pl031_now_def of_nat_diff diff_add_eq add_diff_eq)
qed

section \<open>The debug port\<close>

text \<open>A line is logged and dropped when its end arrives; \<open>emit\<close> is the log.\<close>

definition fw_dbg_size :: u64 where "fw_dbg_size = 1"

definition fw_dbg_read :: "u64 \<Rightarrow> u8 \<Rightarrow> u64" where "fw_dbg_read offset sz = 0xe9"

definition fw_dbg_write :: "(u8 list \<Rightarrow> 'w \<Rightarrow> 'w) \<Rightarrow> u64 \<Rightarrow> u8 \<Rightarrow> u64 \<Rightarrow> u8 list \<times> 'w \<Rightarrow> u8 list \<times> 'w" where
  "fw_dbg_write emit offset sz val s =
     (if (ucast val :: u8) = 10 then ([], emit (fst s) (snd s)) else (fst s @ [ucast val], snd s))"

text \<open>What was written is the lines that were logged, each with its end, and the open line.\<close>

lemma fw_dbg_lines:
  "fold (\<lambda>v. fw_dbg_write (\<lambda>l w. w @ l @ [10]) off sz v) vals (buf, out) = (buf', out') \<Longrightarrow>
   out' @ buf' = out @ buf @ map ucast vals"
  by (induction vals arbitrary: buf out) (auto simp: fw_dbg_write_def split: if_splits)

end
