(* ===== verification/Guest_Ram.thy ===== *)
theory Guest_Ram
  imports Addressable
begin

text \<open>
  \<^verbatim>\<open>alioth/src/mem/mapped.rs\<close>: guest RAM as a table of host mappings, and every way the
  source reads, writes and translates it. A host slice is a pair of host address and length;
  host memory is a function from host addresses to bytes. \<^verbatim>\<open>usize\<close> is 64 bits wide.
\<close>

section \<open>Host mappings\<close>

text \<open>\<^verbatim>\<open>ArcMemPages\<close>: host address, length, and the backing file with its offset, if any.\<close>

record pages =
  p_addr :: u64
  p_size :: u64
  p_fd :: "(nat \<times> u64) option"

type_synonym slice = "u64 \<times> u64"
type_synonym hmem = "u64 \<Rightarrow> u8"

definition h_read :: "hmem \<Rightarrow> slice \<Rightarrow> u8 list" where
  "h_read h s = map (\<lambda>i. h (fst s + of_nat i)) [0..<unat (snd s)]"

definition h_write :: "hmem \<Rightarrow> u64 \<Rightarrow> u8 list \<Rightarrow> hmem" where
  "h_write h a bs = (\<lambda>x. if unat (x - a) < length bs then bs ! unat (x - a) else h x)"

definition from_raw :: "u64 \<Rightarrow> u64 \<Rightarrow> (nat \<times> u64) option \<Rightarrow> (pages, mem_error) outcome" where
  "from_raw a len fd =
     (if a = 0 then Panic else Ok \<lparr>p_addr = a, p_size = len, p_fd = fd\<rparr>)"

text \<open>The part of \<open>offset\<close>, \<open>len\<close> inside the mapping; the length may be cut short.\<close>

definition get_valid_range :: "pages \<Rightarrow> u64 \<Rightarrow> u64 \<Rightarrow> (slice, mem_error) outcome" where
  "get_valid_range p off len =
     (let e = (off + len) - 1
      in if p_size p \<le> off \<or> e < off then Err (ExceedsLimit off len)
         else Ok (p_addr p + off, min (p_size p - off) len))"

definition pages_get_partial_slice :: "pages \<Rightarrow> u64 \<Rightarrow> u64 \<Rightarrow> (slice, mem_error) outcome" where
  "pages_get_partial_slice p off len = get_valid_range p off len"

definition pages_get_partial_slice_mut :: "pages \<Rightarrow> u64 \<Rightarrow> u64 \<Rightarrow> (slice, mem_error) outcome" where
  "pages_get_partial_slice_mut p off len = get_valid_range p off len"

section \<open>RAM\<close>

record ram =
  ram_inner :: "pages addressable"

definition ram_get_partial_slice :: "ram \<Rightarrow> u64 \<Rightarrow> u64 \<Rightarrow> (slice, mem_error) outcome" where
  "ram_get_partial_slice r gpa len =
     (case addressable_search p_size (ram_inner r) gpa of
        None \<Rightarrow> Err (NotMapped gpa)
      | Some (start, user_mem) \<Rightarrow> pages_get_partial_slice user_mem (gpa - start) len)"

definition ram_get_partial_slice_mut :: "ram \<Rightarrow> u64 \<Rightarrow> u64 \<Rightarrow> (slice, mem_error) outcome" where
  "ram_get_partial_slice_mut r gpa len =
     (case addressable_search p_size (ram_inner r) gpa of
        None \<Rightarrow> Err (NotMapped gpa)
      | Some (start, user_mem) \<Rightarrow> pages_get_partial_slice_mut user_mem (gpa - start) len)"

text \<open>\<^verbatim>\<open>Iter\<close> and \<^verbatim>\<open>IterMut\<close>: the host slices of a guest range, one per call of \<^verbatim>\<open>next\<close>.\<close>

record slice_iter =
  it_gpa :: u64
  it_remain :: u64

definition iter_next :: "ram \<Rightarrow> slice_iter \<Rightarrow> (slice, mem_error) outcome option \<times> slice_iter" where
  "iter_next r it =
     (if it_remain it = 0 then (None, it)
      else let res = ram_get_partial_slice r (it_gpa it) (it_remain it)
           in (Some res, case res of
                 Ok s \<Rightarrow> it\<lparr>it_gpa := it_gpa it + snd s, it_remain := it_remain it - snd s\<rparr>
               | _ \<Rightarrow> it))"

definition iter_mut_next :: "ram \<Rightarrow> slice_iter \<Rightarrow> (slice, mem_error) outcome option \<times> slice_iter" where
  "iter_mut_next r it =
     (if it_remain it = 0 then (None, it)
      else let res = ram_get_partial_slice_mut r (it_gpa it) (it_remain it)
           in (Some res, case res of
                 Ok s \<Rightarrow> it\<lparr>it_gpa := it_gpa it + snd s, it_remain := it_remain it - snd s\<rparr>
               | _ \<Rightarrow> it))"

lemma partial_slice_progress:
  assumes "ram_get_partial_slice r gpa n = Ok s" "n \<noteq> 0"
  shows "0 < unat (snd s) \<and> unat (snd s) \<le> unat n"
  using assms
  by (auto simp: ram_get_partial_slice_def pages_get_partial_slice_def get_valid_range_def Let_def
      min_def unat_gt_0 word_le_nat_alt split: option.splits if_splits)

lemma partial_slice_mut_eq [simp]: "ram_get_partial_slice_mut = ram_get_partial_slice"
  by (intro ext) (simp add: ram_get_partial_slice_mut_def ram_get_partial_slice_def
      pages_get_partial_slice_mut_def pages_get_partial_slice_def split: option.split)

lemma iter_mut_next_eq [simp]: "iter_mut_next = iter_next"
  by (intro ext) (simp add: iter_mut_next_def iter_next_def)

lemma iter_next_decreases:
  assumes "iter_next r it = (Some (Ok s), it')"
  shows "unat (it_remain it') < unat (it_remain it)"
proof -
  from assms have ne: "it_remain it \<noteq> 0"
    and s: "ram_get_partial_slice r (it_gpa it) (it_remain it) = Ok s"
    and it': "it' = it\<lparr>it_gpa := it_gpa it + snd s, it_remain := it_remain it - snd s\<rparr>"
    by (auto simp: iter_next_def Let_def split: if_splits)
  with partial_slice_progress[OF s ne] show ?thesis
    by (simp add: unat_minus_le word_le_nat_alt)
qed

text \<open>\<^verbatim>\<open>for r in iter { body(r?)?; }\<close>\<close>

function for_slices :: "ram \<Rightarrow> (slice \<Rightarrow> ('s, unit, mem_error) op) \<Rightarrow> slice_iter
    \<Rightarrow> ('s, unit, mem_error) op" where
  "for_slices r body it st =
     (case iter_next r it of
        (None, _) \<Rightarrow> (Ok (), st)
      | (Some (Ok s), it') \<Rightarrow>
          (case body s st of
             (Ok _, st') \<Rightarrow> for_slices r body it' st'
           | (Err e, st') \<Rightarrow> (Err e, st')
           | (Panic, st') \<Rightarrow> (Panic, st'))
      | (Some (Err e), _) \<Rightarrow> (Err e, st)
      | (Some Panic, _) \<Rightarrow> (Panic, st))"
  by pat_completeness auto
termination
  by (relation "measure (\<lambda>(r, body, it, st). unat (it_remain it))")
    (auto dest!: iter_next_decreases[OF sym])

declare for_slices.simps [simp del]

definition slice_iter :: "u64 \<Rightarrow> u64 \<Rightarrow> slice_iter" where
  "slice_iter gpa len = \<lparr>it_gpa = gpa, it_remain = len\<rparr>"

definition slice_iter_mut :: "u64 \<Rightarrow> u64 \<Rightarrow> slice_iter" where
  "slice_iter_mut gpa len = \<lparr>it_gpa = gpa, it_remain = len\<rparr>"

text \<open>
  Typed access. \<open>sz\<close> and \<open>al\<close> are the size and the alignment of the element type. In
  \<^verbatim>\<open>get_ptr\<close> the pointer that is checked for alignment is a pointer to bytes.
\<close>

definition is_aligned :: "u64 \<Rightarrow> nat \<Rightarrow> bool" where
  "is_aligned p al \<longleftrightarrow> unat p mod al = 0"

definition get_slice :: "ram \<Rightarrow> nat \<Rightarrow> nat \<Rightarrow> u64 \<Rightarrow> u64 \<Rightarrow> (slice, mem_error) outcome" where
  "get_slice r sz al gpa len =
     (let total_len = len * of_nat sz
      in obind (ram_get_partial_slice r gpa total_len) (\<lambda>host_ref.
           if snd host_ref \<noteq> total_len then Err (NotContinuous gpa total_len)
           else if \<not> is_aligned (fst host_ref) al then Err (NotAligned (fst host_ref) al)
           else Ok (fst host_ref, len)))"

definition get_ptr :: "ram \<Rightarrow> nat \<Rightarrow> nat \<Rightarrow> u64 \<Rightarrow> (u64, mem_error) outcome" where
  "get_ptr r sz al gpa =
     obind (ram_get_partial_slice_mut r gpa (of_nat sz)) (\<lambda>host_ref.
       if snd host_ref \<noteq> of_nat sz then Err (NotContinuous gpa (of_nat sz))
       else if \<not> is_aligned (fst host_ref) 1 then Err (NotAligned (fst host_ref) al)
       else Ok (fst host_ref))"

text \<open>
  Reading fills a caller's buffer (the state), so a read that fails half way leaves the bytes
  copied so far. The loop keeps the position \<open>cur\<close>; writing past the buffer would panic.
\<close>

definition copy_into :: "hmem \<Rightarrow> slice \<Rightarrow> (u8 list \<times> nat, unit, mem_error) op" where
  "copy_into h s bc = (let (buf, cur) = bc; s_len = unat (snd s)
     in if length buf < cur + s_len then (Panic, bc)
        else (Ok (), (take cur buf @ h_read h s @ drop (cur + s_len) buf, cur + s_len)))"

definition ram_read :: "ram \<Rightarrow> hmem \<Rightarrow> u64 \<Rightarrow> (u8 list, unit, mem_error) op" where
  "ram_read r h gpa buf =
     (case ram_get_partial_slice r gpa (of_nat (length buf)) of
        Err e \<Rightarrow> (Err e, buf)
      | Panic \<Rightarrow> (Panic, buf)
      | Ok host_ref \<Rightarrow>
          (if unat (snd host_ref) = length buf then (Ok (), h_read h host_ref)
           else case for_slices r (copy_into h) (slice_iter gpa (of_nat (length buf))) (buf, 0) of
                  (res, (buf', _)) \<Rightarrow> (res, buf')))"

definition ram_read_t :: "ram \<Rightarrow> hmem \<Rightarrow> nat \<Rightarrow> u64 \<Rightarrow> (u8 list, mem_error) outcome" where
  "ram_read_t r h sz gpa =
     (case ram_read r h gpa (replicate sz 0) of
        (Ok _, v) \<Rightarrow> Ok v | (Err e, _) \<Rightarrow> Err e | (Panic, _) \<Rightarrow> Panic)"

definition copy_from :: "u8 list \<Rightarrow> slice \<Rightarrow> (hmem \<times> nat, unit, mem_error) op" where
  "copy_from buf s hc = (let (h, cur) = hc; s_len = unat (snd s)
     in if length buf < cur + s_len then (Panic, hc)
        else (Ok (), (h_write h (fst s) (take s_len (drop cur buf)), cur + s_len)))"

definition ram_write :: "ram \<Rightarrow> u64 \<Rightarrow> u8 list \<Rightarrow> (hmem, unit, mem_error) op" where
  "ram_write r gpa buf h =
     (case ram_get_partial_slice_mut r gpa (of_nat (length buf)) of
        Err e \<Rightarrow> (Err e, h)
      | Panic \<Rightarrow> (Panic, h)
      | Ok host_ref \<Rightarrow>
          (if unat (snd host_ref) = length buf then (Ok (), h_write h (fst host_ref) buf)
           else case for_slices r (copy_from buf) (slice_iter_mut gpa (of_nat (length buf))) (h, 0) of
                  (res, (h', _)) \<Rightarrow> (res, h')))"

definition ram_write_t :: "ram \<Rightarrow> u64 \<Rightarrow> u8 list \<Rightarrow> (hmem, unit, mem_error) op" where
  "ram_write_t r gpa val = ram_write r gpa val"

definition translate :: "ram \<Rightarrow> u64 \<Rightarrow> (u64, mem_error) outcome" where
  "translate r gpa = obind (ram_get_partial_slice r gpa 1) (\<lambda>s. Ok (fst s))"

definition op_result :: "('a, 'e) outcome \<times> 's \<Rightarrow> ('s, 'e) outcome" where
  "op_result rs = (case rs of (Ok _, s) \<Rightarrow> Ok s | (Err e, _) \<Rightarrow> Err e | (Panic, _) \<Rightarrow> Panic)"

definition push_slice :: "slice \<Rightarrow> (slice list, unit, mem_error) op" where
  "push_slice s slices = (Ok (), slices @ [s])"

definition translate_iov :: "ram \<Rightarrow> (u64 \<times> u64) list \<Rightarrow> (slice list, mem_error) outcome" where
  "translate_iov r iov = op_result
     (sforeach (\<lambda>(gpa, len). for_slices r push_slice (slice_iter gpa len)) iov [])"

definition translate_iov_mut :: "ram \<Rightarrow> (u64 \<times> u64) list \<Rightarrow> (slice list, mem_error) outcome" where
  "translate_iov_mut r iov = op_result
     (sforeach (\<lambda>(gpa, len). for_slices r push_slice (slice_iter_mut gpa len)) iov [])"

definition ram_iter :: "ram \<Rightarrow> (u64 \<times> pages) list" where
  "ram_iter r = addressable_iter (ram_inner r)"

text \<open>\<open>advise\<close> is the system call \<^verbatim>\<open>madvise\<close> on one host slice.\<close>

definition ram_madvise :: "(slice \<Rightarrow> ('w, unit, mem_error) op) \<Rightarrow> ram \<Rightarrow> u64 \<Rightarrow> u64
    \<Rightarrow> ('w, unit, mem_error) op" where
  "ram_madvise advise r gpa sz = for_slices r advise (slice_iter_mut gpa sz)"

section \<open>The bus\<close>

text \<open>
  \<^verbatim>\<open>RamBus\<close> guards the RAM with a lock; every method takes the lock for its whole body.
  \<open>write_all\<close> and \<open>read_exact\<close> stand for the caller's \<^verbatim>\<open>Write\<close> and \<^verbatim>\<open>Read\<close> objects, \<open>callback\<close>
  for the caller's closure.
\<close>

record ram_bus =
  bus_ram :: ram

definition ram_bus_new :: "ram_bus" where
  "ram_bus_new = \<lparr>bus_ram = \<lparr>ram_inner = addressable_new\<rparr>\<rparr>"

definition lock_layout :: "ram_bus \<Rightarrow> ram" where
  "lock_layout b = bus_ram b"

definition ram_bus_add :: "ram_bus \<Rightarrow> u64 \<Rightarrow> pages \<Rightarrow> (ram_bus, mem_error) outcome" where
  "ram_bus_add b gpa user_mem =
     obind (addressable_add p_size (ram_inner (bus_ram b)) gpa user_mem)
       (\<lambda>t. Ok (b\<lparr>bus_ram := (bus_ram b)\<lparr>ram_inner := t\<rparr>\<rparr>))"

definition ram_bus_remove :: "ram_bus \<Rightarrow> u64 \<Rightarrow> (pages \<times> ram_bus, mem_error) outcome" where
  "ram_bus_remove b gpa =
     obind (addressable_remove (ram_inner (bus_ram b)) gpa)
       (\<lambda>(p, t). Ok (p, b\<lparr>bus_ram := (bus_ram b)\<lparr>ram_inner := t\<rparr>\<rparr>))"

definition ram_bus_read :: "ram_bus \<Rightarrow> hmem \<Rightarrow> u64 \<Rightarrow> (u8 list, unit, mem_error) op" where
  "ram_bus_read b h gpa = ram_read (bus_ram b) h gpa"

definition ram_bus_write :: "ram_bus \<Rightarrow> u64 \<Rightarrow> u8 list \<Rightarrow> (hmem, unit, mem_error) op" where
  "ram_bus_write b gpa buf = ram_write (bus_ram b) gpa buf"

definition ram_bus_read_t :: "ram_bus \<Rightarrow> hmem \<Rightarrow> nat \<Rightarrow> u64 \<Rightarrow> (u8 list, mem_error) outcome" where
  "ram_bus_read_t b h sz gpa = ram_read_t (bus_ram b) h sz gpa"

definition ram_bus_write_t :: "ram_bus \<Rightarrow> u64 \<Rightarrow> u8 list \<Rightarrow> (hmem, unit, mem_error) op" where
  "ram_bus_write_t b gpa val = ram_write_t (bus_ram b) gpa val"

definition read_range :: "(u8 list \<Rightarrow> ('w, unit, mem_error) op) \<Rightarrow> ram_bus \<Rightarrow> hmem \<Rightarrow> u64 \<Rightarrow> u64
    \<Rightarrow> ('w, unit, mem_error) op" where
  "read_range write_all b h gpa len =
     for_slices (bus_ram b) (\<lambda>s. write_all (h_read h s)) (slice_iter gpa len)"

text \<open>\<open>read_exact n\<close> yields exactly \<open>n\<close> bytes or fails; the state is the source and host memory.\<close>

definition write_range :: "(nat \<Rightarrow> ('w, u8 list, mem_error) op) \<Rightarrow> ram_bus \<Rightarrow> u64 \<Rightarrow> u64
    \<Rightarrow> ('w \<times> hmem, unit, mem_error) op" where
  "write_range read_exact b gpa len =
     for_slices (bus_ram b) (\<lambda>s (w, h).
       case read_exact (unat (snd s)) w of
         (Ok bs, w') \<Rightarrow> (Ok (), (w', h_write h (fst s) bs))
       | (Err e, w') \<Rightarrow> (Err e, (w', h))
       | (Panic, w') \<Rightarrow> (Panic, (w', h))) (slice_iter_mut gpa len)"

definition read_vectored :: "ram_bus \<Rightarrow> (u64 \<times> u64) list \<Rightarrow> (slice list \<Rightarrow> 't)
    \<Rightarrow> ('t, mem_error) outcome" where
  "read_vectored b bufs callback = obind (op_result
     (sforeach (\<lambda>(gpa, len). for_slices (bus_ram b) push_slice (slice_iter gpa len)) bufs []))
     (\<lambda>iov. Ok (callback iov))"

definition write_vectored :: "ram_bus \<Rightarrow> (u64 \<times> u64) list \<Rightarrow> (slice list \<Rightarrow> 't)
    \<Rightarrow> ('t, mem_error) outcome" where
  "write_vectored b bufs callback = obind (op_result
     (sforeach (\<lambda>(gpa, len). for_slices (bus_ram b) push_slice (slice_iter_mut gpa len)) bufs []))
     (\<lambda>iov. Ok (callback iov))"

section \<open>Guest addresses and the host bytes behind them\<close>

text \<open>
  \<open>gaddr\<close> is the host address of a guest address, if it is mapped; \<open>gview\<close> is the guest's
  view of its memory. The invariant says that no mapping wraps around the host address
  space or exceeds \<^verbatim>\<open>isize::MAX\<close> bytes (as for every Rust slice), and that no host byte backs
  two guest addresses (each mapping is its own \<^verbatim>\<open>mmap\<close>).
\<close>

definition gaddr :: "ram \<Rightarrow> u64 \<Rightarrow> u64 option" where
  "gaddr r x = map_option (\<lambda>(start, p). p_addr p + (x - start))
     (addressable_search p_size (ram_inner r) x)"

definition gview :: "ram \<Rightarrow> hmem \<Rightarrow> u64 \<Rightarrow> u8 option" where
  "gview r h x = map_option h (gaddr r x)"

definition pages_ok :: "pages \<Rightarrow> bool" where
  "pages_ok p \<longleftrightarrow> unat (p_size p) < 2 ^ 63 \<and> unat (p_addr p) + unat (p_size p) \<le> 2 ^ 64"

definition host_disjoint :: "pages \<Rightarrow> pages \<Rightarrow> bool" where
  "host_disjoint p q \<longleftrightarrow> unat (p_addr p) + unat (p_size p) \<le> unat (p_addr q) \<or>
     unat (p_addr q) + unat (p_size q) \<le> unat (p_addr p)"

definition ram_inv :: "ram \<Rightarrow> bool" where
  "ram_inv r \<longleftrightarrow> addressable_inv p_size (ram_inner r) \<and>
     (\<forall>e \<in> set (ram_iter r). pages_ok (snd e) \<and>
        (\<forall>f \<in> set (ram_iter r). e \<noteq> f \<longrightarrow> host_disjoint (snd e) (snd f)))"

lemma gaddr_SomeE:
  assumes inv: "ram_inv r" and a: "gaddr r x = Some a"
  obtains start p where "(start, p) \<in> set (ram_iter r)" "covers p_size (start, p) x"
    "unat a = unat (p_addr p) + (unat x - unat start)" "unat a < unat (p_addr p) + unat (p_size p)"
proof -
  from a obtain start p where s: "addressable_search p_size (ram_inner r) x = Some (start, p)"
    and a': "a = p_addr p + (x - start)" by (auto simp: gaddr_def)
  have mem: "(start, p) \<in> set (ram_iter r)" and cov: "covers p_size (start, p) x"
    using search_iff[where t = "ram_inner r" and sz = p_size] inv s by (auto simp: ram_inv_def ram_iter_def)
  have off: "unat (x - start) = unat x - unat start" "unat x - unat start < unat (p_size p)"
    using cov by (auto simp: covers_def unat_minus_le word_le_nat_alt)
  have "pages_ok p" using inv mem by (force simp: ram_inv_def)
  then have "unat a = unat (p_addr p) + (unat x - unat start)"
    unfolding a' using off by (subst unat_plus_no_wrap) (auto simp: pages_ok_def)
  with off show thesis using that[OF mem cov] by simp
qed

lemma gaddr_inj:
  assumes inv: "ram_inv r" and "gaddr r x \<noteq> None" and eq: "gaddr r x = gaddr r y"
  shows "x = y"
proof -
  from assms(2) obtain a where a: "gaddr r x = Some a" by auto
  obtain s p where p: "(s, p) \<in> set (ram_iter r)" "covers p_size (s, p) x"
    "unat a = unat (p_addr p) + (unat x - unat s)" "unat a < unat (p_addr p) + unat (p_size p)"
    by (rule gaddr_SomeE[OF inv a])
  obtain t q where q: "(t, q) \<in> set (ram_iter r)" "covers p_size (t, q) y"
    "unat a = unat (p_addr q) + (unat y - unat t)" "unat a < unat (p_addr q) + unat (p_size q)"
    by (rule gaddr_SomeE[OF inv, of y a]) (use a eq in auto)
  have "\<not> host_disjoint p q" using p(3,4) q(3,4) by (auto simp: host_disjoint_def)
  then have same: "(s, p) = (t, q)" using inv p(1) q(1) by (force simp: ram_inv_def)
  then have "unat x - unat s = unat y - unat s" using p(3) q(3) by simp
  moreover have "unat s \<le> unat x" "unat s \<le> unat y"
    using p(2) q(2) same by (auto simp: covers_def)
  ultimately show ?thesis by (simp add: word_unat_eq_iff)
qed

definition slice_addrs :: "slice \<Rightarrow> u64 list" where
  "slice_addrs s = map (\<lambda>i. fst s + of_nat i) [0..<unat (snd s)]"

lemma h_read_addrs: "h_read h s = map h (slice_addrs s)"
  by (simp add: h_read_def slice_addrs_def)

lemma length_slice_addrs [simp]: "length (slice_addrs s) = unat (snd s)"
  by (simp add: slice_addrs_def)

lemma length_h_read [simp]: "length (h_read h s) = unat (snd s)"
  by (simp add: h_read_def)

lemma partial_slice_unmapped:
  "gaddr r gpa = None \<Longrightarrow> ram_get_partial_slice r gpa n = Err (NotMapped gpa)"
  by (auto simp: gaddr_def ram_get_partial_slice_def split: option.splits)

text \<open>
  On a mapped address the slice is non-empty for a non-empty request of less than \<open>2\<^sup>6\<^sup>3\<close>
  bytes, and its host addresses are those of consecutive guest addresses.
\<close>

lemma partial_slice_mapped:
  assumes inv: "ram_inv r" and mapped: "gaddr r gpa \<noteq> None"
    and n: "n \<noteq> 0" "unat n \<le> 2 ^ 63"
  obtains s where "ram_get_partial_slice r gpa n = Ok s" "0 < unat (snd s)" "unat (snd s) \<le> unat n"
    "\<And>i. i < unat (snd s) \<Longrightarrow> gaddr r (gpa + of_nat i) = Some (fst s + of_nat i)"
proof -
  from mapped obtain start p where s: "addressable_search p_size (ram_inner r) gpa = Some (start, p)"
    by (auto simp: gaddr_def)
  have tinv: "addressable_inv p_size (ram_inner r)" using inv by (simp add: ram_inv_def)
  have mem: "(start, p) \<in> set (addressable_iter (ram_inner r))" and cov: "covers p_size (start, p) gpa"
    using search_iff[OF tinv] s by auto
  have ok: "slot_ok p_size start p" by (rule inv_iter_ok[OF tinv mem])
  have small: "unat (p_size p) < 2 ^ 63" using inv mem by (force simp: ram_inv_def ram_iter_def pages_ok_def)
  let ?off = "gpa - start"
  have off: "unat ?off = unat gpa - unat start" "unat ?off < unat (p_size p)"
    using cov by (auto simp: covers_def unat_minus_le word_le_nat_alt)
  have nz: "0 < unat n" using n(1) by (simp add: unat_gt_0)
  have sum: "unat (?off + n) = unat ?off + unat n"
    using off(2) small n(2) by (intro unat_plus_no_wrap) simp
  have "?off + n \<noteq> 0" using sum nz by (metis add_is_0 not_gr_zero unat_0)
  then have e: "unat (?off + n - 1) = unat ?off + unat n - 1"
    using sum by (simp add: unat_minus_1)
  let ?s = "(p_addr p + ?off, min (p_size p - ?off) n)"
  have res: "ram_get_partial_slice r gpa n = Ok ?s"
    using s off e nz by (simp add: ram_get_partial_slice_def pages_get_partial_slice_def
        get_valid_range_def Let_def word_le_nat_alt word_less_nat_alt)
  have len: "unat (snd ?s) = min (unat (p_size p) - unat ?off) (unat n)"
    using off by (simp add: min_def word_le_nat_alt unat_minus_le)
  have addr: "gaddr r (gpa + of_nat i) = Some (fst ?s + of_nat i)" if "i < unat (snd ?s)" for i
  proof -
    have i: "i < unat (p_size p) - unat ?off" using that len by simp
    have bound: "unat gpa + i < 2 ^ 64"
      using i off ok cov by (auto simp: slot_ok_def covers_def)
    have "unat (of_nat i :: u64) = i" using bound by (simp add: unat_of_nat)
    then have "unat (gpa + of_nat i) = unat gpa + i"
      using bound by (subst unat_plus_no_wrap) auto
    then have "covers p_size (start, p) (gpa + of_nat i)"
      using i off cov by (auto simp: covers_def)
    then have "addressable_search p_size (ram_inner r) (gpa + of_nat i) = Some (start, p)"
      using search_iff[OF tinv] mem by blast
    then show ?thesis by (simp add: gaddr_def algebra_simps)
  qed
  show thesis
    by (rule that[OF res]) (use len off nz addr in \<open>auto\<close>)
qed

text \<open>The number of leading addresses of a guest range that are mapped.\<close>

fun mapped_len :: "ram \<Rightarrow> u64 \<Rightarrow> nat \<Rightarrow> nat" where
  "mapped_len r gpa 0 = 0"
| "mapped_len r gpa (Suc n) = (if gaddr r gpa = None then 0 else Suc (mapped_len r (gpa + 1) n))"

lemma mapped_len_le: "mapped_len r gpa n \<le> n"
  by (induction n arbitrary: gpa) auto

lemma mapped_len_mapped: "i < mapped_len r gpa n \<Longrightarrow> gaddr r (gpa + of_nat i) \<noteq> None"
proof (induction n arbitrary: gpa i)
  case (Suc n)
  show ?case
  proof (cases i)
    case 0
    then show ?thesis using Suc.prems by (auto split: if_splits)
  next
    case (Suc j)
    then show ?thesis using Suc.prems Suc.IH[of j "gpa + 1"] by (auto simp: algebra_simps split: if_splits)
  qed
qed simp

lemma mapped_len_split:
  assumes "m \<le> n" "\<And>i. i < m \<Longrightarrow> gaddr r (gpa + of_nat i) \<noteq> None"
  shows "mapped_len r gpa n = m + mapped_len r (gpa + of_nat m) (n - m)"
  using assms
proof (induction m arbitrary: gpa n)
  case (Suc m)
  then obtain n' where n: "n = Suc n'" by (cases n) auto
  have "gaddr r gpa \<noteq> None" using Suc.prems(2)[of 0] by simp
  moreover have "gaddr r (gpa + 1 + of_nat i) \<noteq> None" if "i < m" for i
    using Suc.prems(2)[of "Suc i"] that by (simp add: algebra_simps)
  then have "mapped_len r (gpa + 1) n' = m + mapped_len r (gpa + 1 + of_nat m) (n' - m)"
    using Suc.prems(1) n by (intro Suc.IH) auto
  ultimately show ?case by (simp add: n algebra_simps)
qed simp

lemma mapped_len_full: "mapped_len r gpa n = n \<longleftrightarrow> (\<forall>i<n. gaddr r (gpa + of_nat i) \<noteq> None)"
  using mapped_len_split[of n n r gpa] mapped_len_mapped[of _ r gpa n] by auto

lemma mapped_len_next:
  assumes "mapped_len r gpa n < n"
  shows "gaddr r (gpa + of_nat (mapped_len r gpa n)) = None"
proof (rule ccontr)
  let ?k = "mapped_len r gpa n"
  assume some: "gaddr r (gpa + of_nat ?k) \<noteq> None"
  have "\<And>i. i < Suc ?k \<Longrightarrow> gaddr r (gpa + of_nat i) \<noteq> None"
    using mapped_len_mapped[of _ r gpa n] some less_Suc_eq by blast
  then have "?k = Suc ?k + mapped_len r (gpa + of_nat (Suc ?k)) (n - Suc ?k)"
    using assms by (intro mapped_len_split) auto
  then show False by simp
qed

definition guest_addrs :: "ram \<Rightarrow> u64 \<Rightarrow> nat \<Rightarrow> u64 list" where
  "guest_addrs r gpa n = map (\<lambda>i. the (gaddr r (gpa + of_nat i))) [0..<n]"

lemma length_guest_addrs [simp]: "length (guest_addrs r gpa n) = n"
  by (simp add: guest_addrs_def)

lemma guest_addrs_add:
  "guest_addrs r gpa (m + n) = guest_addrs r gpa m @ guest_addrs r (gpa + of_nat m) n"
  by (rule nth_equalityI) (auto simp: guest_addrs_def nth_append algebra_simps)

text \<open>The slices a guest range is cut into, and how the walk over them ends.\<close>

function guest_slices :: "ram \<Rightarrow> slice_iter \<Rightarrow> slice list \<times> (unit, mem_error) outcome" where
  "guest_slices r it =
     (case iter_next r it of
        (None, _) \<Rightarrow> ([], Ok ())
      | (Some (Ok s), it') \<Rightarrow> (let (ss, res) = guest_slices r it' in (s # ss, res))
      | (Some (Err e), _) \<Rightarrow> ([], Err e)
      | (Some Panic, _) \<Rightarrow> ([], Panic))"
  by pat_completeness auto
termination
  by (relation "measure (\<lambda>(r, it). unat (it_remain it))") (auto dest!: iter_next_decreases[OF sym])

declare guest_slices.simps [simp del]

lemma guest_slices_step:
  "iter_next r it = (Some (Ok s), it') \<Longrightarrow>
   guest_slices r it = (s # fst (guest_slices r it'), snd (guest_slices r it'))"
  by (simp add: guest_slices.simps[of r it] split: prod.splits)

lemma guest_slices_stop:
  "iter_next r it = (None, it') \<Longrightarrow> guest_slices r it = ([], Ok ())"
  "iter_next r it = (Some (Err e), it') \<Longrightarrow> guest_slices r it = ([], Err e)"
  "iter_next r it = (Some Panic, it') \<Longrightarrow> guest_slices r it = ([], Panic)"
  by (simp_all add: guest_slices.simps[of r it])

lemma for_slices_eq:
  "for_slices r body it st =
     (case sforeach body (fst (guest_slices r it)) st of
        (Ok _, st') \<Rightarrow> (snd (guest_slices r it), st')
      | (Err e, st') \<Rightarrow> (Err e, st')
      | (Panic, st') \<Rightarrow> (Panic, st'))"
proof (induction r body it st rule: for_slices.induct)
  case (1 r body it st)
  show ?case
  proof (cases "iter_next r it")
    case (Pair res it')
    show ?thesis
    proof (cases res)
      case None
      with Pair show ?thesis by (simp add: for_slices.simps[of r body it st] guest_slices_stop guest_slices_step)
    next
      case (Some o1)
      show ?thesis
      proof (cases o1)
        case (Ok s)
        obtain rb st' where b: "body s st = (rb, st')" by fastforce
        show ?thesis
        proof (cases rb)
          case rb: (Ok u)
          with b have b: "body s st = (Ok (), st')" by simp
          have IH: "for_slices r body it' st' =
            (case sforeach body (fst (guest_slices r it')) st' of
               (Ok _, st'') \<Rightarrow> (snd (guest_slices r it'), st'')
             | (Err e, st'') \<Rightarrow> (Err e, st'')
             | (Panic, st'') \<Rightarrow> (Panic, st''))"
            using "1.IH"[of res it' o1 s "Ok ()" st' "()"] Pair Some Ok b by simp
          have nx: "iter_next r it = (Some (Ok s), it')" using Pair Some Ok by simp
          show ?thesis
            unfolding guest_slices_step[OF nx] fst_conv snd_conv using nx b IH
            by (simp add: for_slices.simps[of r body it st])
        qed (use Pair Some Ok b in \<open>simp_all add: for_slices.simps[of r body it st]
              guest_slices_stop guest_slices_step\<close>)
      qed (use Pair Some in \<open>simp_all add: for_slices.simps[of r body it st]
              guest_slices_stop guest_slices_step\<close>)
    qed
  qed
qed

lemma guest_slices_spec:
  assumes inv: "ram_inv r" and n: "unat n \<le> 2 ^ 63"
  shows "concat (map slice_addrs (fst (guest_slices r (slice_iter gpa n)))) =
      guest_addrs r gpa (mapped_len r gpa (unat n)) \<and>
    snd (guest_slices r (slice_iter gpa n)) =
      (if mapped_len r gpa (unat n) = unat n then Ok ()
       else Err (NotMapped (gpa + of_nat (mapped_len r gpa (unat n)))))"
  using n
proof (induction "unat n" arbitrary: gpa n rule: less_induct)
  case less
  show ?case
  proof (cases "n = 0")
    case True
    then show ?thesis
      by (simp add: guest_slices_stop iter_next_def slice_iter_def guest_addrs_def)
  next
    case nz: False
    show ?thesis
    proof (cases "gaddr r gpa")
      case None
      have "mapped_len r gpa (unat n) = 0" using None by (cases "unat n") auto
      moreover have "unat n \<noteq> 0" using nz by (simp add: unat_eq_0)
      ultimately show ?thesis
        using nz partial_slice_unmapped[OF None, of n]
        by (simp add: guest_slices_stop iter_next_def slice_iter_def guest_addrs_def)
    next
      case (Some a)
      then have mapped: "gaddr r gpa \<noteq> None" by simp
      obtain s where s: "ram_get_partial_slice r gpa n = Ok s" "0 < unat (snd s)"
        "unat (snd s) \<le> unat n"
        "\<And>i. i < unat (snd s) \<Longrightarrow> gaddr r (gpa + of_nat i) = Some (fst s + of_nat i)"
        using partial_slice_mapped[OF inv mapped nz less.prems] by blast
      let ?l = "unat (snd s)" and ?gpa = "gpa + snd s" and ?n = "n - snd s"
      have n': "unat ?n = unat n - ?l" using s(3) by (simp add: unat_minus_le word_le_nat_alt)
      have split: "mapped_len r gpa (unat n) = ?l + mapped_len r ?gpa (unat ?n)"
        using mapped_len_split[of ?l "unat n" r gpa] s(3,4) n' by simp
      have addrs: "slice_addrs s = guest_addrs r gpa ?l"
        using s(4) by (auto simp: slice_addrs_def guest_addrs_def)
      have step: "guest_slices r (slice_iter gpa n) =
          (s # fst (guest_slices r (slice_iter ?gpa ?n)), snd (guest_slices r (slice_iter ?gpa ?n)))"
        using nz s(1) by (simp add: guest_slices_step iter_next_def slice_iter_def)
      have IH: "concat (map slice_addrs (fst (guest_slices r (slice_iter ?gpa ?n)))) =
          guest_addrs r ?gpa (mapped_len r ?gpa (unat ?n)) \<and>
        snd (guest_slices r (slice_iter ?gpa ?n)) =
          (if mapped_len r ?gpa (unat ?n) = unat ?n then Ok ()
           else Err (NotMapped (?gpa + of_nat (mapped_len r ?gpa (unat ?n)))))"
        using less.prems s(2,3) n' by (intro less.hyps) auto
      show ?thesis
        using IH s(3) n' unfolding step split
        by (auto simp: addrs guest_addrs_add algebra_simps)
    qed
  qed
qed

lemma sforeach_copy_into:
  assumes "cur + length (concat (map slice_addrs ss)) \<le> length buf"
  shows "sforeach (copy_into h) ss (buf, cur) =
    (Ok (), (take cur buf @ map h (concat (map slice_addrs ss)) @
             drop (cur + length (concat (map slice_addrs ss))) buf,
           cur + length (concat (map slice_addrs ss))))"
  using assms
proof (induction ss arbitrary: buf cur)
  case (Cons s ss)
  let ?l = "unat (snd s)"
  let ?buf = "take cur buf @ h_read h s @ drop (cur + ?l) buf"
  have step: "copy_into h s (buf, cur) = (Ok (), (?buf, cur + ?l))"
    using Cons.prems by (simp add: copy_into_def Let_def)
  have len: "length ?buf = length buf" using Cons.prems by simp
  have "take (cur + ?l) ?buf = take cur buf @ h_read h s" using Cons.prems by simp
  moreover have "drop (cur + ?l + n) ?buf = drop (cur + ?l + n) buf" for n
    using Cons.prems by (simp add: drop_append add.commute)
  ultimately show ?case
    using Cons.IH[of "cur + ?l" ?buf] Cons.prems len step
    by (simp add: h_read_addrs add.assoc)
qed simp

text \<open>Memory after storing bytes at a list of distinct addresses.\<close>

definition store_at :: "hmem \<Rightarrow> u64 list \<Rightarrow> u8 list \<Rightarrow> hmem" where
  "store_at h as bs = (\<lambda>x. case map_of (zip as bs) x of Some b \<Rightarrow> b | None \<Rightarrow> h x)"

lemma store_at_Nil [simp]: "store_at h [] bs = h"
  by (simp add: store_at_def)

lemma store_at_notin: "x \<notin> set as \<Longrightarrow> store_at h as bs x = h x"
proof -
  assume "x \<notin> set as"
  then have "map_of (zip as bs) x = None"
    unfolding map_of_eq_None_iff by (auto dest: set_zip_leftD)
  then show ?thesis unfolding store_at_def by (simp only: option.case)
qed

lemma store_at_nth:
  assumes "distinct as" "length bs = length as" "i < length as"
  shows "store_at h as bs (as ! i) = bs ! i"
  using map_of_zip_nth[of as bs i] assms by (simp add: store_at_def)

lemma store_at_append:
  assumes "distinct (as @ as')" "length as = length bs" "length as' = length bs'"
  shows "store_at (store_at h as bs) as' bs' = store_at h (as @ as') (bs @ bs')"
proof
  fix x
  consider i where "i < length as" "x = as ! i" | i where "i < length as'" "x = as' ! i"
    | "x \<notin> set as" "x \<notin> set as'"
    by (metis in_set_conv_nth)
  then show "store_at (store_at h as bs) as' bs' x = store_at h (as @ as') (bs @ bs') x"
  proof cases
    case (1 i)
    then have "x \<notin> set as'" using assms(1) by (auto dest: nth_mem)
    then show ?thesis
      using 1 assms store_at_nth[of "as @ as'" "bs @ bs'" i h] store_at_nth[of as bs i h]
      by (simp add: store_at_notin nth_append)
  next
    case (2 i)
    then have "(as @ as') ! (length as + i) = x" "(bs @ bs') ! (length as + i) = bs' ! i"
      using assms(2) by (simp_all add: nth_append)
    then show ?thesis
      using 2 assms store_at_nth[of "as @ as'" "bs @ bs'" "length as + i" h]
        store_at_nth[of as' bs' i "store_at h as bs"]
      by simp
  qed (simp add: store_at_notin)
qed

lemma slice_addrs_nth_iff:
  "x \<in> set (slice_addrs s) \<longleftrightarrow> unat (x - fst s) < unat (snd s)"
proof
  assume "x \<in> set (slice_addrs s)"
  then obtain i where i: "i < unat (snd s)" "x = fst s + of_nat i" by (auto simp: slice_addrs_def)
  then have "unat (of_nat i :: u64) = i"
    using unat_less_u64[of "snd s"] by (simp add: unat_of_nat_u64)
  with i show "unat (x - fst s) < unat (snd s)" by simp
next
  assume "unat (x - fst s) < unat (snd s)"
  then show "x \<in> set (slice_addrs s)"
    by (auto simp: slice_addrs_def intro!: image_eqI[of _ _ "unat (x - fst s)"])
qed

lemma distinct_slice_addrs: "distinct (slice_addrs s)"
proof -
  have "inj_on (\<lambda>i. fst s + of_nat i :: u64) {0..<unat (snd s)}"
  proof (rule inj_onI)
    fix i j assume "i \<in> {0..<unat (snd s)}" "j \<in> {0..<unat (snd s)}"
      "fst s + of_nat i = fst s + (of_nat j :: u64)"
    then have "(of_nat i :: u64) = of_nat j" "i < 2 ^ 64" "j < 2 ^ 64"
      using unat_less_u64[of "snd s"] by auto
    then show "i = j" by (metis unat_of_nat_u64)
  qed
  then show ?thesis by (simp add: slice_addrs_def distinct_map)
qed

lemma h_write_store_at:
  assumes "length bs = unat (snd s)"
  shows "h_write h (fst s) bs = store_at h (slice_addrs s) bs"
proof
  fix x
  let ?i = "unat (x - fst s)"
  show "h_write h (fst s) bs x = store_at h (slice_addrs s) bs x"
  proof (cases "?i < unat (snd s)")
    case True
    then have "slice_addrs s ! ?i = x" by (simp add: slice_addrs_def)
    then show ?thesis
      using True assms store_at_nth[OF distinct_slice_addrs[of s], of bs ?i h]
      by (simp add: h_write_def)
  next
    case False
    then show ?thesis
      using assms slice_addrs_nth_iff[of x s] by (simp add: h_write_def store_at_notin)
  qed
qed

lemma sforeach_copy_from:
  assumes "cur + length (concat (map slice_addrs ss)) \<le> length buf"
    and "distinct (concat (map slice_addrs ss))"
  shows "sforeach (copy_from buf) ss (h, cur) =
    (Ok (), (store_at h (concat (map slice_addrs ss)) (take (length (concat (map slice_addrs ss))) (drop cur buf)),
           cur + length (concat (map slice_addrs ss))))"
  using assms
proof (induction ss arbitrary: h cur)
  case (Cons s ss)
  let ?l = "unat (snd s)" and ?as = "concat (map slice_addrs ss)"
  let ?h = "store_at h (slice_addrs s) (take ?l (drop cur buf))"
  have step: "copy_from buf s (h, cur) = (Ok (), (?h, cur + ?l))"
    using Cons.prems(1) h_write_store_at[of "take ?l (drop cur buf)" s h]
    by (simp add: copy_from_def Let_def)
  have bytes: "take (?l + length ?as) (drop cur buf) =
      take ?l (drop cur buf) @ take (length ?as) (drop (cur + ?l) buf)"
    by (simp add: take_add add.commute)
  have "store_at ?h ?as (take (length ?as) (drop (cur + ?l) buf)) =
      store_at h (slice_addrs s @ ?as) (take (?l + length ?as) (drop cur buf))"
    unfolding bytes using Cons.prems by (intro store_at_append) auto
  then show ?case
    using Cons.IH[of "cur + ?l" ?h] Cons.prems step by (simp add: add.assoc)
qed simp

section \<open>What reads and writes do to the guest's view\<close>

lemma partial_slice_full:
  assumes inv: "ram_inv r" and n: "n \<noteq> 0" "unat n \<le> 2 ^ 63"
    and s: "ram_get_partial_slice r gpa n = Ok s" "unat (snd s) = unat n"
  shows "mapped_len r gpa (unat n) = unat n \<and> slice_addrs s = guest_addrs r gpa (unat n)"
proof -
  have mapped: "gaddr r gpa \<noteq> None" using partial_slice_unmapped s(1) by fastforce
  obtain s' where s': "ram_get_partial_slice r gpa n = Ok s'"
    "\<And>i. i < unat (snd s') \<Longrightarrow> gaddr r (gpa + of_nat i) = Some (fst s' + of_nat i)"
    using partial_slice_mapped[OF inv mapped n] by metis
  then have addr: "\<And>i. i < unat n \<Longrightarrow> gaddr r (gpa + of_nat i) = Some (fst s + of_nat i)"
    using s by auto
  then show ?thesis
    using s(2) by (auto simp: mapped_len_full slice_addrs_def guest_addrs_def)
qed

lemma ram_read_eq:
  assumes inv: "ram_inv r" and buf: "buf \<noteq> []" "length buf \<le> 2 ^ 63"
  shows "ram_read r h gpa buf =
    (let k = mapped_len r gpa (length buf)
     in (if k = length buf then Ok () else Err (NotMapped (gpa + of_nat k)),
         map h (guest_addrs r gpa k) @ drop k buf))"
proof -
  let ?n = "of_nat (length buf) :: u64" and ?k = "mapped_len r gpa (length buf)"
  have n: "unat ?n = length buf" "?n \<noteq> 0" "unat ?n \<le> 2 ^ 63"
    using buf unat_of_nat_u64[of "length buf"] by (auto simp: unat_eq_0[symmetric])
  show ?thesis
  proof (cases "gaddr r gpa")
    case None
    have "?k = 0" using None buf(1) by (cases "length buf") auto
    then show ?thesis
      using partial_slice_unmapped[OF None] buf by (simp add: ram_read_def guest_addrs_def)
  next
    case (Some a)
    then obtain s where s: "ram_get_partial_slice r gpa ?n = Ok s"
      using partial_slice_mapped[OF inv _ n(2,3), of gpa] by blast
    show ?thesis
    proof (cases "unat (snd s) = length buf")
      case True
      then show ?thesis
        using partial_slice_full[OF inv n(2,3) s] s n(1)
        by (simp add: ram_read_def h_read_addrs)
    next
      case False
      let ?ss = "fst (guest_slices r (slice_iter gpa ?n))"
      have spec: "concat (map slice_addrs ?ss) = guest_addrs r gpa ?k"
        "snd (guest_slices r (slice_iter gpa ?n)) =
          (if ?k = length buf then Ok () else Err (NotMapped (gpa + of_nat ?k)))"
        using guest_slices_spec[OF inv n(3), of gpa] n(1) by auto
      have "sforeach (copy_into h) ?ss (buf, 0) =
          (Ok (), (map h (guest_addrs r gpa ?k) @ drop ?k buf, ?k))"
        using sforeach_copy_into[of 0 ?ss buf h] mapped_len_le[of r gpa "length buf"]
        by (simp add: spec(1))
      then show ?thesis
        using s False spec(2) by (simp add: ram_read_def for_slices_eq Let_def)
    qed
  qed
qed

lemma distinct_guest_addrs:
  assumes inv: "ram_inv r" and n: "n \<le> 2 ^ 63" and "\<And>i. i < n \<Longrightarrow> gaddr r (gpa + of_nat i) \<noteq> None"
  shows "distinct (guest_addrs r gpa n)"
proof -
  have "inj_on (\<lambda>i. the (gaddr r (gpa + of_nat i))) {0..<n}"
  proof (rule inj_onI)
    fix i j assume ij: "i \<in> {0..<n}" "j \<in> {0..<n}"
      and eq: "the (gaddr r (gpa + of_nat i)) = the (gaddr r (gpa + of_nat j))"
    then have "gaddr r (gpa + of_nat i) = gaddr r (gpa + of_nat j)"
      using assms(3)[of i] assms(3)[of j] by auto
    then have "gpa + of_nat i = gpa + of_nat j"
      using gaddr_inj[OF inv, of "gpa + of_nat i" "gpa + of_nat j"] assms(3)[of i] ij by simp
    then have "(of_nat i :: u64) = of_nat j" by simp
    moreover have "i < 2 ^ 64" "j < 2 ^ 64" using ij n by auto
    ultimately show "i = j" by (metis unat_of_nat_u64)
  qed
  then show ?thesis by (simp add: guest_addrs_def distinct_map)
qed

lemma ram_write_eq:
  assumes inv: "ram_inv r" and buf: "buf \<noteq> []" "length buf \<le> 2 ^ 63"
  shows "ram_write r gpa buf h =
    (let k = mapped_len r gpa (length buf)
     in (if k = length buf then Ok () else Err (NotMapped (gpa + of_nat k)),
         store_at h (guest_addrs r gpa k) (take k buf)))"
proof -
  let ?n = "of_nat (length buf) :: u64" and ?k = "mapped_len r gpa (length buf)"
  have n: "unat ?n = length buf" "?n \<noteq> 0" "unat ?n \<le> 2 ^ 63"
    using buf unat_of_nat_u64[of "length buf"] by (auto simp: unat_eq_0[symmetric])
  show ?thesis
  proof (cases "gaddr r gpa")
    case None
    have "?k = 0" using None buf(1) by (cases "length buf") auto
    then show ?thesis
      using partial_slice_unmapped[OF None] buf by (simp add: ram_write_def guest_addrs_def)
  next
    case (Some a)
    then obtain s where s: "ram_get_partial_slice r gpa ?n = Ok s"
      using partial_slice_mapped[OF inv _ n(2,3), of gpa] by blast
    show ?thesis
    proof (cases "unat (snd s) = length buf")
      case True
      then show ?thesis
        using partial_slice_full[OF inv n(2,3) s] s n(1) h_write_store_at[of buf s h]
        by (simp add: ram_write_def)
    next
      case False
      let ?ss = "fst (guest_slices r (slice_iter gpa ?n))"
      have spec: "concat (map slice_addrs ?ss) = guest_addrs r gpa ?k"
        "snd (guest_slices r (slice_iter gpa ?n)) =
          (if ?k = length buf then Ok () else Err (NotMapped (gpa + of_nat ?k)))"
        using guest_slices_spec[OF inv n(3), of gpa] n(1) by auto
      have le: "?k \<le> length buf" by (rule mapped_len_le)
      have "distinct (guest_addrs r gpa ?k)"
        using le buf(2) mapped_len_mapped[of _ r gpa "length buf"]
        by (intro distinct_guest_addrs[OF inv]) simp_all
      then have "sforeach (copy_from buf) ?ss (h, 0) =
          (Ok (), (store_at h (guest_addrs r gpa ?k) (take ?k buf), ?k))"
        using sforeach_copy_from[of 0 ?ss buf h] le by (simp add: spec(1))
      then show ?thesis
        using s False spec(2)
        by (simp add: ram_write_def for_slices_eq Let_def slice_iter_mut_def slice_iter_def)
    qed
  qed
qed

lemma gview_nth:
  "i < k \<Longrightarrow> gaddr r (gpa + of_nat i) \<noteq> None \<Longrightarrow>
   gview r h (gpa + of_nat i) = Some (h (guest_addrs r gpa k ! i))"
  by (auto simp: gview_def guest_addrs_def)

lemma gview_store_at:
  assumes inv: "ram_inv r" and k: "k \<le> 2 ^ 63" "length bs = k"
    and mapped: "\<And>i. i < k \<Longrightarrow> gaddr r (gpa + of_nat i) \<noteq> None"
  shows "gview r (store_at h (guest_addrs r gpa k) bs) x =
    (if unat (x - gpa) < k then Some (bs ! unat (x - gpa)) else gview r h x)"
proof (cases "unat (x - gpa) < k")
  case True
  let ?i = "unat (x - gpa)"
  have x: "x = gpa + of_nat ?i" by simp
  have a: "gaddr r x = Some (guest_addrs r gpa k ! ?i)"
    using mapped[OF True] True by (auto simp: guest_addrs_def)
  have "distinct (guest_addrs r gpa k)" by (rule distinct_guest_addrs[OF inv k(1) mapped])
  then show ?thesis
    using a True k store_at_nth[of "guest_addrs r gpa k" bs ?i h] by (simp add: gview_def)
next
  case False
  show ?thesis
  proof (cases "gaddr r x")
    case None
    then show ?thesis using False by (simp add: gview_def)
  next
    case (Some a)
    have "a \<notin> set (guest_addrs r gpa k)"
    proof
      assume "a \<in> set (guest_addrs r gpa k)"
      then obtain i where i: "i < k" "a = the (gaddr r (gpa + of_nat i))"
        by (auto simp: guest_addrs_def)
      then have "gaddr r (gpa + of_nat i) = gaddr r x" using mapped[OF i(1)] Some by auto
      then have "x = gpa + of_nat i" using gaddr_inj[OF inv mapped[OF i(1)]] by simp
      then have "unat (x - gpa) = i" using i(1) k(1) by (simp add: unat_of_nat_u64)
      with False i(1) show False by simp
    qed
    then show ?thesis using Some False by (simp add: gview_def store_at_notin)
  qed
qed

section \<open>A sample\<close>

text \<open>Two mappings adjacent in the guest and far apart in the host.\<close>

definition two_maps :: ram where
  "two_maps = \<lparr>ram_inner = \<lparr>slots =
     [\<lparr>s_addr = 0x1000, s_backend = \<lparr>p_addr = 0x7000, p_size = 4, p_fd = None\<rparr>\<rparr>,
      \<lparr>s_addr = 0x1004, s_backend = \<lparr>p_addr = 0x5000, p_size = 4, p_fd = None\<rparr>\<rparr>]\<rparr>\<rparr>"

lemma two_maps_inv: "ram_inv two_maps"
  by (simp add: ram_inv_def two_maps_def table_eval ram_iter_def addressable_iter_def
      pages_ok_def host_disjoint_def)

section \<open>Properties\<close>

text \<open>
  C8. A read of a non-empty buffer is exactly a read of the guest's view of memory, over any
  number of adjacent mappings: it succeeds when every address is mapped and then fills the
  whole buffer with the guest's bytes; otherwise it reports the first unmapped address, with
  the bytes before it filled in and the rest of the buffer untouched. It never panics.
\<close>

theorem ram_read_is_guest_view:
  assumes "ram_inv r" and "buf \<noteq> []" and "length buf \<le> 2 ^ 63"
  shows "case ram_read r h gpa buf of
      (Ok _, buf') \<Rightarrow> length buf' = length buf \<and>
        (\<forall>i < length buf. gview r h (gpa + of_nat i) = Some (buf' ! i))
    | (Err e, buf') \<Rightarrow> (\<exists>k < length buf. e = NotMapped (gpa + of_nat k) \<and>
        gview r h (gpa + of_nat k) = None \<and> length buf' = length buf \<and>
        (\<forall>i < k. gview r h (gpa + of_nat i) = Some (buf' ! i)) \<and> drop k buf' = drop k buf)
    | (Panic, _) \<Rightarrow> False"
proof -
  let ?k = "mapped_len r gpa (length buf)"
  have le: "?k \<le> length buf" by (rule mapped_len_le)
  have mapped: "gview r h (gpa + of_nat i) = Some (h (guest_addrs r gpa ?k ! i))" if "i < ?k" for i
    using gview_nth[OF that] mapped_len_mapped[OF that] by simp
  show ?thesis
  proof (cases "?k = length buf")
    case True
    then show ?thesis using ram_read_eq[OF assms, of h gpa] mapped by simp
  next
    case False
    then have "gaddr r (gpa + of_nat ?k) = None" using le by (simp add: mapped_len_next)
    then have "gview r h (gpa + of_nat ?k) = None" by (simp add: gview_def)
    moreover have "?k < length buf" using False le by simp
    ultimately show ?thesis
      using ram_read_eq[OF assms, of h gpa] mapped False
      by (auto simp: Let_def nth_append intro!: exI[of _ ?k])
  qed
qed

theorem ram_read_is_guest_view_witness:
  "ram_inv two_maps \<and>
   (case ram_read two_maps (\<lambda>a. ucast a + 1) 0x1002 [0, 0, 0, 0] of
      (Ok _, buf') \<Rightarrow> length buf' = length [0, 0, 0, 0 :: u8] \<and>
        (\<forall>i < length [0, 0, 0, 0 :: u8]. gview two_maps (\<lambda>a. ucast a + 1) (0x1002 + of_nat i) = Some (buf' ! i))
    | (Err e, buf') \<Rightarrow> (\<exists>k < length [0, 0, 0, 0 :: u8]. e = NotMapped (0x1002 + of_nat k) \<and>
        gview two_maps (\<lambda>a. ucast a + 1) (0x1002 + of_nat k) = None \<and> length buf' = length [0, 0, 0, 0 :: u8] \<and>
        (\<forall>i < k. gview two_maps (\<lambda>a. ucast a + 1) (0x1002 + of_nat i) = Some (buf' ! i)) \<and>
        drop k buf' = drop k [0, 0, 0, 0])
    | (Panic, _) \<Rightarrow> False)"
  by (intro conjI two_maps_inv ram_read_is_guest_view) simp_all

text \<open>
  C7. A write changes the guest's view exactly on the addresses of the range that come before
  the first unmapped one, to the bytes of the buffer, and nowhere else; it succeeds when the
  whole range is mapped and otherwise reports the first unmapped address.
\<close>

theorem ram_write_updates_guest_view:
  assumes "ram_inv r" and "buf \<noteq> []" and "length buf \<le> 2 ^ 63"
    and "ram_write r gpa buf h = (res, h')"
  shows "\<exists>k \<le> length buf.
    res = (if k = length buf then Ok () else Err (NotMapped (gpa + of_nat k))) \<and>
    (k < length buf \<longrightarrow> gview r h (gpa + of_nat k) = None) \<and>
    (\<forall>x. gview r h' x =
       (if unat (x - gpa) < k then Some (buf ! unat (x - gpa)) else gview r h x))"
proof -
  let ?k = "mapped_len r gpa (length buf)"
  have le: "?k \<le> length buf" by (rule mapped_len_le)
  have res: "res = (if ?k = length buf then Ok () else Err (NotMapped (gpa + of_nat ?k)))"
    and h': "h' = store_at h (guest_addrs r gpa ?k) (take ?k buf)"
    using ram_write_eq[OF assms(1-3), of gpa h] assms(4) by (auto simp: Let_def)
  have "gview r h (gpa + of_nat ?k) = None" if "?k < length buf"
    using mapped_len_next[OF that] by (simp add: gview_def)
  moreover have "gview r h' x =
      (if unat (x - gpa) < ?k then Some (buf ! unat (x - gpa)) else gview r h x)" for x
    unfolding h'
    using gview_store_at[OF assms(1), of ?k "take ?k buf" gpa h x] le assms(3)
      mapped_len_mapped[of _ r gpa "length buf"] by simp
  ultimately show ?thesis using res le by blast
qed

theorem ram_write_updates_guest_view_witness:
  "\<exists>k \<le> length [1, 2, 3, 4 :: u8].
    fst (ram_write two_maps 0x1006 [1, 2, 3, 4] (\<lambda>_. 0)) =
      (if k = length [1, 2, 3, 4 :: u8] then Ok () else Err (NotMapped (0x1006 + of_nat k))) \<and>
    (k < length [1, 2, 3, 4 :: u8] \<longrightarrow> gview two_maps (\<lambda>_. 0) (0x1006 + of_nat k) = None) \<and>
    (\<forall>x. gview two_maps (snd (ram_write two_maps 0x1006 [1, 2, 3, 4] (\<lambda>_. 0))) x =
       (if unat (x - 0x1006) < k then Some ([1, 2, 3, 4] ! unat (x - 0x1006))
        else gview two_maps (\<lambda>_. 0) x))"
  by (rule ram_write_updates_guest_view[OF two_maps_inv]) simp_all

end
