(* ===== verification/Guest_Memory.thy ===== *)
theory Guest_Memory
  imports Mmio_Bus Guest_Ram
begin

text \<open>
  \<^verbatim>\<open>alioth/src/mem/mem.rs\<close>: the guest's memory map. Regions are kept in an address table; adding
  a region puts its emulated ranges on the MMIO bus and its RAM ranges on the RAM bus and into
  the hypervisor's second-level mapping, and tells the registered callbacks.

  The hypervisor (\<^verbatim>\<open>VmMemory\<close>) and the callbacks are trait objects: handles whose methods are
  the fields of \<open>mem_env\<close> and act on the world \<open>'w\<close>. Every method of \<^verbatim>\<open>Memory\<close> holds the locks of
  the tables it changes, so a method is one step on the pair of \<open>memory\<close> and world. The
  model is of the x86-64 build, where ports have a bus of their own.
\<close>

section \<open>Data\<close>

datatype 'd mem_range = RamRange pages | DevMem pages | Emulated 'd | Span u64

datatype mem_region_type = RegHidden | RegRam | RegReserved | RegAcpi | RegPmem

record mem_region_entry =
  entry_size :: u64
  entry_type :: mem_region_type

text \<open>\<open>'k\<close> is the type of \<^verbatim>\<open>MemRegionCallback\<close> handles.\<close>

record ('d, 'k) mem_region =
  ranges :: "'d mem_range list"
  entries :: "mem_region_entry list"
  region_callbacks :: "'k list"

record ('d, 'k) io_region =
  io_range :: 'd
  io_callbacks :: "'k list"

text \<open>
  The methods of the trait objects: the hypervisor's \<^verbatim>\<open>VmMemory\<close>, \<^verbatim>\<open>LayoutChanged\<close> (handles
  \<open>'l\<close>), \<^verbatim>\<open>LayoutUpdated\<close> (handles \<open>'u\<close>) and \<^verbatim>\<open>MemRegionCallback\<close> (handles \<open>'k\<close>).
\<close>

record ('d, 'w, 'c, 'k, 'l, 'u) mem_env = "('d, 'w, 'c) mmio_ops" +
  vm_mem_map :: "u64 \<Rightarrow> u64 \<Rightarrow> u64 \<Rightarrow> mem_map_option \<Rightarrow> ('w, unit, mem_error) op"
  vm_unmap :: "u64 \<Rightarrow> u64 \<Rightarrow> ('w, unit, mem_error) op"
  vm_reset :: "('w, unit, mem_error) op"
  vm_register_encrypted_range :: "slice \<Rightarrow> ('w, unit, mem_error) op"
  vm_deregister_encrypted_range :: "slice \<Rightarrow> ('w, unit, mem_error) op"
  vm_mark_private_memory :: "u64 \<Rightarrow> u64 \<Rightarrow> bool \<Rightarrow> ('w, unit, mem_error) op"
  cb_ram_added :: "'l \<Rightarrow> u64 \<Rightarrow> pages \<Rightarrow> ('w, unit, mem_error) op"
  cb_ram_removed :: "'l \<Rightarrow> u64 \<Rightarrow> pages \<Rightarrow> ('w, unit, mem_error) op"
  cb_ram_updated :: "'u \<Rightarrow> ram \<Rightarrow> ('w, unit, mem_error) op"
  cb_mapped :: "'k \<Rightarrow> u64 \<Rightarrow> ('w, unit, mem_error) op"
  cb_unmapped :: "'k \<Rightarrow> ('w, unit, mem_error) op"

record ('d, 'k, 'l, 'u) memory =
  regions :: "('d, 'k) mem_region addressable"
  cbs_changed :: "'l list"
  cbs_updated :: "'u list"
  mem_ram_bus :: ram_bus
  mem_mmio_bus :: "'d mmio_bus"
  mem_io_bus :: "'d mmio_bus"
  io_regions :: "('d, 'k) io_region addressable"

section \<open>Ranges and regions\<close>

definition range_size :: "('d, 'w, 'c, 'z) mmio_ops_scheme \<Rightarrow> 'd mem_range \<Rightarrow> u64" where
  "range_size env r = (case r of
      RamRange p \<Rightarrow> p_size p | DevMem p \<Rightarrow> p_size p | Emulated d \<Rightarrow> mmio_size env d | Span n \<Rightarrow> n)"

definition region_size :: "('d, 'k) mem_region \<Rightarrow> u64" where
  "region_size region = foldl (\<lambda>accu e. accu + entry_size e) 0 (entries region)"

definition with_ram :: "pages \<Rightarrow> mem_region_type \<Rightarrow> ('d, 'k) mem_region" where
  "with_ram p ty = \<lparr>ranges = [RamRange p],
     entries = [\<lparr>entry_size = p_size p, entry_type = ty\<rparr>], region_callbacks = []\<rparr>"

definition with_dev_mem :: "pages \<Rightarrow> mem_region_type \<Rightarrow> ('d, 'k) mem_region" where
  "with_dev_mem p ty = \<lparr>ranges = [DevMem p],
     entries = [\<lparr>entry_size = p_size p, entry_type = ty\<rparr>], region_callbacks = []\<rparr>"

definition with_emulated :: "('d, 'w, 'c, 'z) mmio_ops_scheme \<Rightarrow> 'd \<Rightarrow> mem_region_type
    \<Rightarrow> ('d, 'k) mem_region" where
  "with_emulated env d ty = \<lparr>ranges = [Emulated d],
     entries = [\<lparr>entry_size = mmio_size env d, entry_type = ty\<rparr>], region_callbacks = []\<rparr>"

definition validate :: "('d, 'w, 'c, 'z) mmio_ops_scheme \<Rightarrow> ('d, 'k) mem_region
    \<Rightarrow> (unit, mem_error) outcome" where
  "validate env region =
     (let entries_size = region_size region;
          ranges_size = foldl (\<lambda>accu r. accu + range_size env r) 0 (ranges region)
      in if entries_size < ranges_size then Err (BackendTooBig ranges_size entries_size)
         else Ok ())"

definition io_region_new :: "'d \<Rightarrow> ('d, 'k) io_region" where
  "io_region_new d = \<lparr>io_range = d, io_callbacks = []\<rparr>"

definition io_region_size :: "('d, 'w, 'c, 'z) mmio_ops_scheme \<Rightarrow> ('d, 'k) io_region \<Rightarrow> u64" where
  "io_region_size env r = mmio_size env (io_range r)"

section \<open>The memory map\<close>

text \<open>An effect on the world, and a change of the memory's own tables.\<close>

definition world_op :: "('w, 'a, 'e) op \<Rightarrow> ('m \<times> 'w, 'a, 'e) op" where
  "world_op f s = (case f (snd s) of (res, w) \<Rightarrow> (res, (fst s, w)))"

definition table_op :: "('m \<Rightarrow> ('m, 'e) outcome) \<Rightarrow> ('m \<times> 'w, unit, 'e) op" where
  "table_op f s = (case f (fst s) of
      Ok m \<Rightarrow> (Ok (), (m, snd s)) | Err e \<Rightarrow> (Err e, s) | Panic \<Rightarrow> (Panic, s))"

definition memory_new :: "('d, 'k, 'l, 'u) memory" where
  "memory_new = \<lparr>regions = addressable_new, cbs_changed = [], cbs_updated = [],
     mem_ram_bus = ram_bus_new, mem_mmio_bus = mmio_bus_new, mem_io_bus = mmio_bus_new,
     io_regions = addressable_new\<rparr>"

definition map_to_vm :: "('d, 'w, 'c, 'k, 'l, 'u) mem_env \<Rightarrow> u64 \<Rightarrow> pages
    \<Rightarrow> ('w, unit, mem_error) op" where
  "map_to_vm env gpa p = vm_mem_map env gpa (p_size p) (p_addr p)
     \<lparr>opt_read = True, opt_write = True, opt_exec = True, opt_log_dirty = False\<rparr>"

definition unmap_from_vm :: "('d, 'w, 'c, 'k, 'l, 'u) mem_env \<Rightarrow> u64 \<Rightarrow> pages
    \<Rightarrow> ('w, unit, mem_error) op" where
  "unmap_from_vm env gpa p = vm_unmap env gpa (p_size p)"

text \<open>
  \<^verbatim>\<open>for range in &region.ranges\<close> with the running offset; the body tells whether it changed
  RAM, and the loop whether any did.
\<close>

fun for_ranges :: "(u64 \<Rightarrow> 'r \<Rightarrow> ('s, bool, 'e) op) \<Rightarrow> ('r \<Rightarrow> u64) \<Rightarrow> u64 \<Rightarrow> u64 \<Rightarrow> bool \<Rightarrow> 'r list
    \<Rightarrow> ('s, bool, 'e) op" where
  "for_ranges body sz addr off upd [] = sret upd"
| "for_ranges body sz addr off upd (r # rs) =
     sbind (body (addr + off) r) (\<lambda>u. for_ranges body sz addr (off + sz r) (upd \<or> u) rs)"

definition announce_region :: "('d, 'w, 'c, 'k, 'l, 'u) mem_env \<Rightarrow> 'l \<Rightarrow> u64 \<times> ('d, 'k) mem_region
    \<Rightarrow> (('d, 'k, 'l, 'u) memory \<times> 'w, unit, mem_error) op" where
  "announce_region env cb e =
     sbind (for_ranges (\<lambda>gpa r. case r of
              RamRange p \<Rightarrow> sbind (world_op (cb_ram_added env cb gpa p)) (\<lambda>_. sret False)
            | _ \<Rightarrow> sret False) (range_size env) (fst e) 0 False (ranges (snd e)))
       (\<lambda>_. sret ())"

definition register_change_callback :: "('d, 'w, 'c, 'k, 'l, 'u) mem_env \<Rightarrow> 'l
    \<Rightarrow> (('d, 'k, 'l, 'u) memory \<times> 'w, unit, mem_error) op" where
  "register_change_callback env cb s =
     sbind (sforeach (announce_region env cb) (addressable_iter (regions (fst s))))
       (\<lambda>_. table_op (\<lambda>m. Ok (m\<lparr>cbs_changed := cbs_changed m @ [cb]\<rparr>))) s"

definition register_update_callback :: "('d, 'w, 'c, 'k, 'l, 'u) mem_env \<Rightarrow> 'u
    \<Rightarrow> (('d, 'k, 'l, 'u) memory \<times> 'w, unit, mem_error) op" where
  "register_update_callback env cb s =
     sbind (world_op (cb_ram_updated env cb (lock_layout (mem_ram_bus (fst s)))))
       (\<lambda>_. table_op (\<lambda>m. Ok (m\<lparr>cbs_updated := cbs_updated m @ [cb]\<rparr>))) s"

definition notify_updated :: "('d, 'w, 'c, 'k, 'l, 'u) mem_env
    \<Rightarrow> (('d, 'k, 'l, 'u) memory \<times> 'w, unit, mem_error) op" where
  "notify_updated env s =
     sforeach (\<lambda>cb. world_op (cb_ram_updated env cb (lock_layout (mem_ram_bus (fst s)))))
       (cbs_updated (fst s)) s"

definition add_range :: "('d, 'w, 'c, 'k, 'l, 'u) mem_env \<Rightarrow> 'l list \<Rightarrow> u64 \<Rightarrow> 'd mem_range
    \<Rightarrow> (('d, 'k, 'l, 'u) memory \<times> 'w, bool, mem_error) op" where
  "add_range env changed gpa r = (case r of
      Emulated d \<Rightarrow>
        sbind (table_op (\<lambda>m. obind (mmio_bus_add env (mem_mmio_bus m) gpa d)
                               (\<lambda>b. Ok (m\<lparr>mem_mmio_bus := b\<rparr>))))
          (\<lambda>_. sret False)
    | RamRange p \<Rightarrow>
        sbind (world_op (map_to_vm env gpa p)) (\<lambda>_.
        sbind (sforeach (\<lambda>cb. world_op (cb_ram_added env cb gpa p)) changed) (\<lambda>_.
        sbind (table_op (\<lambda>m. obind (ram_bus_add (mem_ram_bus m) gpa p)
                               (\<lambda>b. Ok (m\<lparr>mem_ram_bus := b\<rparr>))))
          (\<lambda>_. sret True)))
    | DevMem p \<Rightarrow> sbind (world_op (map_to_vm env gpa p)) (\<lambda>_. sret False)
    | Span _ \<Rightarrow> sret False)"

definition add_region :: "('d, 'w, 'c, 'k, 'l, 'u) mem_env \<Rightarrow> u64 \<Rightarrow> ('d, 'k) mem_region
    \<Rightarrow> (('d, 'k, 'l, 'u) memory \<times> 'w, unit, mem_error) op" where
  "add_region env addr region s =
     sbind (table_op (\<lambda>m. obind (validate env region) (\<lambda>_. Ok m))) (\<lambda>_.
     sbind (table_op (\<lambda>m. obind (addressable_add region_size (regions m) addr region)
                            (\<lambda>t. Ok (m\<lparr>regions := t\<rparr>)))) (\<lambda>_.
     sbind (for_ranges (add_range env (cbs_changed (fst s))) (range_size env) addr 0 False
              (ranges region)) (\<lambda>ram_updated.
     sbind (if ram_updated then notify_updated env else sret ()) (\<lambda>_.
     sforeach (\<lambda>cb. world_op (cb_mapped env cb addr)) (region_callbacks region))))) s"

definition add_mmio_dev :: "('d, 'w, 'c, 'k, 'l, 'u) mem_env \<Rightarrow> u64 \<Rightarrow> 'd
    \<Rightarrow> (('d, 'k, 'l, 'u) memory \<times> 'w, unit, mem_error) op" where
  "add_mmio_dev env addr dev = add_region env addr (with_emulated env dev RegHidden)"

definition unmap_range :: "('d, 'w, 'c, 'k, 'l, 'u) mem_env \<Rightarrow> 'l list \<Rightarrow> u64 \<Rightarrow> 'd mem_range
    \<Rightarrow> (('d, 'k, 'l, 'u) memory \<times> 'w, bool, mem_error) op" where
  "unmap_range env changed gpa r = (case r of
      Emulated d \<Rightarrow>
        sbind (table_op (\<lambda>m. obind (mmio_bus_remove (mem_mmio_bus m) gpa)
                               (\<lambda>(_, b). Ok (m\<lparr>mem_mmio_bus := b\<rparr>))))
          (\<lambda>_. sret False)
    | RamRange p \<Rightarrow>
        sbind (table_op (\<lambda>m. obind (ram_bus_remove (mem_ram_bus m) gpa)
                               (\<lambda>(_, b). Ok (m\<lparr>mem_ram_bus := b\<rparr>)))) (\<lambda>_.
        sbind (sforeach (\<lambda>cb. world_op (cb_ram_removed env cb gpa p)) (rev changed)) (\<lambda>_.
        sbind (world_op (unmap_from_vm env gpa p)) (\<lambda>_. sret True)))
    | DevMem p \<Rightarrow> sbind (world_op (unmap_from_vm env gpa p)) (\<lambda>_. sret False)
    | Span _ \<Rightarrow> sret False)"

definition unmap_region :: "('d, 'w, 'c, 'k, 'l, 'u) mem_env \<Rightarrow> u64 \<Rightarrow> ('d, 'k) mem_region
    \<Rightarrow> (('d, 'k, 'l, 'u) memory \<times> 'w, unit, mem_error) op" where
  "unmap_region env addr region s =
     sbind (for_ranges (unmap_range env (cbs_changed (fst s))) (range_size env) addr 0 False
              (ranges region)) (\<lambda>ram_updated.
     sbind (if ram_updated then notify_updated env else sret ()) (\<lambda>_.
     sforeach (\<lambda>cb. world_op (cb_unmapped env cb)) (region_callbacks region))) s"

definition remove_region :: "('d, 'w, 'c, 'k, 'l, 'u) mem_env \<Rightarrow> u64
    \<Rightarrow> (('d, 'k, 'l, 'u) memory \<times> 'w, ('d, 'k) mem_region, mem_error) op" where
  "remove_region env addr s =
     (case addressable_remove (regions (fst s)) addr of
        Err e \<Rightarrow> (Err e, s)
      | Panic \<Rightarrow> (Panic, s)
      | Ok (region, t) \<Rightarrow>
          sbind (unmap_region env addr region) (\<lambda>_. sret region)
            ((fst s)\<lparr>regions := t\<rparr>, snd s))"

section \<open>Ports\<close>

definition add_io_region :: "('d, 'w, 'c, 'k, 'l, 'u) mem_env \<Rightarrow> u16 \<Rightarrow> ('d, 'k) io_region
    \<Rightarrow> (('d, 'k, 'l, 'u) memory \<times> 'w, unit, mem_error) op" where
  "add_io_region env port region =
     sbind (table_op (\<lambda>m. obind (addressable_add (io_region_size env) (io_regions m) (ucast port) region)
                            (\<lambda>t. Ok (m\<lparr>io_regions := t\<rparr>)))) (\<lambda>_.
     sbind (table_op (\<lambda>m. obind (mmio_bus_add env (mem_io_bus m) (ucast port) (io_range region))
                            (\<lambda>b. Ok (m\<lparr>mem_io_bus := b\<rparr>)))) (\<lambda>_.
     sforeach (\<lambda>cb. world_op (cb_mapped env cb (ucast port))) (io_callbacks region)))"

definition add_io_dev :: "('d, 'w, 'c, 'k, 'l, 'u) mem_env \<Rightarrow> u16 \<Rightarrow> 'd
    \<Rightarrow> (('d, 'k, 'l, 'u) memory \<times> 'w, unit, mem_error) op" where
  "add_io_dev env port dev = add_io_region env port (io_region_new dev)"

definition unmap_io_region :: "('d, 'w, 'c, 'k, 'l, 'u) mem_env \<Rightarrow> u16 \<Rightarrow> ('d, 'k) io_region
    \<Rightarrow> (('d, 'k, 'l, 'u) memory \<times> 'w, unit, mem_error) op" where
  "unmap_io_region env port region =
     sbind (table_op (\<lambda>m. obind (mmio_bus_remove (mem_io_bus m) (ucast port))
                            (\<lambda>(_, b). Ok (m\<lparr>mem_io_bus := b\<rparr>)))) (\<lambda>_.
     sforeach (\<lambda>cb. world_op (cb_unmapped env cb)) (io_callbacks region))"

definition remove_io_region :: "('d, 'w, 'c, 'k, 'l, 'u) mem_env \<Rightarrow> u16
    \<Rightarrow> (('d, 'k, 'l, 'u) memory \<times> 'w, ('d, 'k) io_region, mem_error) op" where
  "remove_io_region env port s =
     (case addressable_remove (io_regions (fst s)) (ucast port) of
        Err e \<Rightarrow> (Err e, s)
      | Panic \<Rightarrow> (Panic, s)
      | Ok (region, t) \<Rightarrow>
          sbind (unmap_io_region env port region) (\<lambda>_. sret region)
            ((fst s)\<lparr>io_regions := t\<rparr>, snd s))"

section \<open>Clearing, entries and encryption\<close>

text \<open>
  A drained table is empty at once; an error half way leaves the ranges that were not
  reached on the buses.
\<close>

definition mem_clear :: "('d, 'w, 'c, 'k, 'l, 'u) mem_env
    \<Rightarrow> (('d, 'k, 'l, 'u) memory \<times> 'w, unit, mem_error) op" where
  "mem_clear env s =
     (let (rs, t) = addressable_drain (regions (fst s))
      in sbind (sforeach (\<lambda>(addr, region). unmap_region env addr region) rs)
           (\<lambda>_ s'. let (ios, t') = addressable_drain (io_regions (fst s'))
                    in sforeach (\<lambda>(port, region). unmap_io_region env (ucast port) region) ios
                         ((fst s')\<lparr>io_regions := t'\<rparr>, snd s'))
           ((fst s)\<lparr>regions := t\<rparr>, snd s))"

definition mem_reset :: "('d, 'w, 'c, 'k, 'l, 'u) mem_env
    \<Rightarrow> (('d, 'k, 'l, 'u) memory \<times> 'w, unit, mem_error) op" where
  "mem_reset env = sbind (mem_clear env) (\<lambda>_. world_op (vm_reset env))"

fun entry_slots :: "u64 \<Rightarrow> u64 \<Rightarrow> mem_region_entry list \<Rightarrow> (u64 \<times> mem_region_entry) list" where
  "entry_slots start off [] = []"
| "entry_slots start off (e # es) = (start + off, e) # entry_slots start (off + entry_size e) es"

definition mem_region_entries :: "('d, 'k, 'l, 'u) memory \<Rightarrow> (u64 \<times> mem_region_entry) list" where
  "mem_region_entries m =
     concat (map (\<lambda>(start, region). entry_slots start 0 (entries region))
       (addressable_iter (regions m)))"

definition io_region_entries :: "('d, 'w, 'c, 'z) mmio_ops_scheme \<Rightarrow> ('d, 'k, 'l, 'u) memory
    \<Rightarrow> (u64 \<times> u64) list" where
  "io_region_entries env m =
     map (\<lambda>(start, region). (start, io_region_size env region)) (addressable_iter (io_regions m))"

definition register_encrypted_pages :: "('d, 'w, 'c, 'k, 'l, 'u) mem_env \<Rightarrow> pages
    \<Rightarrow> ('w, unit, mem_error) op" where
  "register_encrypted_pages env p = vm_register_encrypted_range env (p_addr p, p_size p)"

definition deregister_encrypted_pages :: "('d, 'w, 'c, 'k, 'l, 'u) mem_env \<Rightarrow> pages
    \<Rightarrow> ('w, unit, mem_error) op" where
  "deregister_encrypted_pages env p = vm_deregister_encrypted_range env (p_addr p, p_size p)"

text \<open>
  One region of \<^verbatim>\<open>mark_private_memory\<close>: the result says whether the outer loop is left and
  carries the variable \<open>start\<close>. After a range is marked, \<open>addr\<close> is not advanced.
\<close>

fun mark_ranges :: "('d, 'w, 'c, 'k, 'l, 'u) mem_env \<Rightarrow> bool \<Rightarrow> u64 \<Rightarrow> u64 \<Rightarrow> u64 \<Rightarrow> 'd mem_range list
    \<Rightarrow> ('w, bool \<times> u64, mem_error) op" where
  "mark_ranges env priv endv addr start [] = sret (False, start)"
| "mark_ranges env priv endv addr start (r # rs) =
     (let pages = (case r of DevMem p \<Rightarrow> Some p | RamRange p \<Rightarrow> Some p | _ \<Rightarrow> None)
      in case pages of
           None \<Rightarrow> mark_ranges env priv endv (addr + range_size env r) start rs
         | Some p \<Rightarrow>
             let range_end = addr + p_size p
             in if range_end \<le> start then mark_ranges env priv endv range_end start rs
                else let gpa_start = max addr start; gpa_end = min endv range_end
                     in if gpa_end \<le> gpa_start then sret (True, start)
                        else sbind (vm_mark_private_memory env gpa_start (gpa_end - gpa_start) priv)
                               (\<lambda>_. mark_ranges env priv endv addr gpa_end rs))"

text \<open>
  The outer loop may run forever when a region ends at the top of the address space, since
  \<open>next_start\<close> then wraps to 0.
\<close>

partial_function (option) mark_loop :: "('d, 'w, 'c, 'k, 'l, 'u) mem_env
    \<Rightarrow> ('d, 'k) mem_region addressable \<Rightarrow> bool \<Rightarrow> u64 \<Rightarrow> u64 \<Rightarrow> 'w
    \<Rightarrow> ((unit, mem_error) outcome \<times> 'w) option" where
  "mark_loop env regs priv endv start w =
     (case addressable_search_next region_size regs start of
        None \<Rightarrow> Some (Ok (), w)
      | Some (addr, region) \<Rightarrow>
          let next_start = addr + region_size region
          in case mark_ranges env priv endv addr start (ranges region) w of
               (Err e, w') \<Rightarrow> Some (Err e, w')
             | (Panic, w') \<Rightarrow> Some (Panic, w')
             | (Ok (out, _), w') \<Rightarrow>
                 if out then Some (Ok (), w')
                 else if endv \<le> next_start then Some (Ok (), w')
                 else mark_loop env regs priv endv next_start w')"

definition mark_private_memory :: "('d, 'w, 'c, 'k, 'l, 'u) mem_env \<Rightarrow> ('d, 'k, 'l, 'u) memory
    \<Rightarrow> u64 \<Rightarrow> u64 \<Rightarrow> bool \<Rightarrow> 'w \<Rightarrow> ((unit, mem_error) outcome \<times> 'w) option" where
  "mark_private_memory env m gpa sz priv w = mark_loop env (regions m) priv (gpa + sz) gpa w"

section \<open>Exits\<close>

text \<open>\<^verbatim>\<open>VmEntry\<close>; \<open>change\<close> is the method \<^verbatim>\<open>ChangeLayout::change\<close> of a callback handle.\<close>

datatype vm_entry = EntryNone | EntryPause | EntryShutdown | EntryReboot
  | EntryIo "u32 option" | EntryMmio u64

definition handle_action :: "('c \<Rightarrow> ('s, unit, mem_error) op) \<Rightarrow> 'c action \<Rightarrow> vm_entry
    \<Rightarrow> ('s, vm_entry, mem_error) op" where
  "handle_action change act none = (case act of
      ActNone \<Rightarrow> sret none
    | ActShutdown \<Rightarrow> sret EntryShutdown
    | ActReset \<Rightarrow> sret EntryReboot
    | ActChangeLayout cb \<Rightarrow> sbind (change cb) (\<lambda>_. sret none))"

definition handle_mmio :: "('d, 'w, 'c, 'k, 'l, 'u) mem_env
    \<Rightarrow> ('c \<Rightarrow> (('d, 'k, 'l, 'u) memory \<times> 'w, unit, mem_error) op) \<Rightarrow> u64 \<Rightarrow> u64 option \<Rightarrow> u8
    \<Rightarrow> (('d, 'k, 'l, 'u) memory \<times> 'w, vm_entry, mem_error) op" where
  "handle_mmio env change gpa wr sz s = (case wr of
      Some val \<Rightarrow>
        sbind (world_op (mmio_bus_write env (mem_mmio_bus (fst s)) gpa sz val))
          (\<lambda>act. handle_action change act EntryNone) s
    | None \<Rightarrow>
        sbind (world_op (mmio_bus_read env (mem_mmio_bus (fst s)) gpa sz))
          (\<lambda>data. sret (EntryMmio data)) s)"

definition handle_io :: "('d, 'w, 'c, 'k, 'l, 'u) mem_env
    \<Rightarrow> ('c \<Rightarrow> (('d, 'k, 'l, 'u) memory \<times> 'w, unit, mem_error) op) \<Rightarrow> u16 \<Rightarrow> u32 option \<Rightarrow> u8
    \<Rightarrow> (('d, 'k, 'l, 'u) memory \<times> 'w, vm_entry, mem_error) op" where
  "handle_io env change port wr sz s = (case wr of
      Some val \<Rightarrow>
        sbind (world_op (mmio_bus_write env (mem_io_bus (fst s)) (ucast port) sz (ucast val)))
          (\<lambda>act. handle_action change act (EntryIo None)) s
    | None \<Rightarrow>
        sbind (world_op (mmio_bus_read env (mem_io_bus (fst s)) (ucast port) sz))
          (\<lambda>data. sret (EntryIo (Some (ucast data)))) s)"

text \<open>\<^verbatim>\<open>MarkPrivateMemory\<close>, the \<^verbatim>\<open>LayoutChanged\<close> callback of confidential guests.\<close>

definition mark_private_ram_added :: "('d, 'w, 'c, 'k, 'l, 'u) mem_env \<Rightarrow> u64 \<Rightarrow> pages
    \<Rightarrow> ('w, unit, mem_error) op" where
  "mark_private_ram_added env gpa p = vm_mark_private_memory env gpa (p_size p) True"

definition mark_private_ram_removed :: "u64 \<Rightarrow> pages \<Rightarrow> ('w, unit, mem_error) op" where
  "mark_private_ram_removed gpa p = sret ()"

section \<open>Slots of a region\<close>

text \<open>
  Where the loop over the ranges places each of them, and the slots a map of regions puts on
  a bus: \<open>pick\<close> chooses the ranges of that bus.
\<close>

fun range_slots :: "('r \<Rightarrow> u64) \<Rightarrow> u64 \<Rightarrow> 'r list \<Rightarrow> (u64 \<times> 'r) list" where
  "range_slots sz a [] = []"
| "range_slots sz a (r # rs) = (a, r) # range_slots sz (a + sz r) rs"

fun sizes :: "('r \<Rightarrow> u64) \<Rightarrow> 'r list \<Rightarrow> nat" where
  "sizes sz [] = 0"
| "sizes sz (r # rs) = unat (sz r) + sizes sz rs"

fun emu_of :: "'d mem_range \<Rightarrow> 'd option" where
  "emu_of (Emulated d) = Some d"
| "emu_of _ = None"

fun ram_of :: "'d mem_range \<Rightarrow> pages option" where
  "ram_of (RamRange p) = Some p"
| "ram_of _ = None"

definition picked :: "('r \<Rightarrow> 'x option) \<Rightarrow> (u64 \<times> 'r) list \<Rightarrow> (u64 \<times> 'x) set" where
  "picked pick gs = {(g, x). \<exists>r. (g, r) \<in> set gs \<and> pick r = Some x}"

definition region_slots :: "('d, 'w, 'c, 'z) mmio_ops_scheme \<Rightarrow> ('d mem_range \<Rightarrow> 'x option)
    \<Rightarrow> u64 \<times> ('d, 'k) mem_region \<Rightarrow> (u64 \<times> 'x) set" where
  "region_slots env pick e = picked pick (range_slots (range_size env) (fst e) (ranges (snd e)))"

definition all_slots :: "('d, 'w, 'c, 'z) mmio_ops_scheme \<Rightarrow> ('d mem_range \<Rightarrow> 'x option)
    \<Rightarrow> (u64 \<times> ('d, 'k) mem_region) set \<Rightarrow> (u64 \<times> 'x) set" where
  "all_slots env pick es = (\<Union>e \<in> es. region_slots env pick e)"

lemma picked_simps [simp]:
  "picked pick [] = {}"
  "picked pick ((g, r) # gs) = {(g, x) |x. pick r = Some x} \<union> picked pick gs"
  by (auto simp: picked_def)

lemma emu_of_size: "emu_of r = Some d \<Longrightarrow> mmio_size env d = range_size env r"
  by (cases r) (auto simp: range_size_def)

lemma ram_of_size: "ram_of r = Some p \<Longrightarrow> p_size p = range_size env r"
  by (cases r) (auto simp: range_size_def)

lemma sizes_0D: "sizes sz rs = 0 \<Longrightarrow> r \<in> set rs \<Longrightarrow> sz r = 0"
  by (induction rs) (auto simp: unat_eq_zero)

lemma range_slots_range: "(g, r) \<in> set (range_slots sz a rs) \<Longrightarrow> r \<in> set rs"
  by (induction rs arbitrary: a) auto

lemma range_slots_bounds:
  assumes "unat a + sizes sz rs \<le> 2 ^ 64" "(g, r) \<in> set (range_slots sz a rs)" "sz r \<noteq> 0"
  shows "unat a \<le> unat g \<and> unat g + unat (sz r) \<le> unat a + sizes sz rs"
  using assms
proof (induction rs arbitrary: a)
  case Nil
  then show ?case by simp
next
  case (Cons q rs)
  show ?case
  proof (cases "(g, r) = (a, q)")
    case True
    then show ?thesis by simp
  next
    case False
    then have later: "(g, r) \<in> set (range_slots sz (a + sz q) rs)" using Cons.prems by auto
    have "sizes sz rs \<noteq> 0" using sizes_0D[of sz rs r] range_slots_range[OF later] Cons.prems(3) by blast
    then have "unat (a + sz q) = unat a + unat (sz q)"
      using Cons.prems(1) by (intro unat_plus_no_wrap) simp
    then show ?thesis using Cons.IH[OF _ later Cons.prems(3)] Cons.prems(1) by simp
  qed
qed

definition region_ok :: "('d, 'w, 'c, 'z) mmio_ops_scheme \<Rightarrow> ('d, 'k) mem_region \<Rightarrow> bool" where
  "region_ok env region \<longleftrightarrow>
     (\<forall>r \<in> set (ranges region). (emu_of r \<noteq> None \<or> ram_of r \<noteq> None) \<longrightarrow> range_size env r \<noteq> 0) \<and>
     sizes (range_size env) (ranges region) \<le> sizes entry_size (entries region) \<and>
     sizes entry_size (entries region) < 2 ^ 64"

lemma unat_foldl_sizes:
  "unat a + sizes sz rs < 2 ^ 64 \<Longrightarrow> unat (foldl (\<lambda>accu r. accu + sz r) a rs) = unat a + sizes sz rs"
proof (induction rs arbitrary: a)
  case (Cons r rs)
  then have "unat (a + sz r) = unat a + unat (sz r)" by (intro unat_plus_no_wrap) simp
  then show ?case using Cons by simp
qed simp

lemma unat_region_size:
  "region_ok env region \<Longrightarrow> unat (region_size region) = sizes entry_size (entries region)"
  using unat_foldl_sizes[of 0 entry_size "entries region"] by (simp add: region_ok_def region_size_def)

lemma region_ok_validate: "region_ok env region \<Longrightarrow> validate env region = Ok ()"
  using unat_foldl_sizes[of 0 "range_size env" "ranges region"] unat_region_size[of env region]
  by (auto simp: validate_def Let_def region_ok_def word_less_nat_alt)

text \<open>A slot of a region lies inside the region.\<close>

lemma region_slot_inside:
  assumes ok: "region_ok env region" "slot_ok region_size a region"
    and r: "(g, r) \<in> set (range_slots (range_size env) a (ranges region))"
    and nz: "range_size env r \<noteq> 0"
  shows "unat a \<le> unat g \<and> unat g + unat (range_size env r) \<le> unat a + unat (region_size region)"
proof -
  have "unat a + sizes (range_size env) (ranges region) \<le> unat a + unat (region_size region)"
    "unat a + unat (region_size region) \<le> 2 ^ 64"
    using ok unat_region_size[OF ok(1)] by (auto simp: region_ok_def slot_ok_def)
  then show ?thesis using range_slots_bounds[OF _ r nz] by linarith
qed

section \<open>Loops that only act on the world\<close>

lemma world_op_eq [simp]: "world_op f (m, w) = (fst (f w), (m, snd (f w)))"
  by (simp add: world_op_def split: prod.split)

lemma world_op_mem: "world_op f s = (res, s') \<Longrightarrow> fst s' = fst s"
  by (auto simp: world_op_def split: prod.splits)

lemma sforeach_world_mem:
  "sforeach (\<lambda>x. world_op (f x)) xs s = (res, s') \<Longrightarrow> fst s' = fst s"
  by (rule sforeach_invariant[where I = "\<lambda>s'. fst s' = fst s"]) (auto simp: world_op_def split: prod.splits)

lemma sforeach_total:
  assumes "\<And>x s. x \<in> set xs \<Longrightarrow> \<exists>s'. f x s = (Ok (), s')"
  shows "\<exists>s'. sforeach f xs s = (Ok (), s')"
  using assms
proof (induction xs arbitrary: s)
  case (Cons x xs)
  obtain s1 where "f x s = (Ok (), s1)" using Cons.prems[of x s] by auto
  then show ?case using Cons.IH[of s1] Cons.prems by simp
qed simp

lemma sforeach_world_total:
  assumes "\<And>x w. x \<in> set xs \<Longrightarrow> fst (f x w) = Ok ()"
  shows "\<exists>w'. sforeach (\<lambda>x. world_op (f x)) xs (m, w) = (Ok (), (m, w'))"
proof -
  have "\<And>x s. x \<in> set xs \<Longrightarrow> \<exists>s'. world_op (f x) s = (Ok (), s')"
    using assms by (metis prod.collapse world_op_eq)
  then obtain s' where "sforeach (\<lambda>x. world_op (f x)) xs (m, w) = (Ok (), s')"
    using sforeach_total[of xs "\<lambda>x. world_op (f x)" "(m, w)"] by blast
  with sforeach_world_mem[OF this] show ?thesis by (cases s') auto
qed

section \<open>The invariant of the memory map\<close>

text \<open>
  Both buses hold exactly the ranges of the registered regions, each at its place, and the
  port bus exactly the registered port regions.
\<close>

abbreviation ram_table :: "('d, 'k, 'l, 'u) memory \<Rightarrow> pages addressable" where
  "ram_table m \<equiv> ram_inner (bus_ram (mem_ram_bus m))"

definition buses :: "('d, 'w, 'c, 'z) mmio_ops_scheme \<Rightarrow> ('d, 'k, 'l, 'u) memory
    \<Rightarrow> (u64 \<times> 'd) set \<Rightarrow> (u64 \<times> pages) set \<Rightarrow> bool" where
  "buses env m E R \<longleftrightarrow> bus_inv env (mem_mmio_bus m) \<and> addressable_inv p_size (ram_table m) \<and>
     bus_devices (mem_mmio_bus m) = E \<and> set (addressable_iter (ram_table m)) = R"

definition ports_inv :: "('d, 'w, 'c, 'z) mmio_ops_scheme \<Rightarrow> ('d, 'k, 'l, 'u) memory \<Rightarrow> bool" where
  "ports_inv env m \<longleftrightarrow> addressable_inv (io_region_size env) (io_regions m) \<and>
     bus_inv env (mem_io_bus m) \<and>
     bus_devices (mem_io_bus m) = (\<lambda>(p, r). (p, io_range r)) ` set (addressable_iter (io_regions m)) \<and>
     (\<forall>(p, r) \<in> set (addressable_iter (io_regions m)). unat p < 2 ^ 16)"

definition mem_inv :: "('d, 'w, 'c, 'z) mmio_ops_scheme \<Rightarrow> ('d, 'k, 'l, 'u) memory \<Rightarrow> bool" where
  "mem_inv env m \<longleftrightarrow> addressable_inv region_size (regions m) \<and>
     (\<forall>(a, region) \<in> set (addressable_iter (regions m)). region_ok env region) \<and>
     buses env m (all_slots env emu_of (set (addressable_iter (regions m))))
       (all_slots env ram_of (set (addressable_iter (regions m)))) \<and>
     ports_inv env m"

text \<open>The calls out of the memory map all succeed.\<close>

definition env_total :: "('d, 'w, 'c, 'k, 'l, 'u) mem_env \<Rightarrow> bool" where
  "env_total env \<longleftrightarrow>
     (\<forall>gpa n hva opts w. fst (vm_mem_map env gpa n hva opts w) = Ok ()) \<and>
     (\<forall>gpa n w. fst (vm_unmap env gpa n w) = Ok ()) \<and>
     (\<forall>w. fst (vm_reset env w) = Ok ()) \<and>
     (\<forall>l gpa p w. fst (cb_ram_added env l gpa p w) = Ok ()) \<and>
     (\<forall>l gpa p w. fst (cb_ram_removed env l gpa p w) = Ok ()) \<and>
     (\<forall>u r w. fst (cb_ram_updated env u r w) = Ok ()) \<and>
     (\<forall>k a w. fst (cb_mapped env k a w) = Ok ()) \<and>
     (\<forall>k w. fst (cb_unmapped env k w) = Ok ())"

lemma env_totalD:
  assumes "env_total env"
  shows "\<And>gpa n hva opts w. fst (vm_mem_map env gpa n hva opts w) = Ok ()"
    and "\<And>gpa n w. fst (vm_unmap env gpa n w) = Ok ()"
    and "\<And>w. fst (vm_reset env w) = Ok ()"
    and "\<And>l gpa p w. fst (cb_ram_added env l gpa p w) = Ok ()"
    and "\<And>l gpa p w. fst (cb_ram_removed env l gpa p w) = Ok ()"
    and "\<And>u r w. fst (cb_ram_updated env u r w) = Ok ()"
    and "\<And>k a w. fst (cb_mapped env k a w) = Ok ()"
    and "\<And>k w. fst (cb_unmapped env k w) = Ok ()"
  using assms unfolding env_total_def by simp_all

text \<open>What changes the buses changes nothing else of the record.\<close>

definition same_rest :: "('d, 'k, 'l, 'u) memory \<Rightarrow> ('d, 'k, 'l, 'u) memory \<Rightarrow> bool" where
  "same_rest m m' \<longleftrightarrow> m' = m\<lparr>mem_mmio_bus := mem_mmio_bus m', mem_ram_bus := mem_ram_bus m'\<rparr>"

lemma same_rest_refl [simp]: "same_rest m m"
  by (simp add: same_rest_def)

lemma same_rest_trans: "same_rest m m' \<Longrightarrow> same_rest m' m'' \<Longrightarrow> same_rest m m''"
  by (cases m; cases m'; cases m'') (simp add: same_rest_def)

lemma same_rest_fields:
  "same_rest m m' \<Longrightarrow> regions m' = regions m \<and> cbs_changed m' = cbs_changed m \<and>
   cbs_updated m' = cbs_updated m \<and> mem_io_bus m' = mem_io_bus m \<and> io_regions m' = io_regions m"
  by (cases m; cases m') (simp add: same_rest_def)

abbreviation slot_at :: "('r \<Rightarrow> 'x option) \<Rightarrow> u64 \<Rightarrow> 'r \<Rightarrow> (u64 \<times> 'x) set" where
  "slot_at pick gpa r \<equiv> {(gpa, x) |x. pick r = Some x}"

lemma table_op_Ok_iff:
  "table_op f (m, w) = (Ok (), s') \<longleftrightarrow> (\<exists>m'. f m = Ok m' \<and> s' = (m', w))"
  by (auto simp: table_op_def split: outcome.splits)

lemma world_op_Ok_iff:
  "world_op f (m, w) = (Ok a, s') \<longleftrightarrow> (\<exists>w'. f w = (Ok a, w') \<and> s' = (m, w'))"
  by (cases "f w") auto

lemma add_range_Ok:
  assumes b: "buses env m E R" and ok: "add_range env cbs gpa r (m, w) = (Ok u, (m', w'))"
  shows "buses env m' (E \<union> slot_at emu_of gpa r) (R \<union> slot_at ram_of gpa r) \<and> same_rest m m'"
proof (cases r)
  case (RamRange p)
  from ok obtain w1 s2 where
    cb: "sforeach (\<lambda>cb. world_op (cb_ram_added env cb gpa p)) cbs (m, w1) = (Ok (), s2)" and
    add: "table_op (\<lambda>m. obind (ram_bus_add (mem_ram_bus m) gpa p) (\<lambda>b. Ok (m\<lparr>mem_ram_bus := b\<rparr>))) s2
       = (Ok (), (m', w'))"
    unfolding add_range_def RamRange mem_range.case sbind_eq_Ok world_op_Ok_iff sret_def by auto
  have "fst s2 = m" using sforeach_world_mem[OF cb] by simp
  with add obtain rb where "ram_bus_add (mem_ram_bus m) gpa p = Ok rb"
    and m': "m' = m\<lparr>mem_ram_bus := rb\<rparr>"
    by (cases s2) (auto simp: table_op_Ok_iff obind_Ok_iff)
  then obtain t where t: "addressable_add p_size (ram_table m) gpa p = Ok t"
    and rb: "ram_inner (bus_ram rb) = t" by (auto simp: ram_bus_add_def obind_Ok_iff)
  have inv: "addressable_inv p_size (ram_table m)" using b by (simp add: buses_def)
  show ?thesis using b add_inv[OF inv t] add_iter[OF inv t] RamRange
    by (auto simp: buses_def m' rb same_rest_def)
next
  case (Emulated d)
  with ok obtain bus where "mmio_bus_add env (mem_mmio_bus m) gpa d = Ok bus"
    and m': "m' = m\<lparr>mem_mmio_bus := bus\<rparr>"
    by (auto simp: add_range_def sbind_eq_Ok table_op_Ok_iff obind_Ok_iff)
  then obtain t where t: "addressable_add (mmio_size env) (bus_inner (mem_mmio_bus m)) gpa d = Ok t"
    and bus: "bus_inner bus = t" by (auto simp: mmio_bus_add_Ok)
  have inv: "bus_inv env (mem_mmio_bus m)" using b by (simp add: buses_def)
  show ?thesis using b add_inv[OF inv t] add_iter[OF inv t] Emulated
    by (auto simp: buses_def m' bus same_rest_def)
qed (use assms in \<open>auto simp: add_range_def sbind_eq_Ok world_op_Ok_iff\<close>)

lemma add_ranges_Ok:
  assumes "buses env m E R"
    and "for_ranges (add_range env cbs) sz addr off upd rs (m, w) = (Ok u, (m', w'))"
  shows "buses env m' (E \<union> picked emu_of (range_slots sz (addr + off) rs))
      (R \<union> picked ram_of (range_slots sz (addr + off) rs)) \<and> same_rest m m'"
  using assms
proof (induction rs arbitrary: off upd m w E R)
  case (Cons r rs)
  from Cons.prems(2) obtain u1 m1 w1 where r: "add_range env cbs (addr + off) r (m, w) = (Ok u1, (m1, w1))"
    and rs: "for_ranges (add_range env cbs) sz addr (off + sz r) (upd \<or> u1) rs (m1, w1) = (Ok u, (m', w'))"
    by (auto simp: sbind_eq_Ok)
  note s1 = add_range_Ok[OF Cons.prems(1) r]
  show ?case using Cons.IH[OF conjunct1[OF s1] rs] s1 same_rest_trans
    by (auto simp: add.assoc Un_assoc)
qed simp

lemma overlaps_iff:
  assumes "slot_ok sz a b" "slot_ok sz c d"
  shows "overlaps sz (a, b) (c, d) \<longleftrightarrow>
    unat a < unat c + unat (sz d) \<and> unat c < unat a + unat (sz b)"
proof -
  have "overlaps sz (a, b) (c, d)" if "unat a < unat c + unat (sz d)" "unat c < unat a + unat (sz b)"
    using that assms unat_gt_0_iff[of "sz b"] unat_gt_0_iff[of "sz d"] unfolding overlaps_def covers_def slot_ok_def
    by (intro exI[of _ "max a c"]) (auto simp: max_def word_le_nat_alt)
  then show ?thesis by (auto simp: overlaps_def covers_def)
qed

text \<open>No slot of \<open>S\<close> meets the addresses from \<open>lo\<close> up to \<open>hi\<close>.\<close>

definition clear_of :: "('x \<Rightarrow> u64) \<Rightarrow> (u64 \<times> 'x) set \<Rightarrow> nat \<Rightarrow> nat \<Rightarrow> bool" where
  "clear_of sz S lo hi \<longleftrightarrow> (\<forall>(g, x) \<in> S. unat g + unat (sz x) \<le> lo \<or> hi \<le> unat g)"

lemma add_clear_total:
  assumes inv: "addressable_inv sz t" and clear: "clear_of sz (set (addressable_iter t)) (unat a) hi"
    and fit: "sz b \<noteq> 0" "unat a + unat (sz b) \<le> hi" "hi \<le> 2 ^ 64"
  shows "\<exists>t'. addressable_add sz t a b = Ok t'"
  unfolding add_Ok_iff[OF inv]
proof (intro conjI ballI)
  show "slot_ok sz a b" using fit by (simp add: slot_ok_def)
  fix e assume "e \<in> set (addressable_iter t)"
  then have "unat (fst e) + unat (sz (snd e)) \<le> unat a \<or> hi \<le> unat (fst e)"
    using clear by (cases e) (auto simp: clear_of_def)
  then show "\<not> overlaps sz (a, b) e" using fit by (auto simp: overlaps_def covers_def)
qed

lemma add_range_total:
  assumes b: "buses env m E R" and tot: "env_total env"
    and nz: "emu_of r \<noteq> None \<or> ram_of r \<noteq> None \<Longrightarrow> range_size env r \<noteq> 0"
    and fit: "unat gpa + unat (range_size env r) \<le> hi" "hi \<le> 2 ^ 64"
    and clear: "clear_of (mmio_size env) E (unat gpa) hi" "clear_of p_size R (unat gpa) hi"
  shows "\<exists>u m' w'. add_range env cbs gpa r (m, w) = (Ok u, (m', w'))"
proof (cases r)
  case (RamRange p)
  obtain w1 where w1: "map_to_vm env gpa p w = (Ok (), w1)"
    using env_totalD(1)[OF tot] unfolding map_to_vm_def by (metis prod.collapse)
  obtain w2 where w2: "sforeach (\<lambda>cb. world_op (cb_ram_added env cb gpa p)) cbs (m, w1) = (Ok (), (m, w2))"
    using sforeach_world_total[of cbs "\<lambda>cb. cb_ram_added env cb gpa p" m w1, OF env_totalD(4)[OF tot]]
    by blast
  obtain t where "addressable_add p_size (ram_table m) gpa p = Ok t"
    using add_clear_total[of p_size "ram_table m" gpa hi p] b nz fit clear RamRange
    by (auto simp: buses_def range_size_def)
  then show ?thesis using w1 w2
    by (auto simp: RamRange add_range_def sbind_def world_op_def table_op_def ram_bus_add_def)
next
  case (Emulated d)
  obtain t where "addressable_add (mmio_size env) (bus_inner (mem_mmio_bus m)) gpa d = Ok t"
    using add_clear_total[of "mmio_size env" "bus_inner (mem_mmio_bus m)" gpa hi d] b nz fit clear Emulated
    by (auto simp: buses_def range_size_def)
  then show ?thesis by (auto simp: Emulated add_range_def sbind_def table_op_def mmio_bus_add_def)
next
  case (DevMem p)
  obtain w1 where "map_to_vm env gpa p w = (Ok (), w1)"
    using env_totalD(1)[OF tot] unfolding map_to_vm_def by (metis prod.collapse)
  then show ?thesis by (auto simp: DevMem add_range_def sbind_def world_op_def)
qed (auto simp: add_range_def)

lemma add_ranges_total:
  assumes "buses env m E R" and tot: "env_total env"
    and "\<forall>r \<in> set rs. (emu_of r \<noteq> None \<or> ram_of r \<noteq> None) \<longrightarrow> range_size env r \<noteq> 0"
    and "unat (addr + off) + sizes (range_size env) rs \<le> 2 ^ 64"
    and "clear_of (mmio_size env) E (unat (addr + off)) (unat (addr + off) + sizes (range_size env) rs)"
    and "clear_of p_size R (unat (addr + off)) (unat (addr + off) + sizes (range_size env) rs)"
  shows "\<exists>u m' w'. for_ranges (add_range env cbs) (range_size env) addr off upd rs (m, w) = (Ok u, (m', w'))"
  using assms(1,3-)
proof (induction rs arbitrary: off upd m w E R)
  case (Cons r rs)
  let ?a = "addr + off" and ?s = "range_size env" and ?b = "addr + (off + range_size env r)"
  have "\<exists>u1 m1 w1. add_range env cbs ?a r (m, w) = (Ok u1, (m1, w1))"
    by (rule add_range_total[OF Cons.prems(1) tot, where hi = "unat ?a + sizes ?s (r # rs)"])
      (use Cons.prems(2-) in auto)
  then obtain u1 m1 w1 where r: "add_range env cbs ?a r (m, w) = (Ok u1, (m1, w1))" by blast
  let ?E = "E \<union> slot_at emu_of ?a r" and ?R = "R \<union> slot_at ram_of ?a r"
  have s1: "buses env m1 ?E ?R" using add_range_Ok[OF Cons.prems(1) r] by simp
  have rs: "\<exists>u m' w'. for_ranges (add_range env cbs) ?s addr (off + ?s r) (upd \<or> u1) rs (m1, w1)
      = (Ok u, (m', w'))"
  proof (rule Cons.IH[OF s1])
    show "\<forall>r\<in>set rs. (emu_of r \<noteq> None \<or> ram_of r \<noteq> None) \<longrightarrow> ?s r \<noteq> 0" using Cons.prems(2) by simp
    have cases: "unat ?b = unat ?a + unat (?s r) \<or> unat ?b = 0 \<and> sizes ?s rs = 0"
    proof (cases "unat ?a + unat (?s r) < 2 ^ 64")
      case True
      then show ?thesis using unat_plus_no_wrap[of ?a "?s r"] by (simp add: add.assoc)
    next
      case False
      then have "unat ?a + unat (?s r) = 2 ^ 64" "sizes ?s rs = 0" using Cons.prems(3) by auto
      then show ?thesis by (simp add: unat_word_ariths add.assoc[symmetric])
    qed
    then show "unat ?b + sizes ?s rs \<le> 2 ^ 64" using Cons.prems(3) by auto
    show "clear_of (mmio_size env) ?E (unat ?b) (unat ?b + sizes ?s rs)"
      using cases Cons.prems(4) emu_of_size[of r _ env] unfolding clear_of_def by fastforce
    show "clear_of p_size ?R (unat ?b) (unat ?b + sizes ?s rs)"
      using cases Cons.prems(5) ram_of_size[of r _ env] unfolding clear_of_def by fastforce
  qed
  with r show ?case by simp
qed simp

section \<open>Adding a region\<close>

text \<open>
  The rest of \<^verbatim>\<open>add_region\<close>, after the loop over the ranges, leaves the tables alone.
\<close>

lemma notify_updated_mem: "notify_updated env s = (res, s') \<Longrightarrow> fst s' = fst s"
  unfolding notify_updated_def
  by (rule sforeach_world_mem)

lemma notify_updated_total:
  "env_total env \<Longrightarrow> \<exists>w'. notify_updated env (m, w) = (Ok (), (m, w'))"
  unfolding notify_updated_def
  using sforeach_world_total[of "cbs_updated m" "\<lambda>cb. cb_ram_updated env cb (lock_layout (mem_ram_bus m))" m w]
  by (simp add: env_totalD)

lemma add_region_Ok:
  assumes ok: "add_region env addr region (m, w) = (Ok (), (m', w'))"
  obtains t u w1 where "addressable_add region_size (regions m) addr region = Ok t"
    "for_ranges (add_range env (cbs_changed m)) (range_size env) addr 0 False (ranges region)
       (m\<lparr>regions := t\<rparr>, w) = (Ok u, (m', w1))"
proof -
  from ok obtain s1 u s2 s3 where
    t: "table_op (\<lambda>m. obind (addressable_add region_size (regions m) addr region)
          (\<lambda>t. Ok (m\<lparr>regions := t\<rparr>))) (m, w) = (Ok (), s1)"
    and loop: "for_ranges (add_range env (cbs_changed m)) (range_size env) addr 0 False (ranges region) s1
          = (Ok u, s2)"
    and upd: "(if u then notify_updated env else sret ()) s2 = (Ok (), s3)"
    and cb: "sforeach (\<lambda>cb. world_op (cb_mapped env cb addr)) (region_callbacks region) s3 = (Ok (), (m', w'))"
    unfolding add_region_def sbind_eq_Ok fst_conv
    by (auto simp: table_op_def obind_Ok_iff split: outcome.splits)
  have "fst s2 = m'"
    using sforeach_world_mem[OF cb] upd notify_updated_mem[of env s2] by (auto split: if_splits)
  with t loop that show thesis
    by (cases s2) (auto simp: table_op_Ok_iff obind_Ok_iff)
qed

lemma add_region_total:
  assumes tot: "env_total env" and valid: "validate env region = Ok ()"
    and t: "addressable_add region_size (regions m) addr region = Ok t"
    and loop: "for_ranges (add_range env (cbs_changed m)) (range_size env) addr 0 False (ranges region)
       (m\<lparr>regions := t\<rparr>, w) = (Ok u, (m', w1))"
  shows "\<exists>w'. add_region env addr region (m, w) = (Ok (), (m', w'))"
proof -
  obtain w2 where w2: "(if u then notify_updated env else sret ()) (m', w1) = (Ok (), (m', w2))"
    using notify_updated_total[OF tot, of m' w1] by (cases u) auto
  obtain w3 where "sforeach (\<lambda>cb. world_op (cb_mapped env cb addr)) (region_callbacks region) (m', w2)
      = (Ok (), (m', w3))"
    using sforeach_world_total[of "region_callbacks region" "\<lambda>cb. cb_mapped env cb addr" m' w2]
    by (auto simp: env_totalD[OF tot])
  with w2 show ?thesis
    unfolding add_region_def by (simp add: sbind_def table_op_def valid t loop)
qed

lemma mem_inv_clear:
  assumes inv: "mem_inv env m" and ok: "region_ok env region"
    and t: "addressable_add region_size (regions m) addr region = Ok t"
    and pick: "\<And>r x. pick r = Some x \<Longrightarrow> sz x = range_size env r"
      "\<And>r. pick r \<noteq> None \<Longrightarrow> emu_of r \<noteq> None \<or> ram_of r \<noteq> None"
  shows "clear_of sz (all_slots env pick (set (addressable_iter (regions m)))) (unat addr)
    (unat addr + sizes (range_size env) (ranges region))"
  unfolding clear_of_def all_slots_def region_slots_def picked_def
proof clarsimp
  fix g x a reg r
  assume mem: "(a, reg) \<in> set (addressable_iter (regions m))"
    and r: "(g, r) \<in> set (range_slots (range_size env) a (ranges reg))" and x: "pick r = Some x"
    and nle: "\<not> unat addr + sizes (range_size env) (ranges region) \<le> unat g"
  have rinv: "addressable_inv region_size (regions m)" and rok: "region_ok env reg"
    using inv mem by (auto simp: mem_inv_def)
  have nz: "range_size env r \<noteq> 0"
    using rok range_slots_range[OF r] pick(2)[of r] x by (auto simp: region_ok_def)
  have in_reg: "unat a \<le> unat g" "unat g + unat (range_size env r) \<le> unat a + unat (region_size reg)"
    using region_slot_inside[OF rok inv_iter_ok[OF rinv mem] r nz] by auto
  have "\<not> overlaps region_size (addr, region) (a, reg)" "slot_ok region_size addr region"
    using add_Ok_iff[OF rinv, of addr region] t mem by blast+
  then have disj: "unat a + unat (region_size reg) \<le> unat addr \<or>
      unat addr + unat (region_size region) \<le> unat a"
    using overlaps_iff[OF _ inv_iter_ok[OF rinv mem], of addr region] by auto
  have "unat (region_size region) \<ge> sizes (range_size env) (ranges region)"
    using ok unat_region_size[OF ok] by (simp add: region_ok_def)
  then show "unat g + unat (sz x) \<le> unat addr"
    using in_reg nle nz pick(1)[OF x] unat_gt_0_iff[of "range_size env r"] disj
    by auto
qed

lemma all_slots_insert:
  "all_slots env pick (insert e es) = all_slots env pick es \<union> region_slots env pick e"
  by (auto simp: all_slots_def)

lemma add_region_inv:
  assumes inv: "mem_inv env m" and rok: "region_ok env region"
    and ok: "add_region env addr region (m, w) = (Ok (), (m', w'))"
  shows "mem_inv env m' \<and>
    set (addressable_iter (regions m')) = insert (addr, region) (set (addressable_iter (regions m)))"
proof -
  obtain t u w1 where t: "addressable_add region_size (regions m) addr region = Ok t"
    and loop: "for_ranges (add_range env (cbs_changed m)) (range_size env) addr 0 False (ranges region)
       (m\<lparr>regions := t\<rparr>, w) = (Ok u, (m', w1))"
    by (rule add_region_Ok[OF ok])
  let ?old = "set (addressable_iter (regions m))"
  have rinv: "addressable_inv region_size (regions m)" using inv by (simp add: mem_inv_def)
  have "buses env (m\<lparr>regions := t\<rparr>) (all_slots env emu_of ?old) (all_slots env ram_of ?old)"
    using inv by (simp add: mem_inv_def buses_def)
  from add_ranges_Ok[OF this loop]
  have b: "buses env m' (all_slots env emu_of (insert (addr, region) ?old))
      (all_slots env ram_of (insert (addr, region) ?old))" and rest: "same_rest (m\<lparr>regions := t\<rparr>) m'"
    by (simp_all add: all_slots_insert region_slots_def)
  have "regions m' = t" "ports_inv env m'"
    using same_rest_fields[OF rest] inv by (auto simp: mem_inv_def ports_inv_def)
  then show ?thesis
    using b inv rok add_inv[OF rinv t] add_iter[OF rinv t] by (auto simp: mem_inv_def)
qed

lemma add_region_succeeds:
  assumes inv: "mem_inv env m" and rok: "region_ok env region" and tot: "env_total env"
    and t: "addressable_add region_size (regions m) addr region = Ok t"
  shows "\<exists>m' w'. add_region env addr region (m, w) = (Ok (), (m', w'))"
proof -
  let ?old = "set (addressable_iter (regions m))"
  have b: "buses env (m\<lparr>regions := t\<rparr>) (all_slots env emu_of ?old) (all_slots env ram_of ?old)"
    using inv by (simp add: mem_inv_def buses_def)
  have rinv: "addressable_inv region_size (regions m)" using inv by (simp add: mem_inv_def)
  have bound: "unat addr + sizes (range_size env) (ranges region) \<le> 2 ^ 64"
    using add_Ok_iff[OF rinv, of addr region] t rok unat_region_size[OF rok]
    by (auto simp: slot_ok_def region_ok_def)
  have "\<exists>u m' w'. for_ranges (add_range env (cbs_changed m)) (range_size env) addr 0 False (ranges region)
      (m\<lparr>regions := t\<rparr>, w) = (Ok u, (m', w'))"
  proof (rule add_ranges_total[OF b tot])
    show "clear_of (mmio_size env) (all_slots env emu_of ?old) (unat (addr + 0))
        (unat (addr + 0) + sizes (range_size env) (ranges region))"
      using mem_inv_clear[OF inv rok t emu_of_size, of emu_of] by simp
    show "clear_of p_size (all_slots env ram_of ?old) (unat (addr + 0))
        (unat (addr + 0) + sizes (range_size env) (ranges region))"
      using mem_inv_clear[OF inv rok t ram_of_size, of ram_of] by simp
  qed (use rok bound in \<open>auto simp: region_ok_def\<close>)
  then obtain u m' w' where "for_ranges (add_range env (cbs_changed m)) (range_size env) addr 0 False
      (ranges region) (m\<lparr>regions := t\<rparr>, w) = (Ok u, (m', w'))" by blast
  from add_region_total[OF tot region_ok_validate[OF rok] t this] show ?thesis by blast
qed

section \<open>Removing a region\<close>

lemma unmap_range_Ok:
  assumes b: "buses env m E R" and ok: "unmap_range env cbs gpa r (m, w) = (Ok u, (m', w'))"
    and sub: "slot_at emu_of gpa r \<subseteq> E" "slot_at ram_of gpa r \<subseteq> R"
  shows "buses env m' (E - slot_at emu_of gpa r) (R - slot_at ram_of gpa r) \<and> same_rest m m'"
proof (cases r)
  case (RamRange p)
  from ok obtain s1 s2 where
    rem: "table_op (\<lambda>m. obind (ram_bus_remove (mem_ram_bus m) gpa) (\<lambda>(_, b). Ok (m\<lparr>mem_ram_bus := b\<rparr>))) (m, w)
       = (Ok (), s1)" and
    cb: "sforeach (\<lambda>cb. world_op (cb_ram_removed env cb gpa p)) (rev cbs) s1 = (Ok (), s2)" and
    un: "world_op (unmap_from_vm env gpa p) s2 = (Ok (), (m', w'))"
    unfolding unmap_range_def RamRange mem_range.case sbind_eq_Ok sret_def
    by (auto simp del: world_op_eq)
  then have m1: "fst s1 = m'" using sforeach_world_mem[OF cb] world_op_mem[OF un] by simp
  with rem obtain q rb where "ram_bus_remove (mem_ram_bus m) gpa = Ok (q, rb)"
    and m': "m' = m\<lparr>mem_ram_bus := rb\<rparr>"
    by (auto simp: table_op_Ok_iff obind_Ok_iff)
  then obtain t where t: "addressable_remove (ram_table m) gpa = Ok (q, t)"
    and rb: "ram_inner (bus_ram rb) = t" by (auto simp: ram_bus_remove_def obind_Ok_iff)
  have inv: "addressable_inv p_size (ram_table m)" using b by (simp add: buses_def)
  have "(gpa, q) \<in> R" "(gpa, p) \<in> R"
    using remove_Ok_iff[OF inv, of gpa q] t b sub RamRange by (auto simp: buses_def)
  then have "q = p" using iter_key_unique[OF inv] b by (simp add: buses_def)
  then show ?thesis using b remove_inv[OF inv t] remove_iter[OF inv t] RamRange
    by (auto simp: buses_def m' rb same_rest_def)
next
  case (Emulated d)
  with ok obtain d' bus where "mmio_bus_remove (mem_mmio_bus m) gpa = Ok (d', bus)"
    and m': "m' = m\<lparr>mem_mmio_bus := bus\<rparr>"
    by (auto simp: unmap_range_def sbind_eq_Ok table_op_Ok_iff obind_Ok_iff)
  then obtain t where t: "addressable_remove (bus_inner (mem_mmio_bus m)) gpa = Ok (d', t)"
    and bus: "bus_inner bus = t" by (auto simp: mmio_bus_remove_Ok)
  have inv: "bus_inv env (mem_mmio_bus m)" using b by (simp add: buses_def)
  have "(gpa, d') \<in> E" "(gpa, d) \<in> E"
    using remove_Ok_iff[OF inv, of gpa d'] t b sub Emulated by (auto simp: buses_def)
  then have "d' = d" using iter_key_unique[OF inv] b by (simp add: buses_def)
  then show ?thesis using b remove_inv[OF inv t] remove_iter[OF inv t] Emulated
    by (auto simp: buses_def m' bus same_rest_def)
qed (use assms in \<open>auto simp: unmap_range_def sbind_eq_Ok world_op_Ok_iff\<close>)

lemma unmap_range_total:
  assumes b: "buses env m E R" and tot: "env_total env"
    and sub: "slot_at emu_of gpa r \<subseteq> E" "slot_at ram_of gpa r \<subseteq> R"
  shows "\<exists>u m' w'. unmap_range env cbs gpa r (m, w) = (Ok u, (m', w'))"
proof (cases r)
  case (RamRange p)
  have inv: "addressable_inv p_size (ram_table m)" using b by (simp add: buses_def)
  obtain t where t: "addressable_remove (ram_table m) gpa = Ok (p, t)"
    using remove_Ok_iff[OF inv, of gpa p] b sub RamRange by (auto simp: buses_def)
  then obtain m1 where m1: "table_op (\<lambda>m. obind (ram_bus_remove (mem_ram_bus m) gpa)
      (\<lambda>(_, b). Ok (m\<lparr>mem_ram_bus := b\<rparr>))) (m, w) = (Ok (), (m1, w))"
    by (simp add: table_op_def ram_bus_remove_def)
  obtain w1 where w1: "sforeach (\<lambda>cb. world_op (cb_ram_removed env cb gpa p)) (rev cbs) (m1, w) = (Ok (), (m1, w1))"
    using sforeach_world_total[of "rev cbs" "\<lambda>cb. cb_ram_removed env cb gpa p" m1 w, OF env_totalD(5)[OF tot]]
    by blast
  obtain w2 where "unmap_from_vm env gpa p w1 = (Ok (), w2)"
    using env_totalD(2)[OF tot] unfolding unmap_from_vm_def by (metis prod.collapse)
  then show ?thesis using m1 w1 by (auto simp: RamRange unmap_range_def sbind_def world_op_def)
next
  case (Emulated d)
  have inv: "bus_inv env (mem_mmio_bus m)" using b by (simp add: buses_def)
  obtain t where "addressable_remove (bus_inner (mem_mmio_bus m)) gpa = Ok (d, t)"
    using remove_Ok_iff[OF inv, of gpa d] b sub Emulated by (auto simp: buses_def)
  then show ?thesis by (auto simp: Emulated unmap_range_def sbind_def table_op_def mmio_bus_remove_def)
next
  case (DevMem p)
  obtain w1 where "unmap_from_vm env gpa p w = (Ok (), w1)"
    using env_totalD(2)[OF tot] unfolding unmap_from_vm_def by (metis prod.collapse)
  then show ?thesis by (auto simp: DevMem unmap_range_def sbind_def world_op_def)
qed (auto simp: unmap_range_def)

text \<open>Two ranges of a region that both go on a bus have different addresses.\<close>

lemma picked_rest_sub:
  assumes bound: "unat a + sizes sz (r # rs) \<le> 2 ^ 64"
    and nz: "\<forall>q \<in> set (r # rs). pick q \<noteq> None \<longrightarrow> sz q \<noteq> 0"
    and sub: "picked pick (range_slots sz a (r # rs)) \<subseteq> E"
  shows "slot_at pick a r \<subseteq> E" "picked pick (range_slots sz (a + sz r) rs) \<subseteq> E - slot_at pick a r"
proof -
  have "g \<noteq> a" if r: "pick r \<noteq> None" and q: "(g, q) \<in> set (range_slots sz (a + sz r) rs)" "pick q \<noteq> None"
    for g q
  proof -
    have nzq: "sz q \<noteq> 0" "sz r \<noteq> 0" using nz r q(2) range_slots_range[OF q(1)] by auto
    have "sizes sz rs \<noteq> 0" using sizes_0D[of sz rs q] range_slots_range[OF q(1)] nzq by blast
    then have "unat (a + sz r) = unat a + unat (sz r)"
      using bound by (intro unat_plus_no_wrap) simp
    then have "unat a + unat (sz r) \<le> unat g"
      using range_slots_bounds[OF _ q(1) nzq(1)] bound by simp
    then show ?thesis using unat_gt_0_iff[of "sz r"] nzq by auto
  qed
  then show "picked pick (range_slots sz (a + sz r) rs) \<subseteq> E - slot_at pick a r"
    using sub by (fastforce simp: picked_def)
  show "slot_at pick a r \<subseteq> E" using sub by auto
qed

lemma diff_diff_Un: "A - B - C = A - (B \<union> C)"
  by blast

lemma sizes_step:
  "unat a + sizes sz (r # rs) \<le> 2 ^ 64 \<Longrightarrow> unat (a + sz r) + sizes sz rs \<le> 2 ^ 64"
  using unat_word_ariths(1)[of a "sz r"] by (cases "unat a + unat (sz r) = 2 ^ 64") auto

lemma unmap_ranges:
  assumes "buses env m E R"
    and "\<forall>r \<in> set rs. (emu_of r \<noteq> None \<or> ram_of r \<noteq> None) \<longrightarrow> range_size env r \<noteq> 0"
    and "unat (addr + off) + sizes (range_size env) rs \<le> 2 ^ 64"
    and "picked emu_of (range_slots (range_size env) (addr + off) rs) \<subseteq> E"
    and "picked ram_of (range_slots (range_size env) (addr + off) rs) \<subseteq> R"
  shows unmap_ranges_Ok:
    "for_ranges (unmap_range env cbs) (range_size env) addr off upd rs (m, w) = (Ok u, (m', w')) \<Longrightarrow>
      buses env m' (E - picked emu_of (range_slots (range_size env) (addr + off) rs))
        (R - picked ram_of (range_slots (range_size env) (addr + off) rs)) \<and> same_rest m m'"
    and unmap_ranges_total:
    "env_total env \<Longrightarrow> \<exists>u m' w'.
      for_ranges (unmap_range env cbs) (range_size env) addr off upd rs (m, w) = (Ok u, (m', w'))"
  using assms
proof (induction rs arbitrary: off upd m w E R)
  case Nil
  { case 1 then show ?case by simp }
  { case 2 then show ?case by simp }
next
  case (Cons r rs)
  { case (1 off upd m w E R)
    let ?a = "addr + off" and ?s = "range_size env"
    have "\<forall>q\<in>set (r # rs). emu_of q \<noteq> None \<longrightarrow> ?s q \<noteq> 0" "\<forall>q\<in>set (r # rs). ram_of q \<noteq> None \<longrightarrow> ?s q \<noteq> 0"
      using 1(3) by blast+
    note sube = picked_rest_sub[OF 1(4) this(1) 1(5)] and subr = picked_rest_sub[OF 1(4) this(2) 1(6)]
    obtain u1 m1 w1 where r: "unmap_range env cbs ?a r (m, w) = (Ok u1, (m1, w1))"
      and rs: "for_ranges (unmap_range env cbs) ?s addr (off + ?s r) (upd \<or> u1) rs (m1, w1) = (Ok u, (m', w'))"
      using 1(1) unfolding for_ranges.simps sbind_eq_Ok by (metis surj_pair)
    have s1: "buses env m1 (E - slot_at emu_of ?a r) (R - slot_at ram_of ?a r)" "same_rest m m1"
      using unmap_range_Ok[OF 1(2) r sube(1) subr(1)] by blast+
    have nz: "\<forall>r\<in>set rs. (emu_of r \<noteq> None \<or> ram_of r \<noteq> None) \<longrightarrow> ?s r \<noteq> 0" using 1(3) by simp
    have "buses env m' (E - slot_at emu_of ?a r - picked emu_of (range_slots ?s (?a + ?s r) rs))
        (R - slot_at ram_of ?a r - picked ram_of (range_slots ?s (?a + ?s r) rs)) \<and> same_rest m1 m'"
      unfolding add.assoc
      by (rule Cons.IH(1)[OF rs s1(1) nz])
        (use sizes_step[OF 1(4)] sube(2) subr(2) in \<open>simp_all add: add.assoc\<close>)
    then show ?case
      using same_rest_trans[OF s1(2)] unfolding range_slots.simps picked_simps diff_diff_Un by blast }
  { case (2 off upd m w E R)
    let ?a = "addr + off" and ?s = "range_size env"
    have "\<forall>q\<in>set (r # rs). emu_of q \<noteq> None \<longrightarrow> ?s q \<noteq> 0" "\<forall>q\<in>set (r # rs). ram_of q \<noteq> None \<longrightarrow> ?s q \<noteq> 0"
      using 2(3) by blast+
    note sube = picked_rest_sub[OF 2(4) this(1) 2(5)] and subr = picked_rest_sub[OF 2(4) this(2) 2(6)]
    obtain u1 m1 w1 where r: "unmap_range env cbs ?a r (m, w) = (Ok u1, (m1, w1))"
      using unmap_range_total[OF 2(2,1) sube(1) subr(1)] by blast
    have s1: "buses env m1 (E - slot_at emu_of ?a r) (R - slot_at ram_of ?a r)"
      using unmap_range_Ok[OF 2(2) r sube(1) subr(1)] by blast
    have nz: "\<forall>r\<in>set rs. (emu_of r \<noteq> None \<or> ram_of r \<noteq> None) \<longrightarrow> ?s r \<noteq> 0" using 2(3) by simp
    have "\<exists>u m' w'. for_ranges (unmap_range env cbs) ?s addr (off + ?s r) (upd \<or> u1) rs (m1, w1)
        = (Ok u, (m', w'))"
      by (rule Cons.IH(2)[OF 2(1) s1 nz])
        (use sizes_step[OF 2(4)] sube(2) subr(2) in \<open>simp_all add: add.assoc\<close>)
    with r show ?case by simp }
qed

lemma unmap_region_Ok:
  assumes ok: "unmap_region env addr region (m, w) = (Ok (), (m', w'))"
  obtains u w1 where "for_ranges (unmap_range env (cbs_changed m)) (range_size env) addr 0 False
    (ranges region) (m, w) = (Ok u, (m', w1))"
proof -
  from ok obtain u s2 s3 where
    loop: "for_ranges (unmap_range env (cbs_changed m)) (range_size env) addr 0 False (ranges region) (m, w)
          = (Ok u, s2)"
    and upd: "(if u then notify_updated env else sret ()) s2 = (Ok (), s3)"
    and cb: "sforeach (\<lambda>cb. world_op (cb_unmapped env cb)) (region_callbacks region) s3 = (Ok (), (m', w'))"
    unfolding unmap_region_def sbind_eq_Ok fst_conv by auto
  have "fst s2 = m'"
    using sforeach_world_mem[OF cb] upd notify_updated_mem[of env s2] by (auto split: if_splits)
  with loop that show thesis by (cases s2) auto
qed

lemma unmap_region_total:
  assumes tot: "env_total env"
    and loop: "for_ranges (unmap_range env (cbs_changed m)) (range_size env) addr 0 False (ranges region)
       (m, w) = (Ok u, (m', w1))"
  shows "\<exists>w'. unmap_region env addr region (m, w) = (Ok (), (m', w'))"
proof -
  obtain w2 where w2: "(if u then notify_updated env else sret ()) (m', w1) = (Ok (), (m', w2))"
    using notify_updated_total[OF tot, of m' w1] by (cases u) auto
  obtain w3 where "sforeach (\<lambda>cb. world_op (cb_unmapped env cb)) (region_callbacks region) (m', w2)
      = (Ok (), (m', w3))"
    using sforeach_world_total[of "region_callbacks region" "\<lambda>cb. cb_unmapped env cb" m' w2]
    by (auto simp: env_totalD[OF tot])
  with w2 show ?thesis unfolding unmap_region_def by (simp add: sbind_def loop)
qed

lemma region_slot_covers:
  assumes ok: "region_ok env (snd e)" "slot_ok region_size (fst e) (snd e)"
    and pick: "\<And>r. pick r \<noteq> None \<Longrightarrow> emu_of r \<noteq> None \<or> ram_of r \<noteq> None"
    and x: "(g, x) \<in> region_slots env pick e"
  shows "covers region_size e g"
proof -
  from x obtain r where r: "(g, r) \<in> set (range_slots (range_size env) (fst e) (ranges (snd e)))"
    and "pick r = Some x" by (auto simp: region_slots_def picked_def)
  then have nz: "range_size env r \<noteq> 0"
    using ok(1) range_slots_range[OF r] pick[of r] by (auto simp: region_ok_def)
  show ?thesis using region_slot_inside[OF ok r nz] nz unat_gt_0_iff[of "range_size env r"]
    by (auto simp: covers_def)
qed

lemma all_slots_remove:
  assumes inv: "addressable_inv region_size t"
    and ok: "\<forall>(a, region) \<in> set (addressable_iter t). region_ok env region"
    and pick: "\<And>r. pick r \<noteq> None \<Longrightarrow> emu_of r \<noteq> None \<or> ram_of r \<noteq> None"
    and sub: "S \<subseteq> set (addressable_iter t)" and mem': "e \<in> S"
  shows "all_slots env pick (S - {e}) = all_slots env pick S - region_slots env pick e"
proof -
  have mem: "e \<in> set (addressable_iter t)" using sub mem' by blast
  have "f = e" if f: "f \<in> set (addressable_iter t)" and "gx \<in> region_slots env pick f" "gx \<in> region_slots env pick e"
    for f gx
  proof -
    have "covers region_size f (fst gx)" "covers region_size e (fst gx)"
      using region_slot_covers[of env f pick "fst gx" "snd gx"] region_slot_covers[of env e pick "fst gx" "snd gx"]
        that mem ok inv_iter_ok[OF inv] pick by (metis case_prodD prod.collapse)+
    then show ?thesis using covers_unique[OF inv f _ mem] by blast
  qed
  then show ?thesis using sub mem' unfolding all_slots_def by blast
qed

lemma region_bound:
  assumes "region_ok env region" "slot_ok region_size a region"
  shows "unat a + sizes (range_size env) (ranges region) \<le> 2 ^ 64"
  using assms unat_region_size[OF assms(1)] by (auto simp: region_ok_def slot_ok_def)

lemma unmap_region_buses:
  assumes b: "buses env m E R" and rok: "region_ok env region" "slot_ok region_size a region"
    and sub: "region_slots env emu_of (a, region) \<subseteq> E" "region_slots env ram_of (a, region) \<subseteq> R"
  shows unmap_region_buses_Ok: "unmap_region env a region (m, w) = (Ok (), (m', w')) \<Longrightarrow>
      buses env m' (E - region_slots env emu_of (a, region)) (R - region_slots env ram_of (a, region)) \<and>
      same_rest m m'"
    and unmap_region_buses_total:
      "env_total env \<Longrightarrow> \<exists>m' w'. unmap_region env a region (m, w) = (Ok (), (m', w'))"
proof -
  have nz: "\<forall>r\<in>set (ranges region). (emu_of r \<noteq> None \<or> ram_of r \<noteq> None) \<longrightarrow> range_size env r \<noteq> 0"
    using rok(1) by (simp add: region_ok_def)
  have bound: "unat (a + 0) + sizes (range_size env) (ranges region) \<le> 2 ^ 64"
    using region_bound[OF rok] by simp
  have sub': "picked emu_of (range_slots (range_size env) (a + 0) (ranges region)) \<subseteq> E"
    "picked ram_of (range_slots (range_size env) (a + 0) (ranges region)) \<subseteq> R"
    using sub by (simp_all add: region_slots_def)
  { assume "unmap_region env a region (m, w) = (Ok (), (m', w'))"
    then obtain u w1 where "for_ranges (unmap_range env (cbs_changed m)) (range_size env) a 0 False
        (ranges region) (m, w) = (Ok u, (m', w1))" by (rule unmap_region_Ok)
    from unmap_ranges_Ok[OF b nz bound sub' this]
    show "buses env m' (E - region_slots env emu_of (a, region)) (R - region_slots env ram_of (a, region)) \<and>
      same_rest m m'" by (simp add: region_slots_def) }
  { assume tot: "env_total env"
    obtain u m' w1 where "for_ranges (unmap_range env (cbs_changed m)) (range_size env) a 0 False
        (ranges region) (m, w) = (Ok u, (m', w1))"
      using unmap_ranges_total[OF b nz bound sub' tot, of "cbs_changed m" False w] by blast
    from unmap_region_total[OF tot this]
    show "\<exists>m' w'. unmap_region env a region (m, w) = (Ok (), (m', w'))" by blast }
qed

lemma remove_region_Ok:
  assumes inv: "mem_inv env m" and ok: "remove_region env addr (m, w) = (Ok region, (m', w'))"
  shows "(addr, region) \<in> set (addressable_iter (regions m)) \<and> mem_inv env m' \<and>
    set (addressable_iter (regions m')) = set (addressable_iter (regions m)) - {(addr, region)} \<and>
    addressable_remove (regions m) addr = Ok (region, regions m') \<and> same_rest (m\<lparr>regions := regions m'\<rparr>) m'"
proof -
  let ?es = "set (addressable_iter (regions m))"
  from ok obtain t where t: "addressable_remove (regions m) addr = Ok (region, t)"
    and un: "unmap_region env addr region (m\<lparr>regions := t\<rparr>, w) = (Ok (), (m', w'))"
    by (auto simp: remove_region_def sbind_eq_Ok split: outcome.splits)
  have rinv: "addressable_inv region_size (regions m)" and
    rok: "\<And>a reg. (a, reg) \<in> ?es \<Longrightarrow> region_ok env reg" using inv by (auto simp: mem_inv_def)
  have all_ok: "\<forall>(a, reg) \<in> ?es. region_ok env reg" using rok by blast
  have mem: "(addr, region) \<in> ?es" using remove_Ok_iff[OF rinv] t by blast
  have b: "buses env (m\<lparr>regions := t\<rparr>) (all_slots env emu_of ?es) (all_slots env ram_of ?es)"
    using inv by (simp add: mem_inv_def buses_def)
  have "region_slots env emu_of (addr, region) \<subseteq> all_slots env emu_of ?es"
    "region_slots env ram_of (addr, region) \<subseteq> all_slots env ram_of ?es"
    using mem by (auto simp: all_slots_def)
  from unmap_region_buses_Ok[OF b rok[OF mem] inv_iter_ok[OF rinv mem] this un]
  have b': "buses env m' (all_slots env emu_of (?es - {(addr, region)})) (all_slots env ram_of (?es - {(addr, region)}))"
    and rest: "same_rest (m\<lparr>regions := t\<rparr>) m'"
    using all_slots_remove[OF rinv all_ok _ subset_refl mem, of emu_of]
      all_slots_remove[OF rinv all_ok _ subset_refl mem, of ram_of] by simp_all
  have "regions m' = t" "ports_inv env m'"
    using same_rest_fields[OF rest] inv by (auto simp: mem_inv_def ports_inv_def)
  then show ?thesis
    using mem b' rok t rest remove_inv[OF rinv t] remove_iter[OF rinv t] by (auto simp: mem_inv_def)
qed

lemma remove_region_succeeds:
  assumes inv: "mem_inv env m" and tot: "env_total env"
    and mem: "(addr, region) \<in> set (addressable_iter (regions m))"
  shows "\<exists>m' w'. remove_region env addr (m, w) = (Ok region, (m', w'))"
proof -
  let ?es = "set (addressable_iter (regions m))"
  have rinv: "addressable_inv region_size (regions m)" and
    rok: "\<And>a reg. (a, reg) \<in> ?es \<Longrightarrow> region_ok env reg" using inv by (auto simp: mem_inv_def)
  obtain t where t: "addressable_remove (regions m) addr = Ok (region, t)"
    using remove_Ok_iff[OF rinv] mem by blast
  have b: "buses env (m\<lparr>regions := t\<rparr>) (all_slots env emu_of ?es) (all_slots env ram_of ?es)"
    using inv by (simp add: mem_inv_def buses_def)
  have "region_slots env emu_of (addr, region) \<subseteq> all_slots env emu_of ?es"
    "region_slots env ram_of (addr, region) \<subseteq> all_slots env ram_of ?es"
    using mem by (auto simp: all_slots_def)
  from unmap_region_buses_total[OF b rok[OF mem] inv_iter_ok[OF rinv mem] this tot, of w]
  show ?thesis using t by (auto simp: remove_region_def)
qed

text \<open>A memory map is determined by its tables' contents.\<close>

lemma mem_inv_ext:
  assumes "mem_inv env m" "mem_inv env m'" "same_rest m m'"
  shows "m' = m"
proof -
  have reg: "regions m' = regions m" using same_rest_fields[OF assms(3)] by simp
  have "bus_inner (mem_mmio_bus m') = bus_inner (mem_mmio_bus m)"
    by (rule table_ext[of "mmio_size env"]) (use assms reg in \<open>auto simp: mem_inv_def buses_def\<close>)
  moreover have "ram_table m' = ram_table m"
    by (rule table_ext[of p_size]) (use assms reg in \<open>auto simp: mem_inv_def buses_def\<close>)
  ultimately have "mem_mmio_bus m' = mem_mmio_bus m" "mem_ram_bus m' = mem_ram_bus m" by simp_all
  then show ?thesis using assms(3) by (simp add: same_rest_def)
qed

lemma remove_after_add_region:
  assumes inv: "mem_inv env m" and rok: "region_ok env region" and tot: "env_total env"
    and ok: "add_region env addr region (m, w) = (Ok (), (m1, w1))"
  shows "\<exists>w2. remove_region env addr (m1, w1) = (Ok region, (m, w2))"
proof -
  have inv1: "mem_inv env m1" and mem: "(addr, region) \<in> set (addressable_iter (regions m1))"
    using add_region_inv[OF inv rok ok] by auto
  obtain m2 w2 where rem: "remove_region env addr (m1, w1) = (Ok region, (m2, w2))"
    using remove_region_succeeds[OF inv1 tot mem] by blast
  note rem2 = remove_region_Ok[OF inv1 rem]
  obtain t u w' where t: "addressable_add region_size (regions m) addr region = Ok t"
    and loop: "for_ranges (add_range env (cbs_changed m)) (range_size env) addr 0 False (ranges region)
       (m\<lparr>regions := t\<rparr>, w) = (Ok u, (m1, w'))"
    by (rule add_region_Ok[OF ok])
  have "buses env (m\<lparr>regions := t\<rparr>) (all_slots env emu_of (set (addressable_iter (regions m))))
      (all_slots env ram_of (set (addressable_iter (regions m))))"
    using inv by (simp add: mem_inv_def buses_def)
  from add_ranges_Ok[OF this loop] have r1: "same_rest (m\<lparr>regions := t\<rparr>) m1" by blast
  have rinv: "addressable_inv region_size (regions m)" using inv by (simp add: mem_inv_def)
  have "regions m1 = t" using same_rest_fields[OF r1] by simp
  then have "regions m2 = regions m" using remove_after_add[OF rinv t] rem2 by simp
  with r1 rem2 have "same_rest m m2"
    by (cases m; cases m1; cases m2) (auto simp: same_rest_def)
  then have "m2 = m" using mem_inv_ext[OF inv] rem2 by blast
  with rem show ?thesis by blast
qed

section \<open>Ports and clearing\<close>

lemma unat_ucast_port: "unat (ucast (port :: u16) :: u64) = unat port"
  using unsigned_less[of port, where ?'a = nat]
  by (simp add: unsigned_ucast_eq take_bit_nat_eq_self)

lemma ucast_port: "unat p < 2 ^ 16 \<Longrightarrow> ucast (ucast p :: u16) = p" for p :: u64
  by (rule word_unat_eq_iff[THEN iffD2])
    (simp add: unsigned_ucast_eq unsigned_take_bit_eq take_bit_nat_eq_self)

lemma add_io_region_inv:
  assumes inv: "mem_inv env m" and ok: "add_io_region env port region (m, w) = (Ok (), (m', w'))"
  shows "mem_inv env m' \<and> set (addressable_iter (io_regions m')) =
    insert (ucast port, region) (set (addressable_iter (io_regions m)))"
proof -
  from ok obtain t bus s2 where
    t: "addressable_add (io_region_size env) (io_regions m) (ucast port) region = Ok t"
    and bus: "mmio_bus_add env (mem_io_bus m) (ucast port) (io_range region) = Ok bus"
    and cb: "sforeach (\<lambda>cb. world_op (cb_mapped env cb (ucast port))) (io_callbacks region) s2 = (Ok (), (m', w'))"
    and s2: "fst s2 = m\<lparr>io_regions := t, mem_io_bus := bus\<rparr>"
    by (auto simp: add_io_region_def sbind_eq_Ok table_op_Ok_iff obind_Ok_iff)
  have m': "m' = m\<lparr>io_regions := t, mem_io_bus := bus\<rparr>" using sforeach_world_mem[OF cb] s2 by simp
  have p: "ports_inv env m" using inv by (simp add: mem_inv_def)
  then have inv1: "addressable_inv (io_region_size env) (io_regions m)" "bus_inv env (mem_io_bus m)"
    by (auto simp: ports_inv_def)
  from bus obtain tb where tb: "addressable_add (mmio_size env) (bus_inner (mem_io_bus m)) (ucast port)
      (io_range region) = Ok tb" and bus': "bus_inner bus = tb" by (auto simp: mmio_bus_add_Ok)
  have "ports_inv env m'"
    using p add_inv[OF inv1(1) t] add_inv[OF inv1(2) tb] add_iter[OF inv1(1) t] add_iter[OF inv1(2) tb]
      unsigned_less[of port, where ?'a = nat]
    by (auto simp: ports_inv_def m' bus' unat_ucast_port)
  then show ?thesis using inv add_iter[OF inv1(1) t] by (auto simp: mem_inv_def m' buses_def)
qed

lemma port_bus_remove:
  assumes inv: "addressable_inv (io_region_size env) t" "addressable_inv (mmio_size env) b"
    and eq: "set (addressable_iter b) = (\<lambda>(p, r). (p, io_range r)) ` set (addressable_iter t)"
    and t: "addressable_remove t p = Ok (region, t')" and b: "addressable_remove b p = Ok (d, b')"
  shows "set (addressable_iter b') = (\<lambda>(p, r). (p, io_range r)) ` set (addressable_iter t')"
proof -
  have mem: "(p, region) \<in> set (addressable_iter t)" "(p, d) \<in> set (addressable_iter b)"
    using remove_Ok_iff[OF inv(1)] t remove_Ok_iff[OF inv(2)] b by blast+
  have other: "q \<noteq> p" if "(q, r) \<in> set (addressable_iter t)" "(q, r) \<noteq> (p, region)" for q r
    using that iter_key_unique[OF inv(1) mem(1)] by auto
  have "d = io_range region" using iter_key_unique[OF inv(2) mem(2)] mem(1) eq by force
  then show ?thesis
    unfolding remove_iter[OF inv(1) t] remove_iter[OF inv(2) b] eq using other by force
qed

lemma remove_io_region_inv:
  assumes inv: "mem_inv env m" and ok: "remove_io_region env port (m, w) = (Ok region, (m', w'))"
  shows "mem_inv env m' \<and> set (addressable_iter (io_regions m')) =
    set (addressable_iter (io_regions m)) - {(ucast port, region)}"
proof -
  from ok obtain t d bus s2 where
    t: "addressable_remove (io_regions m) (ucast port) = Ok (region, t)"
    and bus: "mmio_bus_remove (mem_io_bus m) (ucast port) = Ok (d, bus)"
    and cb: "sforeach (\<lambda>cb. world_op (cb_unmapped env cb)) (io_callbacks region) s2 = (Ok (), (m', w'))"
    and s2: "fst s2 = m\<lparr>io_regions := t, mem_io_bus := bus\<rparr>"
    by (auto simp: remove_io_region_def unmap_io_region_def sbind_eq_Ok table_op_Ok_iff obind_Ok_iff
        split: outcome.splits)
  have m': "m' = m\<lparr>io_regions := t, mem_io_bus := bus\<rparr>" using sforeach_world_mem[OF cb] s2 by simp
  have p: "ports_inv env m" using inv by (simp add: mem_inv_def)
  then have inv1: "addressable_inv (io_region_size env) (io_regions m)" "bus_inv env (mem_io_bus m)"
    by (auto simp: ports_inv_def)
  from bus obtain tb where tb: "addressable_remove (bus_inner (mem_io_bus m)) (ucast port) = Ok (d, tb)"
    and bus': "bus_inner bus = tb" by (auto simp: mmio_bus_remove_Ok)
  have "ports_inv env m'"
    using p remove_inv[OF inv1(1) t] remove_inv[OF inv1(2) tb] remove_iter[OF inv1(1) t]
      port_bus_remove[OF inv1 _ t tb]
    by (auto simp: ports_inv_def m' bus')
  then show ?thesis using inv remove_iter[OF inv1(1) t] by (auto simp: mem_inv_def m' buses_def)
qed

lemma clear_regions:
  assumes tinv: "addressable_inv region_size t" and all_ok: "\<forall>(a, reg) \<in> set (addressable_iter t). region_ok env reg"
    and tot: "env_total env"
    and "set es \<subseteq> set (addressable_iter t)" "distinct es"
    and "buses env m (all_slots env emu_of (set es)) (all_slots env ram_of (set es))"
  shows "\<exists>m' w'. sforeach (\<lambda>(addr, region). unmap_region env addr region) es (m, w) = (Ok (), (m', w')) \<and>
    buses env m' {} {} \<and> same_rest m m'"
  using assms(4-)
proof (induction es arbitrary: m w)
  case Nil
  then show ?case by (simp add: all_slots_def)
next
  case (Cons e es)
  obtain a region where e: "e = (a, region)" by fastforce
  have mem: "(a, region) \<in> set (addressable_iter t)" using Cons.prems(1) e by simp
  have rok: "region_ok env region" using all_ok mem by blast
  have sub: "region_slots env emu_of (a, region) \<subseteq> all_slots env emu_of (set (e # es))"
    "region_slots env ram_of (a, region) \<subseteq> all_slots env ram_of (set (e # es))"
    by (auto simp: all_slots_def e)
  obtain m1 w1 where un: "unmap_region env a region (m, w) = (Ok (), (m1, w1))"
    using unmap_region_buses_total[OF Cons.prems(3) rok inv_iter_ok[OF tinv mem] sub tot] by blast
  have e_in: "(a, region) \<in> set (e # es)" by (simp add: e)
  have es: "set (e # es) - {(a, region)} = set es" using Cons.prems(2) e by auto
  have b: "buses env m1 (all_slots env emu_of (set es)) (all_slots env ram_of (set es))"
    and rest: "same_rest m m1"
    using unmap_region_buses_Ok[OF Cons.prems(3) rok inv_iter_ok[OF tinv mem] sub un]
      all_slots_remove[OF tinv all_ok _ Cons.prems(1) e_in, of emu_of]
      all_slots_remove[OF tinv all_ok _ Cons.prems(1) e_in, of ram_of] unfolding es by simp_all
  obtain m' w' where "sforeach (\<lambda>(addr, region). unmap_region env addr region) es (m1, w1) = (Ok (), (m', w'))"
    "buses env m' {} {}" "same_rest m1 m'"
    using Cons.IH[OF _ _ b, of w1] Cons.prems(1,2) by auto
  then show ?case using un same_rest_trans[OF rest] by (auto simp: e)
qed

lemma clear_ports:
  assumes tot: "env_total env"
    and "bus_inv env (mem_io_bus m)" "distinct (map fst es)" "\<forall>(p, r) \<in> set es. unat p < 2 ^ 16"
    and "bus_devices (mem_io_bus m) = (\<lambda>(p, r). (p, io_range r)) ` set es"
  shows "\<exists>bus w'. sforeach (\<lambda>(port, region). unmap_io_region env (ucast port) region) es (m, w)
      = (Ok (), (m\<lparr>mem_io_bus := bus\<rparr>, w')) \<and> bus_inv env bus \<and> bus_devices bus = {}"
  using assms(2-)
proof (induction es arbitrary: m w)
  case Nil
  then show ?case by (intro exI[of _ "mem_io_bus m"]) simp
next
  case (Cons e es)
  obtain p region where e: "e = (p, region)" by fastforce
  have uc: "ucast (ucast p :: u16) = p" using Cons.prems(3) e by (auto intro: ucast_port)
  have "(p, io_range region) \<in> bus_devices (mem_io_bus m)" using Cons.prems(4) e by force
  then obtain tb where tb: "addressable_remove (bus_inner (mem_io_bus m)) p = Ok (io_range region, tb)"
    using remove_Ok_iff[OF Cons.prems(1)] by blast
  let ?bus = "(mem_io_bus m)\<lparr>bus_inner := tb\<rparr>" and ?m = "m\<lparr>mem_io_bus := (mem_io_bus m)\<lparr>bus_inner := tb\<rparr>\<rparr>"
  obtain w1 where "sforeach (\<lambda>cb. world_op (cb_unmapped env cb)) (io_callbacks region) (?m, w) = (Ok (), (?m, w1))"
    using sforeach_world_total[of "io_callbacks region" "cb_unmapped env" ?m w, OF env_totalD(8)[OF tot]] by blast
  then have un: "unmap_io_region env (ucast p) region (m, w) = (Ok (), (?m, w1))"
    by (simp add: unmap_io_region_def sbind_def table_op_def mmio_bus_remove_def uc tb)
  have "bus_devices ?bus = (\<lambda>(p, r). (p, io_range r)) ` set es"
    using remove_iter[OF Cons.prems(1) tb] Cons.prems(2,4) e by (force simp: image_iff)
  then obtain bus w' where "sforeach (\<lambda>(port, region). unmap_io_region env (ucast port) region) es (?m, w1)
      = (Ok (), (m\<lparr>mem_io_bus := bus\<rparr>, w'))" "bus_inv env bus" "bus_devices bus = {}"
    using Cons.IH[of ?m w1] remove_inv[OF Cons.prems(1) tb] Cons.prems(2,3) by auto
  then show ?case using un by (auto simp: e)
qed

lemma iter_distinct_keys:
  assumes "addressable_inv sz t"
  shows "distinct (map fst (addressable_iter t))"
proof -
  have "map fst (addressable_iter t) = map s_addr (slots t)" by (simp add: addressable_iter_def)
  then show ?thesis using inv_increasing[OF assms] by (simp add: strict_sorted_iff)
qed

lemma empty_bus: "bus_devices bus = {} \<Longrightarrow> bus = mmio_bus_new"
  by (cases bus) (simp add: addressable_iter_def mmio_bus_new_def addressable_new_def)

lemma empty_ram_bus: "set (addressable_iter (ram_inner (bus_ram b))) = {} \<Longrightarrow> b = ram_bus_new"
  by (cases b) (simp add: addressable_iter_def ram_bus_new_def addressable_new_def)

lemma drain_eq: "addressable_drain t = (addressable_iter t, addressable_new)"
  by (simp add: addressable_drain_def addressable_iter_def addressable_new_def)

lemma mem_clear_total:
  assumes inv: "mem_inv env m" and tot: "env_total env"
  shows "\<exists>w'. mem_clear env (m, w) = (Ok (), (m\<lparr>regions := addressable_new, io_regions := addressable_new,
    mem_mmio_bus := mmio_bus_new, mem_ram_bus := ram_bus_new, mem_io_bus := mmio_bus_new\<rparr>, w'))"
proof -
  let ?es = "addressable_iter (regions m)" and ?m0 = "m\<lparr>regions := addressable_new\<rparr>"
  have rinv: "addressable_inv region_size (regions m)" and all_ok: "\<forall>(a, reg) \<in> set ?es. region_ok env reg"
    and p: "ports_inv env m" using inv by (auto simp: mem_inv_def)
  have "buses env ?m0 (all_slots env emu_of (set ?es)) (all_slots env ram_of (set ?es))"
    using inv by (simp add: mem_inv_def buses_def)
  moreover have "distinct ?es" using iter_distinct_keys[OF rinv] by (simp add: distinct_map)
  ultimately obtain m1 w1 where
    loop: "sforeach (\<lambda>(addr, region). unmap_region env addr region) ?es (?m0, w) = (Ok (), (m1, w1))"
    and b: "buses env m1 {} {}" and rest: "same_rest ?m0 m1"
    using clear_regions[OF rinv all_ok tot subset_refl] by blast
  note f = same_rest_fields[OF rest]
  let ?ios = "addressable_iter (io_regions m)" and ?m1 = "m1\<lparr>io_regions := addressable_new\<rparr>"
  obtain bus w2 where
    ports: "sforeach (\<lambda>(port, region). unmap_io_region env (ucast port) region) ?ios (?m1, w1)
      = (Ok (), (?m1\<lparr>mem_io_bus := bus\<rparr>, w2))" and "bus_devices bus = {}"
    using clear_ports[OF tot, of ?m1 ?ios w1] p f iter_distinct_keys[of "io_region_size env" "io_regions m"]
    by (auto simp: ports_inv_def)
  moreover have "mem_mmio_bus m1 = mmio_bus_new" "mem_ram_bus m1 = ram_bus_new"
    using b by (auto simp: buses_def intro: empty_bus empty_ram_bus)
  ultimately have "?m1\<lparr>mem_io_bus := bus\<rparr> = m\<lparr>regions := addressable_new, io_regions := addressable_new,
      mem_mmio_bus := mmio_bus_new, mem_ram_bus := ram_bus_new, mem_io_bus := mmio_bus_new\<rparr>"
    using rest empty_bus[of bus] by (cases m; cases m1) (simp add: same_rest_def)
  then show ?thesis
    using loop ports f by (simp add: mem_clear_def drain_eq sbind_def)
qed

section \<open>Reachable memory maps\<close>

text \<open>The maps built from the empty one by successful calls, with well-formed regions.\<close>

inductive mem_reachable :: "('d, 'w, 'c, 'k, 'l, 'u) mem_env \<Rightarrow> ('d, 'k, 'l, 'u) memory \<Rightarrow> bool"
  for env where
  new: "mem_reachable env memory_new"
| add: "mem_reachable env m \<Longrightarrow> region_ok env region \<Longrightarrow>
    add_region env addr region (m, w) = (Ok (), (m', w')) \<Longrightarrow> mem_reachable env m'"
| remove: "mem_reachable env m \<Longrightarrow> remove_region env addr (m, w) = (Ok region, (m', w')) \<Longrightarrow>
    mem_reachable env m'"
| add_io: "mem_reachable env m \<Longrightarrow> add_io_region env port io (m, w) = (Ok (), (m', w')) \<Longrightarrow>
    mem_reachable env m'"
| remove_io: "mem_reachable env m \<Longrightarrow> remove_io_region env port (m, w) = (Ok io, (m', w')) \<Longrightarrow>
    mem_reachable env m'"
| on_change: "mem_reachable env m \<Longrightarrow> register_change_callback env l (m, w) = (Ok (), (m', w')) \<Longrightarrow>
    mem_reachable env m'"
| on_update: "mem_reachable env m \<Longrightarrow> register_update_callback env u (m, w) = (Ok (), (m', w')) \<Longrightarrow>
    mem_reachable env m'"

lemma mem_inv_new: "mem_inv env memory_new"
  by (simp add: mem_inv_def memory_new_def buses_def ports_inv_def ram_bus_new_def mmio_bus_new_def all_slots_def)

lemma mem_inv_callbacks:
  "mem_inv env (m\<lparr>cbs_changed := ls, cbs_updated := us\<rparr>) = mem_inv env m"
  by (simp add: mem_inv_def buses_def ports_inv_def)

lemma keeps_world: "keeps fst (world_op g)"
  by (simp add: keeps_def world_op_def split: prod.split)

lemma keeps_for_ranges: "(\<And>gpa r. keeps v (body gpa r)) \<Longrightarrow> keeps v (for_ranges body sz addr off upd rs)"
  by (induction rs arbitrary: off upd) (auto intro: keeps_sret keeps_sbind)

lemma keeps_announce: "keeps fst (announce_region env cb e)"
  unfolding announce_region_def
proof (intro keeps_sbind keeps_for_ranges keeps_sret)
  fix gpa and r :: "'a mem_range"
  show "keeps fst (case r of RamRange p \<Rightarrow> sbind (world_op (cb_ram_added env cb gpa p)) (\<lambda>_. sret False)
      | _ \<Rightarrow> sret False)"
    by (cases r) (auto intro: keeps_sret keeps_sbind keeps_world)
qed

lemma register_change_callback_mem:
  assumes "register_change_callback env l (m, w) = (Ok (), (m', w'))"
  shows "m' = m\<lparr>cbs_changed := cbs_changed m @ [l]\<rparr>"
proof -
  from assms obtain s1 where
    loop: "sforeach (announce_region env l) (addressable_iter (regions m)) (m, w) = (Ok (), s1)"
    and m': "m' = (fst s1)\<lparr>cbs_changed := cbs_changed (fst s1) @ [l]\<rparr>"
    unfolding register_change_callback_def sbind_eq_Ok by (auto simp: table_op_def)
  have "keeps fst (sforeach (announce_region env l) (addressable_iter (regions m)))"
    by (intro keeps_sforeach keeps_announce)
  then have "fst s1 = m" using loop unfolding keeps_def by (metis fst_conv snd_conv)
  with m' show ?thesis by simp
qed

lemma mem_reachable_inv: "mem_reachable env m \<Longrightarrow> mem_inv env m"
proof (induction rule: mem_reachable.induct)
  case new
  show ?case by (rule mem_inv_new)
next
  case (on_change m l w m' w')
  then show ?case
    using register_change_callback_mem[OF on_change(2)]
      mem_inv_callbacks[where env = env and m = m and us = "cbs_updated m"] by simp
next
  case (on_update m u w m' w')
  then have "m' = m\<lparr>cbs_updated := cbs_updated m @ [u]\<rparr>"
    by (auto simp: register_update_callback_def sbind_eq_Ok table_op_Ok_iff world_op_Ok_iff simp del: world_op_eq)
  then show ?case using on_update mem_inv_callbacks[where env = env and m = m and ls = "cbs_changed m"] by simp
next
  case (add m region addr w m' w')
  then show ?case using add_region_inv[OF add(4,2,3)] by blast
next
  case (remove m addr w region m' w')
  then show ?case using remove_region_Ok[OF remove(3,2)] by blast
next
  case (add_io m port io w m' w')
  then show ?case using add_io_region_inv[OF add_io(3,2)] by blast
next
  case (remove_io m port w io m' w')
  then show ?case using remove_io_region_inv[OF remove_io(3,2)] by blast
qed

section \<open>A sample\<close>

text \<open>
  A hypervisor that accepts every call and logs the ranges made private, devices named by
  their size that answer with the offset, and a region of a device and a page of RAM.
\<close>

definition logging_env :: "(u64, (u64 \<times> u64) list, unit, unit, unit, unit) mem_env" where
  "logging_env = \<lparr>mmio_size = id, mmio_read = (\<lambda>d off n. sret off), mmio_write = (\<lambda>d off n v. sret ActNone),
     vm_mem_map = (\<lambda>_ _ _ _. sret ()), vm_unmap = (\<lambda>_ _. sret ()), vm_reset = sret (),
     vm_register_encrypted_range = (\<lambda>_. sret ()), vm_deregister_encrypted_range = (\<lambda>_. sret ()),
     vm_mark_private_memory = (\<lambda>gpa n _ log. (Ok (), log @ [(gpa, n)])),
     cb_ram_added = (\<lambda>_ _ _. sret ()), cb_ram_removed = (\<lambda>_ _ _. sret ()), cb_ram_updated = (\<lambda>_ _. sret ()),
     cb_mapped = (\<lambda>_ _. sret ()), cb_unmapped = (\<lambda>_. sret ())\<rparr>"

definition sample_region :: "(u64, unit) mem_region" where
  "sample_region = \<lparr>ranges = [Emulated 0x100, RamRange \<lparr>p_addr = 0x7000, p_size = 0x1000, p_fd = None\<rparr>],
     entries = [\<lparr>entry_size = 0x1100, entry_type = RegReserved\<rparr>], region_callbacks = [()]\<rparr>"

definition sample_mem :: "(u64, unit, unit, unit) memory" where
  "sample_mem = fst (snd (add_region logging_env 0x4000 sample_region (memory_new, [])))"

definition one_region :: "(u64, unit) mem_region \<Rightarrow> (u64, unit, unit, unit) memory" where
  "one_region region = memory_new\<lparr>regions := \<lparr>slots = [\<lparr>s_addr = 0x4000, s_backend = region\<rparr>]\<rparr>\<rparr>"

definition ram_pages :: "u64 \<Rightarrow> u64 \<Rightarrow> pages" where
  "ram_pages hva n = \<lparr>p_addr = hva, p_size = n, p_fd = None\<rparr>"

definition two_pages :: "(u64, unit) mem_region" where
  "two_pages = \<lparr>ranges = [RamRange (ram_pages 0x70000 0x1000), RamRange (ram_pages 0x90000 0x1000)],
     entries = [\<lparr>entry_size = 0x2000, entry_type = RegRam\<rparr>], region_callbacks = []\<rparr>"

lemma logging_env_total: "env_total logging_env"
  by (simp add: env_total_def logging_env_def)

lemma sample_region_ok: "region_ok logging_env sample_region"
  by (simp add: region_ok_def sample_region_def logging_env_def range_size_def)

lemma sample_table_add:
  "addressable_add region_size (regions (memory_new :: (u64, unit, unit, unit) memory)) 0x4000 sample_region
    = Ok \<lparr>slots = [\<lparr>s_addr = 0x4000, s_backend = sample_region\<rparr>]\<rparr>"
  by (simp add: table_eval memory_new_def addressable_new_def region_size_def sample_region_def)

lemma sample_table_full:
  "addressable_add region_size (regions (memory_new :: (u64, unit, unit, unit) memory)) 0xfffffffffffff000
    sample_region = Err (ExceedsLimit 0xfffffffffffff000 0x1100)"
  by (simp add: table_eval memory_new_def addressable_new_def region_size_def sample_region_def)

lemma sample_added:
  "\<exists>w. add_region logging_env 0x4000 sample_region (memory_new, []) = (Ok (), (sample_mem, w))"
  unfolding sample_mem_def
  using add_region_succeeds[OF mem_inv_new sample_region_ok logging_env_total sample_table_add, of "[]"]
  by auto

lemma sample_mem_regions: "set (addressable_iter (regions sample_mem)) = {(0x4000, sample_region)}"
  using sample_added add_region_inv[OF mem_inv_new sample_region_ok] by (fastforce simp: memory_new_def)

lemma sample_mem_reachable: "mem_reachable logging_env sample_mem"
  using sample_added mem_reachable.add[OF mem_reachable.new sample_region_ok] by blast

section \<open>Properties\<close>








text \<open>
  A request to make memory private or shared that lies inside a region of one RAM or
  device-memory range is passed to the hypervisor as one call with exactly the requested
  range; the loop ends.
\<close>

lemma mark_private_single_range:
  assumes "addressable_inv region_size (regions m)"
    and "(a, region) \<in> set (addressable_iter (regions m))"
    and "ranges region = [RamRange p] \<or> ranges region = [DevMem p]" and "region_size region = p_size p"
    and "unat a \<le> unat gpa" and "0 < unat sz"
    and "unat gpa + unat sz \<le> unat a + unat (p_size p)" and "unat a + unat (p_size p) < 2 ^ 64"
  shows "mark_private_memory env m gpa sz priv w =
    Some (vm_mark_private_memory env gpa sz priv w)"
proof -
  have cov: "covers region_size (a, region) gpa" using assms by (simp add: covers_def)
  note next_region = search_next_covers[OF assms(1,2) cov]
  have u: "unat (gpa + sz) = unat gpa + unat sz" "unat (a + p_size p) = unat a + unat (p_size p)"
    using assms by (auto intro: unat_plus_no_wrap)
  have le: "\<not> a + p_size p \<le> gpa" "max a gpa = gpa" "min (gpa + sz) (a + p_size p) = gpa + sz"
    "\<not> gpa + sz \<le> gpa" "gpa + sz \<le> a + p_size p"
    using assms u by (auto simp: word_le_nat_alt max_def min_def)
  have "mark_ranges env priv (gpa + sz) a gpa (ranges region) w =
      sbind (vm_mark_private_memory env gpa sz priv) (\<lambda>_. sret (False, gpa + sz)) w"
    using assms(3) le by (auto simp: Let_def)
  then show ?thesis
    unfolding mark_private_memory_def
    by (subst mark_loop.simps)
      (auto simp: next_region assms(4) le(5) sbind_def Let_def split: prod.split outcome.split)
qed


text \<open>
  C25. When a region has two adjacent RAM ranges, the second no larger than the first, a
  request for the whole region reaches only the first range: the second one is never marked,
  and the call reports success.
\<close>

theorem mark_private_skips_second_range:
  assumes "addressable_inv region_size (regions m)"
    and "(a, region) \<in> set (addressable_iter (regions m))"
    and "ranges region = [RamRange p, RamRange q]" and "region_size region = p_size p + p_size q"
    and "0 < unat (p_size q)" and "unat (p_size q) \<le> unat (p_size p)"
    and "unat a + unat (p_size p) + unat (p_size q) < 2 ^ 64"
  shows "mark_private_memory env m a (p_size p + p_size q) priv w =
    Some (vm_mark_private_memory env a (p_size p) priv w)"
proof -
  let ?e = "a + (p_size p + p_size q)"
  have u: "unat (p_size p + p_size q) = unat (p_size p) + unat (p_size q)"
    "unat (a + p_size p) = unat a + unat (p_size p)" "unat (a + p_size q) = unat a + unat (p_size q)"
    using assms by (auto intro: unat_plus_no_wrap)
  then have "unat ?e = unat a + unat (p_size p) + unat (p_size q)"
    using assms by (subst unat_plus_no_wrap) auto
  then have le: "\<not> a + p_size p \<le> a" "min ?e (a + p_size p) = a + p_size p" "a + p_size q \<le> a + p_size p"
    using assms u by (auto simp: word_le_nat_alt min_def)
  have cov: "covers region_size (a, region) a" using assms u by (simp add: covers_def)
  note next_region = search_next_covers[OF assms(1,2) cov]
  have "mark_ranges env priv ?e a a (ranges region) w =
      sbind (vm_mark_private_memory env a (p_size p) priv) (\<lambda>_. sret (False, a + p_size p)) w"
    using le by (simp add: assms(3) Let_def)
  then show ?thesis
    unfolding mark_private_memory_def
    by (subst mark_loop.simps)
      (auto simp: next_region assms(4) sbind_def Let_def split: prod.split outcome.split)
qed

theorem mark_private_skips_second_range_witness:
  "mark_private_memory logging_env (one_region two_pages) 0x4000 0x2000 True [] = Some (Ok (), [(0x4000, 0x1000)])"
  using mark_private_skips_second_range[of "one_region two_pages" "0x4000" two_pages "ram_pages 0x70000 0x1000"
      "ram_pages 0x90000 0x1000" logging_env True "[]"]
  by (simp add: one_region_def two_pages_def ram_pages_def addressable_iter_def table_eval region_size_def
      logging_env_def)

end
