(* ===== verification/Fw_Cfg.thy ===== *)
theory Fw_Cfg
  imports Guest_Memory
begin

text \<open>
  \<^verbatim>\<open>alioth/src/device/fw_cfg/fw_cfg.rs\<close>: the device through which the firmware reads its configuration, by bytes or by
  transfers into guest memory. The state is the device and host memory; files are of type \<open>'f\<close>, with their methods in the
  record \<open>file_ops\<close>, and do not change.
\<close>

unbundle bit_operations_syntax

section \<open>Data\<close>

definition SELECTOR_WR :: u16 where "SELECTOR_WR = shl 1 14"

definition FW_CFG_SIGNATURE :: nat where "FW_CFG_SIGNATURE = 0x00"

definition FW_CFG_ID :: nat where "FW_CFG_ID = 0x01"

definition FW_CFG_RAM_SIZE :: nat where "FW_CFG_RAM_SIZE = 0x03"

definition FW_CFG_NB_CPUS :: nat where "FW_CFG_NB_CPUS = 0x05"

definition FW_CFG_KERNEL_SIZE :: nat where "FW_CFG_KERNEL_SIZE = 0x08"

definition FW_CFG_INITRD_SIZE :: nat where "FW_CFG_INITRD_SIZE = 0x0b"

definition FW_CFG_KERNEL_DATA :: nat where "FW_CFG_KERNEL_DATA = 0x11"

definition FW_CFG_INITRD_DATA :: nat where "FW_CFG_INITRD_DATA = 0x12"

definition FW_CFG_CMDLINE_SIZE :: nat where "FW_CFG_CMDLINE_SIZE = 0x14"

definition FW_CFG_CMDLINE_DATA :: nat where "FW_CFG_CMDLINE_DATA = 0x15"

definition FW_CFG_SETUP_SIZE :: nat where "FW_CFG_SETUP_SIZE = 0x17"

definition FW_CFG_SETUP_DATA :: nat where "FW_CFG_SETUP_DATA = 0x18"

definition FW_CFG_FILE_DIR :: nat where "FW_CFG_FILE_DIR = 0x19"

definition FW_CFG_KNOWN_ITEMS :: nat where "FW_CFG_KNOWN_ITEMS = 0x20"

definition FW_CFG_FILE_FIRST :: u16 where "FW_CFG_FILE_FIRST = 0x20"

definition FW_CFG_DMA_SIGNATURE :: "u8 list" where "FW_CFG_DMA_SIGNATURE = [0x51, 0x45, 0x4d, 0x55, 0x20, 0x43, 0x46, 0x47]"

definition FW_CFG_FEATURE :: "u8 list" where "FW_CFG_FEATURE = [3, 0, 0, 0]"

definition FILE_NAME_SIZE :: nat where "FILE_NAME_SIZE = 56"

text \<open>Numbers in the order of the network, as \<^verbatim>\<open>Bu16\<close>, \<^verbatim>\<open>Bu32\<close> and \<^verbatim>\<open>Bu64\<close> hold them.\<close>

definition be_encode :: "nat \<Rightarrow> 'a::len word \<Rightarrow> u8 list" where
  "be_encode n w = rev (le_encode n w)"

definition be_decode :: "u8 list \<Rightarrow> 'a::len word" where
  "be_decode bs = le_decode (rev bs)"

definition swap_bytes32 :: "u32 \<Rightarrow> u32" where
  "swap_bytes32 w = be_decode (le_encode 4 w)"

text \<open>A name keeps at most 55 bytes and is filled with zeros.\<close>

definition create_file_name :: "u8 list \<Rightarrow> u8 list" where
  "create_file_name name = (let n = min (FILE_NAME_SIZE - 1) (length name) in take n name @ replicate (FILE_NAME_SIZE - n) 0)"

record 'f file_ops =
  fl_len :: "'f \<Rightarrow> (u64, string) outcome"
  fl_read :: "'f \<Rightarrow> u64 \<Rightarrow> nat \<Rightarrow> (u8 list, string) outcome"
  fl_read_byte_at :: "'f \<Rightarrow> u64 \<Rightarrow> (u8, string) outcome"

datatype 'f fw_content = FwBytes "u8 list" | FwSlice "u8 list" | FwFile u64 'f | FwLu16 u16 | FwLu32 u32 | FwLu64 u64

text \<open>The bytes of a content that is not a file.\<close>

definition plain_bytes :: "'f fw_content \<Rightarrow> u8 list option" where
  "plain_bytes c = (case c of FwBytes b \<Rightarrow> Some b | FwSlice b \<Rightarrow> Some b | FwFile _ _ \<Rightarrow> None
     | FwLu16 n \<Rightarrow> Some (le_encode 2 n) | FwLu32 n \<Rightarrow> Some (le_encode 4 n) | FwLu64 n \<Rightarrow> Some (le_encode 8 n))"

definition content_size :: "'f file_ops \<Rightarrow> 'f fw_content \<Rightarrow> (u32, string) outcome" where
  "content_size ops c =
     obind (case plain_bytes c of
              Some b \<Rightarrow> Ok (of_nat (length b))
            | None \<Rightarrow> (case c of FwFile offset f \<Rightarrow> obind (fl_len ops f) (\<lambda>len. Ok (len - offset)) | _ \<Rightarrow> Panic))
       (\<lambda>ret :: u64. if ret \<le> 0xffffffff then Ok (ucast ret) else Err ''InvalidInput'')"

definition content_read :: "'f file_ops \<Rightarrow> 'f fw_content \<Rightarrow> u32 \<Rightarrow> u8 option" where
  "content_read ops c offset = (case plain_bytes c of
       Some b \<Rightarrow> if unat offset < length b then Some (b ! unat offset) else None
     | None \<Rightarrow> (case c of
         FwFile o' f \<Rightarrow> (case fl_read_byte_at ops f (o' + ucast offset) of Ok b \<Rightarrow> Some b | _ \<Rightarrow> None)
       | _ \<Rightarrow> None))"

text \<open>
  \<^verbatim>\<open>Read\<close> for \<^verbatim>\<open>FwCfgContentAccess\<close>: every call begins at the offset of the access, which no call moves. \<^verbatim>\<open>read_exact\<close> calls
  it until the buffer is full or nothing comes.
\<close>

definition access_read :: "'f file_ops \<Rightarrow> 'f fw_content \<Rightarrow> u32 \<Rightarrow> nat \<Rightarrow> (u8 list, string) outcome" where
  "access_read ops c offset n = (case plain_bytes c of
       Some b \<Rightarrow> if unat offset \<le> length b then Ok (take n (drop (unat offset) b)) else Err ''UnexpectedEof''
     | None \<Rightarrow> (case c of FwFile o' f \<Rightarrow> obind (fl_read ops f (o' + ucast offset) n) (\<lambda>bs. Ok (take n bs)) | _ \<Rightarrow> Panic))"

function access_read_exact :: "'f file_ops \<Rightarrow> 'f fw_content \<Rightarrow> u32 \<Rightarrow> nat \<Rightarrow> (u8 list, string) outcome" where
  "access_read_exact ops c offset n =
     (if n = 0 then Ok []
      else case access_read ops c offset n of
             Ok bs \<Rightarrow> (if bs = [] then Err ''UnexpectedEof''
               else obind (access_read_exact ops c offset (n - length bs)) (\<lambda>rest. Ok (bs @ rest)))
           | Err e \<Rightarrow> Err e
           | Panic \<Rightarrow> Panic)"
  by auto
termination
  by (relation "measure (\<lambda>(_, _, _, n). n)") auto

declare access_read_exact.simps [simp del]

record 'f fw_item =
  fi_name :: "u8 list"
  fi_content :: "'f fw_content"

record 'f fw_cfg =
  fw_selector :: u16
  fw_data_offset :: u32
  fw_dma_address :: u64
  fw_items :: "'f fw_item list"
  fw_known :: "'f fw_content list"

section \<open>Filling the device\<close>

definition set_known :: "nat \<Rightarrow> 'f fw_content \<Rightarrow> 'f fw_cfg \<Rightarrow> 'f fw_cfg" where
  "set_known i c fw = fw\<lparr>fw_known := (fw_known fw)[i := c]\<rparr>"

text \<open>The directory is kept as bytes; its first four are the number of files.\<close>

definition get_file_dir :: "'f fw_cfg \<Rightarrow> (u8 list, string) outcome" where
  "get_file_dir fw = (case fw_known fw ! FW_CFG_FILE_DIR of FwBytes b \<Rightarrow> Ok b | _ \<Rightarrow> Panic)"

definition fw_cfg_file :: "u32 \<Rightarrow> u16 \<Rightarrow> u8 list \<Rightarrow> u8 list" where
  "fw_cfg_file sz select name = be_encode 4 sz @ be_encode 2 select @ [0, 0] @ create_file_name name"

definition add_item :: "'f file_ops \<Rightarrow> 'f fw_item \<Rightarrow> ('f fw_cfg, unit, string) op" where
  "add_item ops item fw = (case content_size ops (fi_content item) of
       Err e \<Rightarrow> (Err e, fw)
     | Panic \<Rightarrow> (Panic, fw)
     | Ok sz \<Rightarrow> (case get_file_dir fw of
         Ok dir \<Rightarrow>
           (let index = length (fw_items fw);
                dir1 = dir @ fw_cfg_file sz (FW_CFG_FILE_FIRST + of_nat index) (fi_name item);
                count = be_encode 4 (of_nat (index + 1) :: u32)
            in (Ok (), (set_known FW_CFG_FILE_DIR (FwBytes (count @ drop 4 dir1)) fw)\<lparr>fw_items := fw_items fw @ [item]\<rparr>))
       | Err e \<Rightarrow> (Err e, fw)
       | Panic \<Rightarrow> (Panic, fw)))"

definition fw_cfg_empty :: "'f fw_cfg" where
  "fw_cfg_empty = \<lparr>fw_selector = 0, fw_data_offset = 0, fw_dma_address = 0, fw_items = [],
     fw_known = (replicate FW_CFG_KNOWN_ITEMS (FwSlice []))[FW_CFG_SIGNATURE := FwSlice FW_CFG_DMA_SIGNATURE,
       FW_CFG_ID := FwSlice FW_CFG_FEATURE, FW_CFG_FILE_DIR := FwBytes (be_encode 4 (0 :: u32))]\<rparr>"

definition fw_cfg_new :: "'f file_ops \<Rightarrow> 'f fw_item list \<Rightarrow> ('f fw_cfg, string) outcome" where
  "fw_cfg_new ops items = (case sforeach (add_item ops) items fw_cfg_empty of
       (Ok _, fw) \<Rightarrow> Ok fw | (Err e, _) \<Rightarrow> Err e | (Panic, _) \<Rightarrow> Panic)"

definition add_ram_size :: "u64 \<Rightarrow> 'f fw_cfg \<Rightarrow> 'f fw_cfg" where
  "add_ram_size sz = set_known FW_CFG_RAM_SIZE (FwLu64 sz)"

definition add_cpu_count :: "u16 \<Rightarrow> 'f fw_cfg \<Rightarrow> 'f fw_cfg" where
  "add_cpu_count n = set_known FW_CFG_NB_CPUS (FwLu16 n)"

definition e820_entry :: "u64 \<times> mem_region_entry \<Rightarrow> u8 list" where
  "e820_entry r =
     (let ty = (case entry_type (snd r) of RegRam \<Rightarrow> Some (1 :: u32) | RegReserved \<Rightarrow> Some 2 | RegAcpi \<Rightarrow> Some 3 | RegPmem \<Rightarrow> Some 7
                | RegHidden \<Rightarrow> None)
      in case ty of None \<Rightarrow> [] | Some t \<Rightarrow> le_encode 8 (fst r) @ le_encode 8 (entry_size (snd r)) @ le_encode 4 t)"

definition add_e820 :: "'f file_ops \<Rightarrow> (u64 \<times> mem_region_entry) list \<Rightarrow> ('f fw_cfg, unit, string) op" where
  "add_e820 ops mem_regions = add_item ops
     \<lparr>fi_name = [0x65, 0x74, 0x63, 0x2f, 0x65, 0x38, 0x32, 0x30], fi_content = FwBytes (concat (map e820_entry mem_regions))\<rparr>"

text \<open>The three items that \<^verbatim>\<open>create_acpi_loader\<close> makes of the tables.\<close>

definition add_acpi :: "'f file_ops \<Rightarrow> 'f fw_item \<times> 'f fw_item \<times> 'f fw_item \<Rightarrow> ('f fw_cfg, unit, string) op" where
  "add_acpi ops tables = (case tables of (table_loader, acpi_rsdp, acpi_tables) \<Rightarrow>
     sbind (add_item ops table_loader) (\<lambda>_. sbind (add_item ops acpi_rsdp) (\<lambda>_. add_item ops acpi_tables)))"

text \<open>
  \<^verbatim>\<open>add_kernel_data\<close>: \<open>head\<close> are the first 4096 bytes of the opened file, the boot parameters, in which the number of
  setup sectors is at 0x1f1 and the type of the loader at 0x210.
\<close>

definition add_kernel_data :: "'f file_ops \<Rightarrow> (u8 list, string) outcome \<Rightarrow> 'f \<Rightarrow> ('f fw_cfg, unit, string) op" where
  "add_kernel_data ops head file fw = (case head of
       Err e \<Rightarrow> (Err e, fw)
     | Panic \<Rightarrow> (Panic, fw)
     | Ok buf \<Rightarrow>
         (let sects = (if buf ! 0x1f1 = 0 then 4 else buf ! 0x1f1);
              buffer = buf[0x1f1 := sects, 0x210 := 0xff];
              kernel_start = (unat sects + 1) * 512;
              fw1 = set_known FW_CFG_SETUP_DATA (FwBytes buffer) (set_known FW_CFG_SETUP_SIZE (FwLu32 (of_nat (length buffer))) fw)
          in case fl_len ops file of
               Ok len \<Rightarrow> (Ok (), set_known FW_CFG_KERNEL_DATA (FwFile (of_nat kernel_start) file)
                   (set_known FW_CFG_KERNEL_SIZE (FwLu32 (ucast len - of_nat kernel_start)) fw1))
             | Err e \<Rightarrow> (Err e, fw1)
             | Panic \<Rightarrow> (Panic, fw1)))"

definition add_initramfs_data :: "'f file_ops \<Rightarrow> 'f \<Rightarrow> ('f fw_cfg, unit, string) op" where
  "add_initramfs_data ops file fw = (case fl_len ops file of
       Ok len \<Rightarrow> (Ok (), set_known FW_CFG_INITRD_DATA (FwFile 0 file) (set_known FW_CFG_INITRD_SIZE (FwLu32 (ucast len)) fw))
     | Err e \<Rightarrow> (Err e, fw)
     | Panic \<Rightarrow> (Panic, fw))"

text \<open>The bytes include the terminating zero.\<close>

definition add_kernel_cmdline :: "u8 list \<Rightarrow> 'f fw_cfg \<Rightarrow> 'f fw_cfg" where
  "add_kernel_cmdline bytes fw =
     set_known FW_CFG_CMDLINE_DATA (FwBytes bytes) (set_known FW_CFG_CMDLINE_SIZE (FwLu32 (of_nat (length bytes))) fw)"

section \<open>Transfers\<close>

definition find_content :: "'f fw_cfg \<Rightarrow> u16 \<Rightarrow> 'f fw_content option" where
  "find_content fw selector =
     (if unat selector < length (fw_known fw) then Some (fw_known fw ! unat selector)
      else let i = unat (selector - FW_CFG_FILE_FIRST)
        in if i < length (fw_items fw) then Some (fi_content (fw_items fw ! i)) else None)"

definition dma_read_content :: "'f file_ops \<Rightarrow> ram_bus \<Rightarrow> 'f fw_content \<Rightarrow> u32 \<Rightarrow> u32 \<Rightarrow> u64 \<Rightarrow> (hmem, u32, string) op" where
  "dma_read_content ops bus c offset len address h = (case content_size ops c of
       Err e \<Rightarrow> (Err e, h)
     | Panic \<Rightarrow> (Panic, h)
     | Ok sz \<Rightarrow>
         (let left = (if offset \<le> sz then sz - offset else 0); op_size = min left len
          in case write_range (\<lambda>n w. (case access_read_exact ops c offset n of
                     Ok bs \<Rightarrow> Ok bs | Err e \<Rightarrow> Err (ReadError e) | Panic \<Rightarrow> Panic, w)) bus address (ucast op_size) ((), h) of
               (Ok _, (_, h')) \<Rightarrow> (Ok op_size, h')
             | (Err _, (_, h')) \<Rightarrow> (Err ''InvalidInput'', h')
             | (Panic, (_, h')) \<Rightarrow> (Panic, h')))"

definition dma_read :: "'f file_ops \<Rightarrow> ram_bus \<Rightarrow> u16 \<Rightarrow> u32 \<Rightarrow> u64 \<Rightarrow> ('f fw_cfg \<times> hmem, unit, string) op" where
  "dma_read ops bus selector len address s = (case find_content (fst s) selector of
       None \<Rightarrow> (Err ''NotFound'', s)
     | Some c \<Rightarrow> (case dma_read_content ops bus c (fw_data_offset (fst s)) len address (snd s) of
         (Ok op_size, h) \<Rightarrow> (Ok (), ((fst s)\<lparr>fw_data_offset := fw_data_offset (fst s) + op_size\<rparr>, h))
       | (Err e, h) \<Rightarrow> (Err e, (fst s, h))
       | (Panic, h) \<Rightarrow> (Panic, (fst s, h))))"

text \<open>
  \<^verbatim>\<open>do_dma\<close>: the request is a control word, a length and an address, all big-endian. The write direction is \<^verbatim>\<open>unimplemented!\<close>.
  The answer replaces the control word; failures are only logged.
\<close>

definition finish_dma :: "ram_bus \<Rightarrow> u64 \<Rightarrow> (unit, string) outcome \<times> 'f fw_cfg \<times> hmem \<Rightarrow> (unit, mem_error) outcome \<times> 'f fw_cfg \<times> hmem" where
  "finish_dma bus dma_address r = (case r of (ret, fw, h) \<Rightarrow>
     (case ret of
        Panic \<Rightarrow> (Panic, (fw, h))
      | _ \<Rightarrow> (case ram_bus_write_t bus dma_address (be_encode 4 (if ret = Ok () then 0 else 1 :: u32)) h of
          (Panic, h') \<Rightarrow> (Panic, (fw, h'))
        | (_, h') \<Rightarrow> (Ok (), (fw, h')))))"

definition do_dma :: "'f file_ops \<Rightarrow> ram_bus \<Rightarrow> ('f fw_cfg \<times> hmem, unit, mem_error) op" where
  "do_dma ops bus s = (let dma_address = fw_dma_address (fst s)
     in case ram_bus_read_t bus (snd s) 16 dma_address of
       Err e \<Rightarrow> (Ok (), s)
     | Panic \<Rightarrow> (Panic, s)
     | Ok access \<Rightarrow>
         (let control = (be_decode (take 4 access) :: u32); len = be_decode (take 4 (drop 4 access));
              addr = be_decode (drop 8 access);
              s1 = (if bit control 3 then ((fst s)\<lparr>fw_selector := of_bool (bit control 3)\<rparr>, snd s) else s)
          in finish_dma bus dma_address
               (if bit control 1 then dma_read ops bus (fw_selector (fst s1)) len addr s1
                else if bit control 4 then (Panic, s1)
                else if bit control 2 then (Ok (), ((fst s1)\<lparr>fw_data_offset := fw_data_offset (fst s1) + len\<rparr>, snd s1))
                else (Err ''InvalidData'', s1))))"

section \<open>Accesses of the guest\<close>

definition read_data :: "'f file_ops \<Rightarrow> 'f fw_cfg \<Rightarrow> u8 \<times> 'f fw_cfg" where
  "read_data ops fw = (case Option.bind (find_content fw (fw_selector fw)) (\<lambda>c. content_read ops c (fw_data_offset fw)) of
       Some val \<Rightarrow> (val, fw\<lparr>fw_data_offset := fw_data_offset fw + 1\<rparr>)
     | None \<Rightarrow> (0, fw))"

definition fw_cfg_size :: u64 where "fw_cfg_size = 16"

definition fw_cfg_read :: "'f file_ops \<Rightarrow> u64 \<Rightarrow> u8 \<Rightarrow> 'f fw_cfg \<Rightarrow> u64 \<times> 'f fw_cfg" where
  "fw_cfg_read ops offset sz fw =
     (let port = ucast offset + (0x510 :: u16)
      in if port = 0x510 then (0, fw)
         else if (port, sz) = (0x511, 1) then (case read_data ops fw of (b, fw') \<Rightarrow> (ucast b, fw'))
         else if (port, sz) = (0x514, 4) then (ucast (swap_bytes32 (ucast (shr (fw_dma_address fw) 32))), fw)
         else if (port, sz) = (0x518, 4) then (ucast (swap_bytes32 (ucast (fw_dma_address fw AND 0xffffffff))), fw)
         else (0, fw))"

definition fw_cfg_write :: "'f file_ops \<Rightarrow> ram_bus \<Rightarrow> u64 \<Rightarrow> u8 \<Rightarrow> u64 \<Rightarrow> ('f fw_cfg \<times> hmem, unit, mem_error) op" where
  "fw_cfg_write ops bus offset sz val s =
     (let port = ucast offset + (0x510 :: u16); fw = fst s; swapped = (ucast (swap_bytes32 (ucast val)) :: u64)
      in if (port, sz) = (0x510, 2) then (Ok (), (fw\<lparr>fw_selector := ucast val, fw_data_offset := 0\<rparr>, snd s))
         else if (port, sz) = (0x514, 4)
         then (Ok (), (fw\<lparr>fw_dma_address := (fw_dma_address fw AND 0xffffffff) OR shl swapped 32\<rparr>, snd s))
         else if (port, sz) = (0x518, 4)
         then do_dma ops bus (fw\<lparr>fw_dma_address := (fw_dma_address fw AND NOT 0xffffffff) OR swapped\<rparr>, snd s)
         else (Ok (), s))"

section \<open>The directory\<close>

definition size_of :: "'f file_ops \<Rightarrow> 'f fw_item \<Rightarrow> u32" where
  "size_of ops item = (case content_size ops (fi_content item) of Ok sz \<Rightarrow> sz | _ \<Rightarrow> 0)"

definition dir_entries :: "'f file_ops \<Rightarrow> nat \<Rightarrow> 'f fw_item list \<Rightarrow> u8 list list" where
  "dir_entries ops n items = map (\<lambda>(i, item). fw_cfg_file (size_of ops item) (FW_CFG_FILE_FIRST + of_nat i) (fi_name item)) (enumerate n items)"

definition dir_bytes :: "'f file_ops \<Rightarrow> 'f fw_item list \<Rightarrow> u8 list" where
  "dir_bytes ops items = be_encode 4 (of_nat (length items) :: u32) @ concat (dir_entries ops 0 items)"

lemma length_be_encode [simp]: "length (be_encode n w) = n"
  by (simp add: be_encode_def)

lemma length_fw_cfg_file [simp]: "length (fw_cfg_file sz select name) = 64"
  by (simp add: fw_cfg_file_def create_file_name_def FILE_NAME_SIZE_def Let_def)

lemma add_item_dir:
  assumes "add_item ops item fw = (Ok (), fw')" "length (fw_known fw) = 32"
    and "fw_known fw ! 0x19 = FwBytes (c @ es)" "length c = 4"
  shows "length (fw_known fw') = 32 \<and> fw_items fw' = fw_items fw @ [item] \<and>
    fw_known fw' ! 0x19 = FwBytes (be_encode 4 (of_nat (length (fw_items fw')) :: u32) @ es @
      fw_cfg_file (size_of ops item) (FW_CFG_FILE_FIRST + of_nat (length (fw_items fw))) (fi_name item)) \<and>
    (\<exists>sz. content_size ops (fi_content item) = Ok sz)"
  using assms by (auto simp: add_item_def get_file_dir_def FW_CFG_FILE_DIR_def set_known_def size_of_def Let_def split: outcome.splits)

lemma add_items_dir:
  assumes "sforeach (add_item ops) items fw = (Ok (), fw')" "length (fw_known fw) = 32"
    and "fw_known fw ! 0x19 = FwBytes (be_encode 4 (of_nat (length (fw_items fw)) :: u32) @ es)"
  shows "length (fw_known fw') = 32 \<and> fw_items fw' = fw_items fw @ items \<and>
    fw_known fw' ! 0x19 = FwBytes (be_encode 4 (of_nat (length (fw_items fw')) :: u32) @ es @
      concat (dir_entries ops (length (fw_items fw)) items)) \<and> (\<forall>item \<in> set items. \<exists>sz. content_size ops (fi_content item) = Ok sz)"
  using assms
proof (induction items arbitrary: fw es)
  case Nil
  then show ?case by (simp add: dir_entries_def)
next
  case (Cons item items)
  obtain fw1 where 1: "add_item ops item fw = (Ok (), fw1)" "sforeach (add_item ops) items fw1 = (Ok (), fw')"
    using Cons.prems(1) by (auto simp: sbind_eq_Ok)
  note d = add_item_dir[OF 1(1) Cons.prems(2,3)]
  show ?case using d Cons.IH[OF 1(2)] by (simp add: dir_entries_def)
qed

lemma fw_cfg_new_dir:
  assumes "fw_cfg_new ops items = Ok fw"
  shows "length (fw_known fw) = 32 \<and> fw_items fw = items \<and> fw_known fw ! 0x19 = FwBytes (dir_bytes ops items) \<and>
    (\<forall>item \<in> set items. \<exists>sz. content_size ops (fi_content item) = Ok sz)"
proof -
  have run: "sforeach (add_item ops) items fw_cfg_empty = (Ok (), fw)"
    using assms by (auto simp: fw_cfg_new_def split: prod.splits outcome.splits)
  have "length (fw_known (fw_cfg_empty :: 'a fw_cfg)) = 32" "fw_items (fw_cfg_empty :: 'a fw_cfg) = []"
    "fw_known (fw_cfg_empty :: 'a fw_cfg) ! 0x19 = FwBytes (be_encode 4 (0 :: u32) @ [])"
    by (simp_all add: fw_cfg_empty_def FW_CFG_KNOWN_ITEMS_def FW_CFG_SIGNATURE_def FW_CFG_ID_def FW_CFG_FILE_DIR_def)
  then show ?thesis using add_items_dir[OF run, of "[]"] by (simp add: dir_bytes_def)
qed

text \<open>Reading the data port a number of times.\<close>

fun read_port :: "'f file_ops \<Rightarrow> nat \<Rightarrow> 'f fw_cfg \<Rightarrow> u64 list" where
  "read_port ops 0 fw = []"
| "read_port ops (Suc n) fw = (case fw_cfg_read ops 1 1 fw of (b, fw') \<Rightarrow> b # read_port ops n fw')"

lemma find_content_offset [simp]: "find_content (fw\<lparr>fw_data_offset := off\<rparr>) = find_content fw"
  by (simp add: find_content_def fun_eq_iff Let_def)

lemma read_port_content:
  assumes "find_content fw (fw_selector fw) = Some c" "plain_bytes c = Some b" "length b < 2 ^ 32"
    and "unat (fw_data_offset fw) + n \<le> length b"
  shows "read_port ops n fw = map ucast (take n (drop (unat (fw_data_offset fw)) b))"
  using assms
proof (induction n arbitrary: fw)
  case (Suc n)
  let ?o = "unat (fw_data_offset fw)" and ?fw = "fw\<lparr>fw_data_offset := fw_data_offset fw + 1\<rparr>"
  have o: "?o < length b" "unat (fw_data_offset fw + 1) = ?o + 1" using Suc.prems(3,4) by (simp_all add: unat_word_ariths)
  then have "fw_cfg_read ops 1 1 fw = (ucast (b ! ?o), ?fw)"
    using Suc.prems(1,2) by (simp add: fw_cfg_read_def read_data_def content_read_def)
  moreover have "read_port ops n ?fw = map ucast (take n (drop (?o + 1) b))"
    using Suc.IH[of ?fw] Suc.prems o by simp
  moreover have "take (Suc n) (drop ?o b) = b ! ?o # take n (drop (?o + 1) b)" using o(1) by (simp add: Cons_nth_drop_Suc[symmetric])
  ultimately show ?case by simp
qed simp

text \<open>Selecting an item through its port.\<close>

definition selected :: "u16 \<Rightarrow> 'f fw_cfg \<Rightarrow> 'f fw_cfg" where
  "selected i fw = fw\<lparr>fw_selector := i, fw_data_offset := 0\<rparr>"

lemma select_port: "fw_cfg_write ops bus 0 2 (ucast i) (fw, h) = (Ok (), (selected i fw, h))"
  proof -
  have "ucast (ucast i :: u64) = i" for i :: u16 by (rule bit_word_eqI) (simp add: bit_simps)
  then show ?thesis by (simp add: fw_cfg_write_def selected_def)
qed

lemma size_of_plain:
  assumes "plain_bytes (fi_content item) = Some b" "content_size ops (fi_content item) = Ok sz" "length b < 2 ^ 64"
  shows "length b < 2 ^ 32 \<and> size_of ops item = of_nat (length b)"
proof -
  have u: "unat (of_nat (length b) :: u64) = length b" using assms(3) by (simp add: unat_of_nat)
  have le: "(of_nat (length b) :: u64) \<le> 0xffffffff" and sz: "sz = ucast (of_nat (length b) :: u64)"
    using assms(1,2) by (auto simp: content_size_def split: if_splits)
  have "length b < 2 ^ 32" using le u by (simp add: word_le_nat_alt)
  moreover have "(ucast (of_nat (length b) :: u64) :: u32) = of_nat (length b)"
    by (simp add: word_unat_eq_iff unsigned_ucast_eq unat_of_nat take_bit_eq_mod mod_mod_cancel)
  ultimately show ?thesis using sz assms(2) by (simp add: size_of_def)
qed

lemma take_drop_concat:
  assumes "\<forall>x \<in> set xs. length x = k" "i < length xs"
  shows "take k (drop (k * i) (concat xs)) = xs ! i"
  using assms
proof (induction xs arbitrary: i)
  case (Cons x xs)
  then show ?case by (cases i) auto
qed simp


text \<open>A device with one file and no files of the host.\<close>

definition no_files :: "unit file_ops" where
  "no_files = \<lparr>fl_len = (\<lambda>_. Err []), fl_read = (\<lambda>_ _ _. Err []), fl_read_byte_at = (\<lambda>_ _. Err [])\<rparr>"


section \<open>Transfers\<close>

lemma dma_read_selector: "fw_selector (fst (snd (dma_read ops bus sel len addr s))) = fw_selector (fst s)"
  by (simp add: dma_read_def split: option.split prod.split outcome.split)

lemma finish_dma_state [simp]: "fst (snd (finish_dma bus addr r)) = fst (snd r)"
  by (auto simp: finish_dma_def split: prod.split outcome.split)

text \<open>
  A transfer that selects an item takes the wrong one: whatever selector its control word carries, item 1 is
  selected, and the position in the item is not reset.
\<close>

lemma dma_select_ignores_selector:
  assumes "ram_bus_read_t bus h 16 (fw_dma_address fw) = Ok access" "bit (be_decode (take 4 access) :: u32) 3"
  shows "fw_selector (fst (snd (do_dma ops bus (fw, h)))) = 1 \<and>
    (bit (be_decode (take 4 access) :: u32) 2 \<and> \<not> bit (be_decode (take 4 access) :: u32) 1 \<and> \<not> bit (be_decode (take 4 access) :: u32) 4 \<longrightarrow>
      fw_data_offset (fst (snd (do_dma ops bus (fw, h)))) = fw_data_offset fw + be_decode (take 4 (drop 4 access)))"
proof -
  let ?c = "be_decode (take 4 access) :: u32" and ?len = "be_decode (take 4 (drop 4 access)) :: u32"
  have "fst (snd (do_dma ops bus (fw, h))) = fst (snd
    (if bit ?c 1 then dma_read ops bus 1 ?len (be_decode (drop 8 access)) (fw\<lparr>fw_selector := 1\<rparr>, h)
     else if bit ?c 4 then (Panic, (fw\<lparr>fw_selector := 1\<rparr>, h))
     else if bit ?c 2 then (Ok (), (fw\<lparr>fw_selector := 1, fw_data_offset := fw_data_offset fw + ?len\<rparr>, h))
     else (Err ''InvalidData'', (fw\<lparr>fw_selector := 1\<rparr>, h))))"
    using assms by (simp add: do_dma_def Let_def)
  then show ?thesis by (simp add: dma_read_selector)
qed

lemma access_read_exact_plain:
  assumes "plain_bytes c = Some b" "unat offset + n \<le> length b"
  shows "access_read_exact ops c offset n = Ok (take n (drop (unat offset) b))"
proof (cases "n = 0")
  case False
  have "access_read ops c offset n = Ok (take n (drop (unat offset) b))" "take n (drop (unat offset) b) \<noteq> []"
    "length (take n (drop (unat offset) b)) = n" using assms False by (auto simp: access_read_def)
  then show ?thesis using False by (subst access_read_exact.simps) (simp add: access_read_exact.simps[of _ _ _ 0])
qed (simp add: access_read_exact.simps)

text \<open>
  C40.  A transfer that crosses from one RAM slot to the next repeats itself: the part in the second slot begins again
  with the first byte of the transfer instead of going on.
\<close>

theorem dma_across_slots_repeats:
  assumes "plain_bytes c = Some b" "length b < 2 ^ 32" "unat offset + unat n1 + unat n2 \<le> length b" "n1 \<noteq> 0" "n2 \<noteq> 0"
    and "ram_get_partial_slice (bus_ram bus) gpa (n1 + n2) = Ok (a1, n1)" "ram_get_partial_slice (bus_ram bus) (gpa + n1) n2 = Ok (a2, n2)"
  shows "dma_read_content ops bus c offset (ucast (n1 + n2)) gpa h = (Ok (ucast (n1 + n2)),
    h_write (h_write h a1 (take (unat n1) (drop (unat offset) b))) a2 (take (unat n2) (drop (unat offset) b)))"
proof -
  let ?len = "ucast (n1 + n2) :: u32" and ?data = "drop (unat offset) b"
  have u: "unat (n1 + n2) = unat n1 + unat n2" using assms(2,3) by (simp add: unat_word_ariths)
  have "unat ?len = take_bit 32 (unat (n1 + n2))" by (simp only: unsigned_ucast_eq unsigned_take_bit_eq) simp
  also have "\<dots> = unat n1 + unat n2" unfolding u by (rule take_bit_nat_eq_self) (use assms(2,3) in simp)
  finally have ul: "unat ?len = unat n1 + unat n2" .
  have up: "unat (ucast x :: u64) = unat x" for x :: u32
  proof -
    have "unat x < 2 ^ 32" using unsigned_less[of x] by simp
    then show ?thesis by (simp add: unsigned_ucast_eq take_bit_nat_eq_self)
  qed
  have l64: "ucast ?len = n1 + n2" by (simp only: word_unat_eq_iff up ul u)
  have "(of_nat (length b) :: u64) \<le> 0xffffffff" using assms(2) by (simp add: word_le_nat_alt unat_of_nat)
  then have size: "content_size ops c = Ok (ucast (of_nat (length b) :: u64))" using assms(1) by (simp add: content_size_def)
  have sz: "unat (ucast (of_nat (length b) :: u64) :: u32) = length b"
    using assms(2) by (simp add: unsigned_ucast_eq unat_of_nat take_bit_eq_mod)
  have off: "offset \<le> ucast (of_nat (length b) :: u64)" using sz assms(3) by (simp add: word_le_nat_alt)
  have "unat (ucast (of_nat (length b) :: u64) - offset) = length b - unat offset" using off sz by (simp add: unat_sub)
  then have "?len \<le> ucast (of_nat (length b) :: u64) - offset" using ul assms(3) by (simp add: word_le_nat_alt)
  then have op: "min (ucast (of_nat (length b) :: u64) - offset) ?len = ?len" by (rule min.absorb2)
  have ne: "n1 + n2 \<noteq> 0" using u assms(4) by (auto simp: unat_eq_zero)
  have rd: "access_read_exact ops c offset (unat n1) = Ok (take (unat n1) ?data)" "access_read_exact ops c offset (unat n2) = Ok (take (unat n2) ?data)"
    using access_read_exact_plain[OF assms(1)] assms(3) by simp_all
  show ?thesis
    unfolding dma_read_content_def size Let_def
    using off op ne assms(4-7) rd
    by (simp add: l64 write_range_def slice_iter_mut_def for_slices.simps iter_next_def)
qed

theorem dma_across_slots_repeats_witness:
  "dma_read_content no_files \<lparr>bus_ram = two_maps\<rparr> (FwBytes [1, 2, 3, 4]) 0 4 0x1002 (\<lambda>_. 0) =
     (Ok 4, h_write (h_write (\<lambda>_. 0) 0x7002 [1, 2]) 0x5000 [1, 2])"
proof -
  have "ram_get_partial_slice two_maps 0x1002 4 = Ok (0x7002, 2)" "ram_get_partial_slice two_maps 0x1004 2 = Ok (0x5000, 2)"
    by (simp_all add: ram_get_partial_slice_def pages_get_partial_slice_def get_valid_range_def two_maps_def table_eval Let_def)
  then show ?thesis
    using dma_across_slots_repeats[of "FwBytes [1, 2, 3, 4]" "[1, 2, 3, 4]" 0 2 2 "\<lparr>bus_ram = two_maps\<rparr>" "0x1002" "0x7002" "0x5000" no_files "\<lambda>_. 0"]
    by (simp add: plain_bytes_def)
qed

end
