(* ===== verification/Virt_Queue.thy ===== *)
theory Virt_Queue
  imports Guest_Ram
begin

text \<open>
  \<^verbatim>\<open>alioth/src/virtio/queue/queue.rs\<close>: the device side of a virtqueue over either ring format.
  The trait \<^verbatim>\<open>VirtQueue\<close> is the record \<open>vq_ops\<close> of its methods, which act on a state \<open>'s\<close> that
  holds guest memory and the device. Walking a descriptor chain and waiting for a quiet
  guest may not return, so these two methods give \<open>None\<close> for a call that never returns.
\<close>

section \<open>Data\<close>

text \<open>\<^verbatim>\<open>virtio::Error\<close>; causes from the operating system and other layers are opaque.\<close>

datatype virtio_error =
    VirtioHv hv_error
  | VirtioMemory mem_error
  | VirtioPciBus string
  | AccessFile string
  | LockFile string
  | VirtioSystem string
  | CreatePoll string
  | EventSource string
  | PollEvents string
  | WorkerThread string
  | InvalidDescriptor u16
  | InvalidQueueIndex u16
  | InvalidMsixVector u16
  | InvalidBuffer
  | VirtioVu string
  | VirtioVhost string
  | VirtioFuse string

definition DESC_NEXT :: u16 where "DESC_NEXT = 1"
definition DESC_WRITE :: u16 where "DESC_WRITE = 2"
definition DESC_INDIRECT :: u16 where "DESC_INDIRECT = 4"
definition DESC_AVAIL :: u16 where "DESC_AVAIL = 0x80"
definition DESC_USED :: u16 where "DESC_USED = 0x8000"

record queue_reg =
  reg_size :: u16
  reg_desc :: u64
  reg_driver :: u64
  reg_device :: u64
  reg_enabled :: bool

record desc_chain =
  chain_id :: u16
  chain_delta :: u16
  readable :: "slice list"
  writable :: "slice list"

record ('i, 's) vq_ops =
  desc_avail :: "'i \<Rightarrow> 's \<Rightarrow> bool"
  get_avail :: "'i \<Rightarrow> 's \<Rightarrow> (desc_chain option, virtio_error) outcome option"
  set_used :: "'i \<Rightarrow> u16 \<Rightarrow> u32 \<Rightarrow> 's \<Rightarrow> 's"
  enable_notification :: "bool \<Rightarrow> 's \<Rightarrow> 's option"
  interrupt_enabled :: "'i \<Rightarrow> u16 \<Rightarrow> 's \<Rightarrow> bool"
  index_add :: "'i \<Rightarrow> u16 \<Rightarrow> 'i"

datatype status = Done u32 | Deferred | Break

text \<open>\<^verbatim>\<open>Queue\<close> without the references it holds; \<open>deferred\<close> is the hash map of parked chains.\<close>

record 'i queue =
  q_avail :: 'i
  q_used :: 'i
  q_deferred :: "u16 \<Rightarrow> desc_chain option"

definition queue_new :: "'i \<Rightarrow> 'i queue" where
  "queue_new init = \<lparr>q_avail = init, q_used = init, q_deferred = Map.empty\<rparr>"

section \<open>Handling chains\<close>

definition push_used :: "('i, 's) vq_ops \<Rightarrow> desc_chain \<Rightarrow> u32 \<Rightarrow> 'i queue \<times> 's \<Rightarrow> 'i queue \<times> 's" where
  "push_used vq chain len qs = (case qs of (q, s) \<Rightarrow>
     (q\<lparr>q_used := index_add vq (q_used q) (chain_delta chain)\<rparr>,
      set_used vq (q_used q) (chain_id chain) len s))"

text \<open>
  The handler \<open>op\<close> may consume the buffers of the chain, so it returns the chain as it leaves
  it; \<open>irq\<close> is \<^verbatim>\<open>IrqSender::queue_irq\<close>.
\<close>

definition handle_deferred :: "('i, 's) vq_ops \<Rightarrow> (u16 \<Rightarrow> 's \<Rightarrow> 's) \<Rightarrow> u16 \<Rightarrow> u16
    \<Rightarrow> (desc_chain \<Rightarrow> 's \<Rightarrow> (u32 \<times> desc_chain, virtio_error) outcome \<times> 's)
    \<Rightarrow> 'i queue \<times> 's \<Rightarrow> (unit, virtio_error) outcome \<times> 'i queue \<times> 's" where
  "handle_deferred vq irq did q_index op qs = (case qs of (q, s) \<Rightarrow>
     (case q_deferred q did of
        None \<Rightarrow> (Err (InvalidDescriptor did), (q, s))
      | Some chain \<Rightarrow>
          let q1 = q\<lparr>q_deferred := (q_deferred q)(did := None)\<rparr>
          in case op chain s of
               (Err e, s1) \<Rightarrow> (Err e, (q1, s1))
             | (Panic, s1) \<Rightarrow> (Panic, (q1, s1))
             | (Ok (len, chain'), s1) \<Rightarrow>
                 let delta = chain_delta chain';
                     (q2, s2) = push_used vq chain' len (q1, s1)
                 in if interrupt_enabled vq (q_used q2) delta s2
                    then (Ok (), (q2, irq q_index s2)) else (Ok (), (q2, s2))))"

text \<open>How the inner loop of \<^verbatim>\<open>handle_desc\<close> is left.\<close>

datatype loop_exit =
    Drained
  | OpErr virtio_error
  | OpBreak
  | AvailErr virtio_error
  | Panicked

partial_function (option) serve_avail :: "('i, 's) vq_ops
    \<Rightarrow> (desc_chain \<Rightarrow> 's \<Rightarrow> (status \<times> desc_chain, virtio_error) outcome \<times> 's)
    \<Rightarrow> 'i queue \<Rightarrow> 's \<Rightarrow> bool \<Rightarrow> (loop_exit \<times> 'i queue \<times> 's \<times> bool) option" where
  "serve_avail vq op q s send_irq =
     (case get_avail vq (q_avail q) s of
        None \<Rightarrow> None
      | Some Panic \<Rightarrow> Some (Panicked, q, s, send_irq)
      | Some (Err e) \<Rightarrow> Some (AvailErr e, q, s, send_irq)
      | Some (Ok None) \<Rightarrow> Some (Drained, q, s, send_irq)
      | Some (Ok (Some chain)) \<Rightarrow>
          (let delta = chain_delta chain
           in case op chain s of
                (Err e, s1) \<Rightarrow> Some (OpErr e, q, s1, send_irq)
              | (Panic, s1) \<Rightarrow> Some (Panicked, q, s1, send_irq)
              | (Ok (Break, _), s1) \<Rightarrow> Some (OpBreak, q, s1, send_irq)
              | (Ok (Done len, chain'), s1) \<Rightarrow>
                  (case push_used vq chain' len (q, s1) of (q2, s2) \<Rightarrow>
                     serve_avail vq op (q2\<lparr>q_avail := index_add vq (q_avail q2) delta\<rparr>) s2
                       (send_irq \<or> interrupt_enabled vq (q_used q2) delta s2))
              | (Ok (Deferred, chain'), s1) \<Rightarrow>
                  serve_avail vq op
                    (q\<lparr>q_deferred := (q_deferred q)(chain_id chain' := Some chain'),
                       q_avail := index_add vq (q_avail q) delta\<rparr>) s1 send_irq))"

text \<open>
  \<^verbatim>\<open>'out: loop\<close>; the result is the value of \<open>ret\<close>, or the early return, together with
  \<open>send_irq\<close>, which an early return forgets.
\<close>

partial_function (option) desc_loop :: "('i, 's) vq_ops
    \<Rightarrow> (desc_chain \<Rightarrow> 's \<Rightarrow> (status \<times> desc_chain, virtio_error) outcome \<times> 's)
    \<Rightarrow> 'i queue \<Rightarrow> 's \<Rightarrow> bool
    \<Rightarrow> ((unit, virtio_error) outcome \<times> 'i queue \<times> 's \<times> bool) option" where
  "desc_loop vq op q s send_irq =
     (if \<not> desc_avail vq (q_avail q) s then Some (Ok (), q, s, send_irq)
      else case enable_notification vq False s of
        None \<Rightarrow> None
      | Some s1 \<Rightarrow>
          (case serve_avail vq op q s1 send_irq of
             None \<Rightarrow> None
           | Some (Drained, q2, s2, irq2) \<Rightarrow>
               (case enable_notification vq True s2 of
                  None \<Rightarrow> None
                | Some s3 \<Rightarrow> desc_loop vq op q2 s3 irq2)
           | Some (OpErr e, q2, s2, irq2) \<Rightarrow>
               (case enable_notification vq True s2 of
                  None \<Rightarrow> None
                | Some s3 \<Rightarrow> Some (Err e, q2, s3, irq2))
           | Some (OpBreak, q2, s2, irq2) \<Rightarrow> Some (Ok (), q2, s2, irq2)
           | Some (AvailErr e, q2, s2, _) \<Rightarrow> Some (Err e, q2, s2, False)
           | Some (Panicked, q2, s2, _) \<Rightarrow> Some (Panic, q2, s2, False)))"

definition handle_desc :: "('i, 's) vq_ops \<Rightarrow> (u16 \<Rightarrow> 's \<Rightarrow> 's) \<Rightarrow> u16
    \<Rightarrow> (desc_chain \<Rightarrow> 's \<Rightarrow> (status \<times> desc_chain, virtio_error) outcome \<times> 's)
    \<Rightarrow> 'i queue \<times> 's \<Rightarrow> ((unit, virtio_error) outcome \<times> 'i queue \<times> 's) option" where
  "handle_desc vq irq q_index op qs =
     (case desc_loop vq op (fst qs) (snd qs) False of
        None \<Rightarrow> None
      | Some (ret, q, s, send_irq) \<Rightarrow> Some (ret, q, if send_irq then irq q_index s else s))"

section \<open>What serving a queue keeps\<close>

text \<open>
  What every step keeps, serving a queue keeps: the handler, returning a chain, switching notifications and the
  interrupt.
\<close>

definition steps_keep :: "('s \<Rightarrow> bool) \<Rightarrow> ('i, 's) vq_ops
    \<Rightarrow> (desc_chain \<Rightarrow> 's \<Rightarrow> (status \<times> desc_chain, virtio_error) outcome \<times> 's) \<Rightarrow> bool" where
  "steps_keep P vq op \<longleftrightarrow> (\<forall>c s. P s \<longrightarrow> P (snd (op c s))) \<and> (\<forall>i did len s. P s \<longrightarrow> P (set_used vq i did len s)) \<and>
     (\<forall>on s s'. P s \<longrightarrow> enable_notification vq on s = Some s' \<longrightarrow> P s')"

lemma serve_avail_keeps:
  "serve_avail vq op q s irq = Some r \<Longrightarrow> steps_keep P vq op \<and> P s \<longrightarrow> P (fst (snd (snd r)))"
proof (induction rule: serve_avail.raw_induct[rotated, consumes 1, case_names step])
  case (step f vq op q s irq r)
  show ?case
  proof
    assume k: "steps_keep P vq op \<and> P s"
    have o: "P s'" if "op c s = (x, s')" for c x s' using k that unfolding steps_keep_def by (metis snd_conv)
    have u: "P (set_used vq i did len s')" if "P s'" for i did len s' using k that unfolding steps_keep_def by blast
    show "P (fst (snd (snd r)))" using step(2) k o u
      by (auto simp: push_used_def Let_def split: option.splits outcome.splits prod.splits status.splits dest!: step(1))
  qed
qed

lemma desc_loop_keeps:
  "desc_loop vq op q s irq = Some r \<Longrightarrow> steps_keep P vq op \<and> P s \<longrightarrow> P (fst (snd (snd r)))"
proof (induction rule: desc_loop.raw_induct[rotated, consumes 1, case_names step])
  case (step f vq op q s irq r)
  show ?case
  proof
    assume k: "steps_keep P vq op \<and> P s"
    have n: "P s'" if "enable_notification vq on s1 = Some s'" "P s1" for on s1 s' using k that unfolding steps_keep_def by blast
    have a: "P s'" if "serve_avail vq op q1 s1 i = Some (e, q2, s', i')" "P s1" for q1 s1 i e q2 s' i'
      using serve_avail_keeps[OF that(1), of P] k that(2) by simp
    show "P (fst (snd (snd r)))" using step(2) k
      by (auto split: if_splits option.splits loop_exit.splits prod.splits dest!: step(1) dest: n a) (meson n a)
  qed
qed

lemma handle_desc_keeps:
  assumes "handle_desc vq irq q_index op (q, s) = Some (r, q', s')" "steps_keep P vq op" "P s" "\<And>s. P s \<Longrightarrow> P (irq q_index s)"
  shows "P s'"
  using assms desc_loop_keeps[of vq op q s False _ P]
  by (fastforce simp: handle_desc_def split: option.splits prod.splits if_splits)

section \<open>Handlers that copy\<close>

text \<open>
  \<^verbatim>\<open>copy_from_reader\<close> and \<^verbatim>\<open>copy_to_writer\<close>: \<open>io\<close> is the vectored call on the caller's reader or
  writer and gives the number of bytes moved, or an error that may be \<^verbatim>\<open>WouldBlock\<close>.
\<close>

datatype io_error = WouldBlock | OtherIo string

definition total_len :: "slice list \<Rightarrow> u64" where
  "total_len ss = sum_list (map snd ss)"

definition copy_from_reader :: "(slice list \<Rightarrow> 's \<Rightarrow> (u64, io_error) outcome \<times> 's)
    \<Rightarrow> desc_chain \<Rightarrow> 's \<Rightarrow> (status \<times> desc_chain, virtio_error) outcome \<times> 's" where
  "copy_from_reader io chain s = (case io (writable chain) s of
      (Ok n, s') \<Rightarrow>
        (if n = 0 then (if total_len (writable chain) = 0 then (Ok (Done 0, chain), s')
                        else (Ok (Break, chain), s'))
         else (Ok (Done (ucast n), chain), s'))
    | (Err WouldBlock, s') \<Rightarrow> (Ok (Break, chain), s')
    | (Err (OtherIo e), s') \<Rightarrow> (Err (VirtioSystem e), s')
    | (Panic, s') \<Rightarrow> (Panic, s'))"

definition copy_to_writer :: "(slice list \<Rightarrow> 's \<Rightarrow> (u64, io_error) outcome \<times> 's)
    \<Rightarrow> desc_chain \<Rightarrow> 's \<Rightarrow> (status \<times> desc_chain, virtio_error) outcome \<times> 's" where
  "copy_to_writer io chain s = (case io (readable chain) s of
      (Ok n, s') \<Rightarrow>
        (if n = 0 then (if total_len (readable chain) = 0 then (Ok (Done 0, chain), s')
                        else (Ok (Break, chain), s'))
         else (Ok (Done 0, chain), s'))
    | (Err WouldBlock, s') \<Rightarrow> (Ok (Break, chain), s')
    | (Err (OtherIo e), s') \<Rightarrow> (Err (VirtioSystem e), s')
    | (Panic, s') \<Rightarrow> (Panic, s'))"

section \<open>The contract of a ring\<close>

text \<open>
  \<open>settled u a s cs\<close>: the guest offers exactly the chains \<open>cs\<close> from index \<open>a\<close> on, the next used
  entry goes to index \<open>u\<close>, and neither depends on what the device writes. The laws say that
  the methods present these chains one after the other and keep the rest settled. A handler
  finishes the chains of a set when it completes each of them and leaves the queue settled.
\<close>

definition finishes :: "('i \<Rightarrow> 'i \<Rightarrow> 's \<Rightarrow> desc_chain list \<Rightarrow> bool)
    \<Rightarrow> (desc_chain \<Rightarrow> 's \<Rightarrow> (status \<times> desc_chain, virtio_error) outcome \<times> 's) \<Rightarrow> desc_chain set \<Rightarrow> bool" where
  "finishes settled op C \<longleftrightarrow> (\<forall>c \<in> C. \<forall>u a s cs. settled u a s (c # cs) \<longrightarrow>
     (\<exists>len c' s'. op c s = (Ok (Done len, c'), s') \<and> chain_id c' = chain_id c \<and> chain_delta c' = chain_delta c \<and>
       settled u a s' (c # cs)))"

lemma finishesE:
  assumes "finishes settled op C" "c \<in> C" "settled u a s (c # cs)"
  obtains len c' s' where "op c s = (Ok (Done len, c'), s')" "chain_id c' = chain_id c"
    "chain_delta c' = chain_delta c" "settled u a s' (c # cs)"
  using assms unfolding finishes_def by metis

locale virt_queue =
  fixes vq :: "('i, 's) vq_ops"
    and settled :: "'i \<Rightarrow> 'i \<Rightarrow> 's \<Rightarrow> desc_chain list \<Rightarrow> bool"
  assumes none_left: "settled u a s [] \<Longrightarrow> \<not> desc_avail vq a s \<and> get_avail vq a s = Some (Ok None)"
    and next_chain: "settled u a s (c # cs) \<Longrightarrow> desc_avail vq a s \<and> get_avail vq a s = Some (Ok (Some c))"
    and use_chain: "settled u a s (c # cs) \<Longrightarrow>
      settled (index_add vq u (chain_delta c)) (index_add vq a (chain_delta c))
        (set_used vq u (chain_id c) len s) cs"
    and park_chain: "settled u a s (c # cs) \<Longrightarrow> settled u (index_add vq a (chain_delta c)) s cs"
    and notify_settled: "settled u a s cs \<Longrightarrow>
      \<exists>s'. enable_notification vq on s = Some s' \<and> settled u a s' cs"
text \<open>
  What serving the chains \<open>cs\<close> one after the other amounts to: the used index, the state and
  whether an interrupt is due.
\<close>

fun serve_all :: "('i, 's) vq_ops
    \<Rightarrow> (desc_chain \<Rightarrow> 's \<Rightarrow> (status \<times> desc_chain, virtio_error) outcome \<times> 's)
    \<Rightarrow> desc_chain list \<Rightarrow> 'i \<Rightarrow> 's \<Rightarrow> bool \<Rightarrow> 'i \<times> 's \<times> bool" where
  "serve_all vq op [] u s irq = (u, s, irq)"
| "serve_all vq op (c # cs) u s irq =
     (case op c s of
        (Ok (Done len, _), s1) \<Rightarrow>
          let u' = index_add vq u (chain_delta c); s2 = set_used vq u (chain_id c) len s1
          in serve_all vq op cs u' s2 (irq \<or> interrupt_enabled vq u' (chain_delta c) s2)
      | (_, s1) \<Rightarrow> (u, s1, irq))"

definition advance :: "('i, 's) vq_ops \<Rightarrow> 'i \<Rightarrow> desc_chain list \<Rightarrow> 'i" where
  "advance vq i cs = foldl (\<lambda>i c. index_add vq i (chain_delta c)) i cs"

context virt_queue
begin

lemma serve_avail_all:
  assumes "finishes settled op (set cs)" and "settled (q_used q) (q_avail q) s cs"
  shows "\<exists>u s' irq'. serve_all vq op cs (q_used q) s irq = (u, s', irq') \<and>
    serve_avail vq op q s irq =
      Some (Drained, q\<lparr>q_avail := advance vq (q_avail q) cs, q_used := advance vq (q_used q) cs\<rparr>, s', irq') \<and>
    settled (advance vq (q_used q) cs) (advance vq (q_avail q) cs) s' []"
  using assms
proof (induction cs arbitrary: q s irq)
  case Nil
  then show ?case
    using none_left[OF Nil(2)] by (subst serve_avail.simps) (simp add: advance_def)
next
  case (Cons c cs)
  obtain len c' s1 where op: "op c s = (Ok (Done len, c'), s1)" "chain_id c' = chain_id c"
    "chain_delta c' = chain_delta c" and keep: "settled (q_used q) (q_avail q) s1 (c # cs)"
    using finishesE[OF Cons.prems(1) _ Cons.prems(2)] by auto
  have fin: "finishes settled op (set cs)" using Cons.prems(1) by (simp add: finishes_def)
  let ?u = "index_add vq (q_used q) (chain_delta c)" and ?a = "index_add vq (q_avail q) (chain_delta c)"
  let ?s2 = "set_used vq (q_used q) (chain_id c) len s1"
  let ?q2 = "q\<lparr>q_used := ?u, q_avail := ?a\<rparr>" and ?irq = "irq \<or> interrupt_enabled vq ?u (chain_delta c) ?s2"
  have get: "get_avail vq (q_avail q) s = Some (Ok (Some c))" using next_chain[OF Cons.prems(2)] by simp
  have "settled (q_used ?q2) (q_avail ?q2) ?s2 cs" using use_chain[OF keep] by simp
  from Cons.IH[OF fin this, of ?irq] obtain u s' irq' where
    IH: "serve_all vq op cs ?u ?s2 ?irq = (u, s', irq')"
      "serve_avail vq op ?q2 ?s2 ?irq = Some (Drained,
         ?q2\<lparr>q_avail := advance vq ?a cs, q_used := advance vq ?u cs\<rparr>, s', irq')"
      "settled (advance vq ?u cs) (advance vq ?a cs) s' []" by auto
  have "serve_avail vq op q s irq = serve_avail vq op ?q2 ?s2 ?irq"
    by (subst serve_avail.simps) (simp add: get op push_used_def Let_def)
  then show ?case using IH by (simp add: op(1) advance_def Let_def)
qed

lemma handle_desc_all:
  assumes fin: "finishes settled op (set cs)" and set: "settled (q_used q) (q_avail q) s cs" and ne: "cs \<noteq> []"
  shows "\<exists>s1 u s2 irq s3. enable_notification vq False s = Some s1 \<and>
    serve_all vq op cs (q_used q) s1 False = (u, s2, irq) \<and> enable_notification vq True s2 = Some s3 \<and>
    handle_desc vq send q_index op (q, s) = Some (Ok (),
      q\<lparr>q_avail := advance vq (q_avail q) cs, q_used := advance vq (q_used q) cs\<rparr>,
      if irq then send q_index s3 else s3) \<and>
    settled (advance vq (q_used q) cs) (advance vq (q_avail q) cs) s3 []"
proof -
  let ?q = "q\<lparr>q_avail := advance vq (q_avail q) cs, q_used := advance vq (q_used q) cs\<rparr>"
  obtain s1 where s1: "enable_notification vq False s = Some s1" "settled (q_used q) (q_avail q) s1 cs"
    using notify_settled[OF set] by blast
  obtain u s2 irq where s2: "serve_all vq op cs (q_used q) s1 False = (u, s2, irq)"
    "serve_avail vq op q s1 False = Some (Drained, ?q, s2, irq)"
    "settled (q_used ?q) (q_avail ?q) s2 []"
    using serve_avail_all[OF fin s1(2), of False] by auto
  obtain s3 where s3: "enable_notification vq True s2 = Some s3" "settled (q_used ?q) (q_avail ?q) s3 []"
    using notify_settled[OF s2(3)] by blast
  have av: "desc_avail vq (q_avail q) s" using ne set next_chain by (cases cs) auto
  have "desc_loop vq op ?q s3 irq = Some (Ok (), ?q, s3, irq)"
    using none_left[OF s3(2)] by (subst desc_loop.simps) simp
  then have "desc_loop vq op q s False = Some (Ok (), ?q, s3, irq)"
    using av s1(1) s2(2) s3(1) by (subst desc_loop.simps) simp
  then show ?thesis using s1 s2 s3 by (simp add: handle_desc_def)
qed

lemma handle_desc_idle:
  assumes "settled (q_used q) (q_avail q) s []"
  shows "handle_desc vq send q_index op (q, s) = Some (Ok (), q, s)"
  using none_left[OF assms] unfolding handle_desc_def by (subst desc_loop.simps) simp

end

end
