(* ===== verification/Ring_Memory.thy ===== *)
theory Ring_Memory
  imports Virt_Queue
begin

text \<open>
  Fields of the ring structures in guest memory: both ring formats read and write them at
  their C offsets through raw host pointers, little-endian. The lemmas say what a read gives
  after a write, at the same place and elsewhere.
\<close>

section \<open>Access\<close>

definition rd16 :: "hmem \<Rightarrow> u64 \<Rightarrow> u16" where
  "rd16 h a = le_decode (h_read h (a, 2))"

definition rd32 :: "hmem \<Rightarrow> u64 \<Rightarrow> u32" where
  "rd32 h a = le_decode (h_read h (a, 4))"

definition rd64 :: "hmem \<Rightarrow> u64 \<Rightarrow> u64" where
  "rd64 h a = le_decode (h_read h (a, 8))"

definition wr16 :: "u64 \<Rightarrow> u16 \<Rightarrow> hmem \<Rightarrow> hmem" where
  "wr16 a v h = h_write h a (le_encode 2 v)"

definition wr32 :: "u64 \<Rightarrow> u32 \<Rightarrow> hmem \<Rightarrow> hmem" where
  "wr32 a v h = h_write h a (le_encode 4 v)"

definition mem_err :: "('a, mem_error) outcome \<Rightarrow> ('a, virtio_error) outcome" where
  "mem_err res = (case res of Ok a \<Rightarrow> Ok a | Err e \<Rightarrow> Err (VirtioMemory e) | Panic \<Rightarrow> Panic)"

section \<open>Reading back what was written\<close>

lemma h_read_cong: "(\<And>i. i < unat n \<Longrightarrow> h' (a + of_nat i) = h (a + of_nat i)) \<Longrightarrow> h_read h' (a, n) = h_read h (a, n)"
  by (simp add: h_read_def)

lemma h_read_write:
  assumes "length bs = unat n"
  shows "h_read (h_write h a bs) (a, n) = bs"
proof (rule nth_equalityI)
  fix i assume "i < length (h_read (h_write h a bs) (a, n))"
  then have i: "i < unat n" by simp
  then have "i < 2 ^ 64" using unat_less_u64[of n] by linarith
  then show "h_read (h_write h a bs) (a, n) ! i = bs ! i"
    using i assms by (simp add: h_read_def h_write_def unat_of_nat_u64)
qed (simp add: assms)

lemma rd16_wr16: "rd16 (wr16 a v h) a = v"
  using le_decode_encode[of 2 v]
  by (simp add: rd16_def wr16_def h_read_write length_le_encode take_bit_word_eq_self)

text \<open>The addresses of a write of \<open>n\<close> bytes at \<open>a\<close>, and memories that differ only on \<open>A\<close>.\<close>

definition span :: "u64 \<Rightarrow> nat \<Rightarrow> u64 set" where
  "span a n = {x. unat (x - a) < n}"

definition agree :: "u64 set \<Rightarrow> hmem \<Rightarrow> hmem \<Rightarrow> bool" where
  "agree A h h' \<longleftrightarrow> (\<forall>x. x \<notin> A \<longrightarrow> h' x = h x)"

lemma agree_refl [simp]: "agree A h h"
  by (simp add: agree_def)

lemma agree_trans: "agree A h h' \<Longrightarrow> agree A h' h'' \<Longrightarrow> agree A h h''"
  by (simp add: agree_def)

lemma agree_write: "span a (length bs) \<subseteq> A \<Longrightarrow> agree A h (h_write h a bs)"
  by (auto simp: agree_def h_write_def span_def)

lemma agree_wr16: "span a 2 \<subseteq> A \<Longrightarrow> agree A h (wr16 a v h)"
  and agree_wr32: "span a 4 \<subseteq> A \<Longrightarrow> agree A h (wr32 a v' h)"
  by (simp_all add: wr16_def wr32_def agree_write length_le_encode)

lemma span_offset:
  assumes "unat k + m \<le> n" "n < 2 ^ 64"
  shows "span (a + k) m \<subseteq> span a n"
proof
  fix x assume "x \<in> span (a + k) m"
  then have x: "unat (x - (a + k)) < m" by (simp add: span_def)
  have "x - a = (x - (a + k)) + k" by simp
  moreover have "unat ((x - (a + k)) + k) = unat (x - (a + k)) + unat k"
    using x assms by (intro unat_plus_no_wrap) simp
  ultimately show "x \<in> span a n" using x assms(1) by (simp add: span_def)
qed

lemma span_disjoint:
  assumes "m \<le> unat k" "unat k + n \<le> 2 ^ 64"
  shows "span a m \<inter> span (a + k) n = {}"
proof (rule ccontr)
  assume "span a m \<inter> span (a + k) n \<noteq> {}"
  then obtain x where x: "unat (x - a) < m" "unat (x - (a + k)) < n" by (auto simp: span_def)
  have "x - a = (x - (a + k)) + k" by simp
  moreover have "unat ((x - (a + k)) + k) = unat (x - (a + k)) + unat k"
    using x assms by (intro unat_plus_no_wrap) simp
  ultimately show False using x(1) assms(1) by simp
qed

lemma rd16_wr16_apart:
  assumes "span a 2 \<inter> span b 2 = {}"
  shows "rd16 (wr16 a v h) b = rd16 h b"
proof -
  have "wr16 a v h (b + of_nat i) = h (b + of_nat i)" if "i < 2" for i :: nat
  proof -
    have "b + of_nat i \<in> span b 2" using that by (simp add: span_def unat_of_nat_u64)
    then have "b + of_nat i \<notin> span a 2" using assms by blast
    then show ?thesis by (simp add: wr16_def h_write_def span_def length_le_encode)
  qed
  then show ?thesis unfolding rd16_def by (intro arg_cong[where f = le_decode] h_read_cong) simp
qed

lemma rd32_wr32: "rd32 (wr32 a v h) a = v"
  using le_decode_encode[of 4 v]
  by (simp add: rd32_def wr32_def h_read_write length_le_encode take_bit_word_eq_self)

lemma h_read_agree:
  assumes "agree A h h'" "span a n \<inter> A = {}" "unat k = n"
  shows "h_read h' (a, k) = h_read h (a, k)"
proof (rule h_read_cong)
  fix i assume i: "i < unat k"
  then have "i < 2 ^ 64" using unat_less_u64[of k] by linarith
  then have "a + of_nat i \<in> span a n" using i assms(3) by (simp add: span_def unat_of_nat_u64)
  then show "h' (a + of_nat i) = h (a + of_nat i)" using assms(1,2) by (auto simp: agree_def)
qed

lemma rd16_agree: "agree A h h' \<Longrightarrow> span a 2 \<inter> A = {} \<Longrightarrow> rd16 h' a = rd16 h a"
  and rd32_agree: "agree A h h' \<Longrightarrow> span a 4 \<inter> A = {} \<Longrightarrow> rd32 h' a = rd32 h a"
  using h_read_agree[of A h h' a 2 2] h_read_agree[of A h h' a 4 4] by (simp_all add: rd16_def rd32_def)

lemma unat_ucast_16_64: "unat (ucast (x :: u16) :: u64) = unat x"
  using unsigned_less[of x, where ?'a = nat]
  by (simp add: unsigned_ucast_eq take_bit_nat_eq_self)

lemma upt_eval: "[0..<2] = [0, 1]" "[0..<4] = [0, 1, 2, 3]" "[0..<8] = [0, 1, 2, 3, 4, 5, 6, 7 :: nat]"
  by (simp_all add: upt_rec)

end
