(* ===== verification/Split_Queue.thy ===== *)
theory Split_Queue
  imports Ring_Memory
begin

text \<open>
  \<^verbatim>\<open>alioth/src/virtio/queue/split.rs\<close>: the split ring. The queue holds raw host pointers into
  guest memory; a structure field is read and written at its C offset. The available ring
  belongs to the driver, the used ring to the device.
\<close>

section \<open>Layout\<close>

text \<open>\<^verbatim>\<open>Desc\<close>: 16 bytes.\<close>

record split_desc =
  d_addr :: u64
  d_len :: u32
  d_flag :: u16
  d_next :: u16

definition desc_at :: "hmem \<Rightarrow> u64 \<Rightarrow> split_desc" where
  "desc_at h a = \<lparr>d_addr = rd64 h a, d_len = rd32 h (a + 8), d_flag = rd16 h (a + 12),
     d_next = rd16 h (a + 14)\<rparr>"

definition desc_of_bytes :: "u8 list \<Rightarrow> split_desc" where
  "desc_of_bytes bs = \<lparr>d_addr = le_decode (take 8 bs), d_len = le_decode (take 4 (drop 8 bs)),
     d_flag = le_decode (take 2 (drop 12 bs)), d_next = le_decode (take 2 (drop 14 bs))\<rparr>"

record split_queue =
  sq_size :: u16
  avail_hdr :: u64
  avail_ring :: u64
  used_event :: "u64 option"
  used_hdr :: u64
  used_ring :: u64
  avail_event :: "u64 option"
  desc_table :: u64

section \<open>Accessors\<close>

text \<open>\<^verbatim>\<open>AvailHeader\<close> and \<^verbatim>\<open>UsedHeader\<close> both have \<open>flags\<close> at offset 0 and \<open>idx\<close> at offset 2.\<close>

definition avail_index :: "split_queue \<Rightarrow> hmem \<Rightarrow> u16" where
  "avail_index q h = rd16 h (avail_hdr q + 2)"

definition set_used_index :: "split_queue \<Rightarrow> u16 \<Rightarrow> hmem \<Rightarrow> hmem" where
  "set_used_index q v = wr16 (used_hdr q + 2) v"

definition get_used_event :: "split_queue \<Rightarrow> hmem \<Rightarrow> u16 option" where
  "get_used_event q h = map_option (rd16 h) (used_event q)"

definition set_flag_notification :: "split_queue \<Rightarrow> bool \<Rightarrow> hmem \<Rightarrow> hmem" where
  "set_flag_notification q enabled = wr16 (used_hdr q) (if enabled then 0 else 1)"

definition flag_interrupt_enabled :: "split_queue \<Rightarrow> hmem \<Rightarrow> bool" where
  "flag_interrupt_enabled q h \<longleftrightarrow> rd16 h (avail_hdr q) = 0"

definition get_desc :: "split_queue \<Rightarrow> u16 \<Rightarrow> hmem \<Rightarrow> (split_desc, virtio_error) outcome" where
  "get_desc q did h =
     (if did < sq_size q then Ok (desc_at h (desc_table q + 16 * ucast did))
      else Err (InvalidDescriptor did))"

definition opt_ptr :: "bool \<Rightarrow> ram \<Rightarrow> u64 \<Rightarrow> (u64 option, virtio_error) outcome" where
  "opt_ptr on r gpa = (if on then obind (mem_err (get_ptr r 2 2 gpa)) (\<lambda>p. Ok (Some p)) else Ok None)"

definition split_new :: "queue_reg \<Rightarrow> ram \<Rightarrow> bool \<Rightarrow> (split_queue option, virtio_error) outcome" where
  "split_new reg r event_idx =
     (if \<not> reg_enabled reg then Ok None
      else let sz = (ucast (reg_size reg) :: u64); used = reg_device reg; avail = reg_driver reg
      in obind (opt_ptr event_idx r (used + 4 + sz * 8)) (\<lambda>avail_ev.
         obind (opt_ptr event_idx r (avail + 4 + sz * 2)) (\<lambda>used_ev.
         obind (mem_err (get_ptr r 4 4 used)) (\<lambda>uhdr.
         obind (mem_err (get_ptr r 4 2 avail)) (\<lambda>ahdr.
         obind (mem_err (get_ptr r 2 2 (avail + 4))) (\<lambda>aring.
         obind (mem_err (get_ptr r 8 4 (used + 4))) (\<lambda>uring.
         obind (mem_err (get_ptr r 16 16 (reg_desc reg))) (\<lambda>dt.
         Ok (Some \<lparr>sq_size = ucast sz, avail_hdr = ahdr, avail_ring = aring, used_event = used_ev,
           used_hdr = uhdr, used_ring = uring, avail_event = avail_ev, desc_table = dt\<rparr>)))))))))"

section \<open>The ring\<close>

definition split_desc_avail :: "split_queue \<Rightarrow> u16 \<Rightarrow> hmem \<Rightarrow> bool" where
  "split_desc_avail q index h =
     (let ai = avail_index q h in index < ai \<or> NOT (sq_size q - 1) \<le> index - ai)"

text \<open>The buffers collected so far: readable ones and writable ones, as guest ranges.\<close>

type_synonym iovs = "(u64 \<times> u64) list \<times> (u64 \<times> u64) list"

definition push_desc :: "split_desc \<Rightarrow> iovs \<Rightarrow> iovs" where
  "push_desc d acc = (case acc of (rs, ws) \<Rightarrow>
     if flag_contains (d_flag d) DESC_WRITE then (rs, ws @ [(d_addr d, ucast (d_len d))])
     else (rs @ [(d_addr d, ucast (d_len d))], ws))"

partial_function (option) indirect_loop :: "ram \<Rightarrow> hmem \<Rightarrow> u64 \<Rightarrow> u16 \<Rightarrow> iovs
    \<Rightarrow> (iovs, virtio_error) outcome option" where
  "indirect_loop r h base did acc =
     (case mem_err (ram_read_t r h 16 (base + ucast did * 16)) of
        Err e \<Rightarrow> Some (Err e)
      | Panic \<Rightarrow> Some Panic
      | Ok bs \<Rightarrow>
          (let d = desc_of_bytes bs
           in if flag_contains (d_flag d) DESC_INDIRECT then Some Panic
              else if flag_contains (d_flag d) DESC_NEXT
                then indirect_loop r h base (d_next d) (push_desc d acc)
                else Some (Ok (push_desc d acc))))"

partial_function (option) chain_loop :: "split_queue \<Rightarrow> ram \<Rightarrow> hmem \<Rightarrow> u16 \<Rightarrow> iovs
    \<Rightarrow> (iovs, virtio_error) outcome option" where
  "chain_loop q r h did acc =
     (case get_desc q did h of
        Err e \<Rightarrow> Some (Err e)
      | Panic \<Rightarrow> Some Panic
      | Ok d \<Rightarrow>
          (case (if flag_contains (d_flag d) DESC_INDIRECT then indirect_loop r h (d_addr d) 0 acc
                 else Some (Ok (push_desc d acc))) of
             None \<Rightarrow> None
           | Some (Err e) \<Rightarrow> Some (Err e)
           | Some Panic \<Rightarrow> Some Panic
           | Some (Ok acc') \<Rightarrow>
               if flag_contains (d_flag d) DESC_NEXT then chain_loop q r h (d_next d) acc'
               else Some (Ok acc')))"

definition ring_slot :: "split_queue \<Rightarrow> u16 \<Rightarrow> u16" where
  "ring_slot q index = index AND (sq_size q - 1)"

definition split_get_avail :: "split_queue \<Rightarrow> ram \<Rightarrow> u16 \<Rightarrow> hmem
    \<Rightarrow> (desc_chain option, virtio_error) outcome option" where
  "split_get_avail q r index h =
     (if \<not> split_desc_avail q index h then Some (Ok None)
      else let head_id = rd16 h (avail_ring q + 2 * ucast (ring_slot q index))
      in case chain_loop q r h head_id ([], []) of
           None \<Rightarrow> None
         | Some (Err e) \<Rightarrow> Some (Err e)
         | Some Panic \<Rightarrow> Some Panic
         | Some (Ok (rs, ws)) \<Rightarrow>
             Some (obind (mem_err (translate_iov r rs)) (\<lambda>rd.
                   obind (mem_err (translate_iov_mut r ws)) (\<lambda>wr.
                   Ok (Some \<lparr>chain_id = head_id, chain_delta = 1, readable = rd, writable = wr\<rparr>)))))"

definition split_set_used :: "split_queue \<Rightarrow> u16 \<Rightarrow> u16 \<Rightarrow> u32 \<Rightarrow> hmem \<Rightarrow> hmem" where
  "split_set_used q index did len h =
     (let elem = used_ring q + 8 * ucast (ring_slot q index)
      in set_used_index q (index + 1) (wr32 (elem + 4) len (wr32 elem (ucast did) h)))"

text \<open>
  Enabling notifications publishes the index seen and looks again: \<open>guest\<close> is what the driver
  does to memory between the two. The loop runs until the driver is quiet.
\<close>

partial_function (option) publish_loop :: "(hmem \<Rightarrow> hmem) \<Rightarrow> split_queue \<Rightarrow> u64 \<Rightarrow> u16 \<Rightarrow> hmem \<Rightarrow> hmem option" where
  "publish_loop guest q event ai h =
     (let h' = guest (wr16 event ai h); ai' = avail_index q h'
      in if ai' = ai then Some h' else publish_loop guest q event ai' h')"

definition split_enable_notification :: "(hmem \<Rightarrow> hmem) \<Rightarrow> split_queue \<Rightarrow> bool \<Rightarrow> hmem \<Rightarrow> hmem option" where
  "split_enable_notification guest q enabled h =
     (case avail_event q of
        Some event \<Rightarrow>
          (if enabled then publish_loop guest q event (avail_index q h) h
           else Some (wr16 event (avail_index q h - 1) h))
      | None \<Rightarrow> Some (set_flag_notification q enabled h))"

definition split_interrupt_enabled :: "split_queue \<Rightarrow> u16 \<Rightarrow> u16 \<Rightarrow> hmem \<Rightarrow> bool" where
  "split_interrupt_enabled q index delta h =
     (case get_used_event q h of
        Some ev \<Rightarrow> ev = index - 1
      | None \<Rightarrow> flag_interrupt_enabled q h)"

definition split_index_add :: "u16 \<Rightarrow> u16 \<Rightarrow> u16" where
  "split_index_add index delta = index + 1"

text \<open>The methods of the trait, on the pair of guest memory and device.\<close>

definition split_ops :: "(hmem \<Rightarrow> hmem) \<Rightarrow> split_queue \<Rightarrow> ram \<Rightarrow> (u16, hmem \<times> 'w) vq_ops" where
  "split_ops guest q r = \<lparr>
     desc_avail = (\<lambda>i s. split_desc_avail q i (fst s)),
     get_avail = (\<lambda>i s. split_get_avail q r i (fst s)),
     set_used = (\<lambda>i did len s. (split_set_used q i did len (fst s), snd s)),
     enable_notification = (\<lambda>on s. map_option (\<lambda>h. (h, snd s)) (split_enable_notification guest q on (fst s))),
     interrupt_enabled = (\<lambda>i delta s. split_interrupt_enabled q i delta (fst s)),
     index_add = split_index_add\<rparr>"

section \<open>Which chains are offered\<close>

lemma desc_avail_cases:
  assumes "sq_size q \<noteq> 0"
  shows "split_desc_avail q index h \<longleftrightarrow> index < avail_index q h \<or>
    (index \<noteq> avail_index q h \<and> avail_index q h - index \<le> sq_size q)"
proof -
  let ?a = "avail_index q h" and ?n = "sq_size q"
  have "NOT (?n - 1) = - ?n" by (simp add: not_eq_complement)
  moreover have "- ?n \<le> index - ?a \<longleftrightarrow> index \<noteq> ?a \<and> ?a - index \<le> ?n"
  proof (cases "index = ?a")
    case True
    then show ?thesis using assms by simp
  next
    case False
    then have "unat (index - ?a) = 2 ^ 16 - unat (?a - index)"
      using unat_uminus[of "?a - index"] by simp
    moreover have "unat (?a - index) < 2 ^ 16" "unat ?n < 2 ^ 16"
      using unsigned_less[of "?a - index", where ?'a = nat] unsigned_less[of ?n, where ?'a = nat] by simp_all
    ultimately show ?thesis using assms False by (auto simp: word_le_nat_alt unat_uminus)
  qed
  ultimately show ?thesis by (simp add: split_desc_avail_def Let_def)
qed

section \<open>The split ring keeps the contract\<close>

text \<open>What the device writes: the used header, the used ring and the notification threshold.\<close>

definition dev_area :: "split_queue \<Rightarrow> u64 set" where
  "dev_area q = span (used_hdr q) 4 \<union> span (used_ring q) (8 * unat (sq_size q)) \<union>
     (case avail_event q of None \<Rightarrow> {} | Some e \<Rightarrow> span e 2)"

text \<open>
  The chains \<open>cs\<close> are offered at \<open>a\<close> whatever the device has written, the used index in memory
  is \<open>u\<close>, and the notification threshold does not overlap the used index.
\<close>

definition split_settled :: "split_queue \<Rightarrow> ram \<Rightarrow> u16 \<Rightarrow> u16 \<Rightarrow> hmem \<times> 'w \<Rightarrow> desc_chain list \<Rightarrow> bool" where
  "split_settled q r u a s cs \<longleftrightarrow> sq_size q \<noteq> 0 \<and> rd16 (fst s) (used_hdr q + 2) = u \<and>
     (\<forall>e. avail_event q = Some e \<longrightarrow> span e 2 \<inter> span (used_hdr q + 2) 2 = {}) \<and>
     (\<forall>h'. agree (dev_area q) (fst s) h' \<longrightarrow>
        avail_index q h' = a + of_nat (length cs) \<and>
        (\<forall>i < length cs. split_get_avail q r (a + of_nat i) h' = Some (Ok (Some (cs ! i)))))"

lemma split_settled_agree:
  assumes "split_settled q r u a (h, w) cs" "agree (dev_area q) h h'" "rd16 h' (used_hdr q + 2) = u'"
  shows "split_settled q r u' a (h', w') cs"
  using assms agree_trans unfolding split_settled_def fst_conv by blast

lemma split_settled_tl:
  assumes "split_settled q r u a s (c # cs)"
  shows "split_settled q r u (a + 1) s cs"
proof -
  have "avail_index q h' = a + 1 + of_nat (length cs) \<and>
      (\<forall>i < length cs. split_get_avail q r (a + 1 + of_nat i) h' = Some (Ok (Some (cs ! i))))"
    if "agree (dev_area q) (fst s) h'" for h'
  proof -
    have "avail_index q h' = a + of_nat (Suc (length cs))"
      and all: "\<And>i. i < Suc (length cs) \<Longrightarrow>
        split_get_avail q r (a + of_nat i) h' = Some (Ok (Some ((c # cs) ! i)))"
      using assms that unfolding split_settled_def by simp_all
    moreover have "split_get_avail q r (a + 1 + of_nat i) h' = Some (Ok (Some (cs ! i)))"
      if "i < length cs" for i
      using all[of "Suc i"] that by (simp add: add.assoc)
    ultimately show ?thesis by (simp add: add.assoc)
  qed
  then show ?thesis using assms unfolding split_settled_def by simp
qed

lemma ring_slot_less: "sq_size q \<noteq> 0 \<Longrightarrow> unat (ring_slot q i) < unat (sq_size q)"
proof -
  assume nz: "sq_size q \<noteq> 0"
  have "ring_slot q i \<le> sq_size q - 1" by (simp add: ring_slot_def word_and_le1)
  then show ?thesis using nz unat_minus_1[OF nz] unat_gt_0_iff[of "sq_size q"] by (simp add: word_le_nat_alt)
qed

lemma set_used_agree:
  assumes "sq_size q \<noteq> 0"
  shows "agree (dev_area q) h (split_set_used q i did len h)"
proof -
  let ?k = "8 * ucast (ring_slot q i) :: u64"
  have n: "unat (sq_size q) < 2 ^ 16" using unsigned_less[of "sq_size q", where ?'a = nat] by simp
  have slot: "unat (ring_slot q i) < unat (sq_size q)" by (rule ring_slot_less[OF assms])
  have k: "unat ?k = 8 * unat (ring_slot q i)"
    using n slot by (simp add: unat_word_ariths unat_ucast_16_64)
  have "span (used_ring q + ?k) 4 \<subseteq> span (used_ring q) (8 * unat (sq_size q))"
    using k slot n by (intro span_offset) auto
  moreover have "unat (?k + 4) = 8 * unat (ring_slot q i) + 4"
    using k n slot by (subst unat_plus_no_wrap) auto
  then have "span (used_ring q + (?k + 4)) 4 \<subseteq> span (used_ring q) (8 * unat (sq_size q))"
    using slot n by (intro span_offset) auto
  moreover have "span (used_hdr q + 2) 2 \<subseteq> span (used_hdr q) 4" by (intro span_offset) auto
  ultimately show ?thesis
    unfolding split_set_used_def set_used_index_def Let_def
    by (intro agree_trans[OF agree_trans[OF agree_wr32 agree_wr32] agree_wr16])
      (auto simp: dev_area_def add.assoc)
qed

lemma split_use:
  assumes "split_settled q r u a (h, w) (c # cs)"
  shows "split_settled q r (u + 1) (a + 1) (split_set_used q u did len h, w) cs"
proof (rule split_settled_agree[OF split_settled_tl[OF assms]])
  show "agree (dev_area q) h (split_set_used q u did len h)"
    using assms by (intro set_used_agree) (simp add: split_settled_def)
  show "rd16 (split_set_used q u did len h) (used_hdr q + 2) = u + 1"
    by (simp add: split_set_used_def set_used_index_def Let_def rd16_wr16)
qed

lemma split_notify:
  assumes set: "split_settled q r u a (h, w) cs"
  shows "\<exists>h'. split_enable_notification id q on h = Some h' \<and> split_settled q r u a (h', w) cs"
proof (cases "avail_event q")
  case None
  have flags: "span (used_hdr q) 2 \<inter> span (used_hdr q + 2) 2 = {}" by (intro span_disjoint) auto
  let ?h = "set_flag_notification q on h"
  have "agree (dev_area q) h ?h"
    unfolding set_flag_notification_def
    by (intro agree_wr16) (auto simp: dev_area_def span_def)
  moreover have "rd16 ?h (used_hdr q + 2) = u"
    using set rd16_wr16_apart[OF flags] by (simp add: set_flag_notification_def split_settled_def)
  ultimately show ?thesis
    using split_settled_agree[OF set] None by (simp add: split_enable_notification_def)
next
  case (Some e)
  have wr: "split_settled q r u a (wr16 e v h, w) cs" for v
  proof (rule split_settled_agree[OF set])
    show "agree (dev_area q) h (wr16 e v h)" by (intro agree_wr16) (auto simp: dev_area_def Some)
    show "rd16 (wr16 e v h) (used_hdr q + 2) = u"
      using set Some rd16_wr16_apart[of e "used_hdr q + 2"] by (simp add: split_settled_def)
  qed
  have idx: "avail_index q h = a + of_nat (length cs)" "avail_index q (wr16 e v h) = a + of_nat (length cs)" for v
    using set wr[of v] agree_refl unfolding split_settled_def fst_conv by blast+
  have "publish_loop id q e (avail_index q h) h = Some (wr16 e (avail_index q h) h)"
    by (subst publish_loop.simps) (simp add: idx Let_def)
  then show ?thesis using wr Some by (cases on) (simp_all add: split_enable_notification_def)
qed

interpretation split: virt_queue "split_ops id q r :: (u16, hmem \<times> 'w) vq_ops" "split_settled q r"
  for q r
proof unfold_locales
  fix u a on and s :: "hmem \<times> 'w" and c cs len
  show "\<not> desc_avail (split_ops id q r) a s \<and> get_avail (split_ops id q r) a s = Some (Ok None)"
    if "split_settled q r u a s []"
  proof -
    have "avail_index q (fst s) = a" "sq_size q \<noteq> 0"
      using that agree_refl[of "dev_area q" "fst s"] unfolding split_settled_def by auto
    then show ?thesis by (simp add: split_ops_def split_get_avail_def desc_avail_cases)
  qed
  show "desc_avail (split_ops id q r) a s \<and> get_avail (split_ops id q r) a s = Some (Ok (Some c))"
    if "split_settled q r u a s (c # cs)"
  proof -
    have "\<forall>i < length (c # cs). split_get_avail q r (a + of_nat i) (fst s) = Some (Ok (Some ((c # cs) ! i)))"
      using that agree_refl[of "dev_area q" "fst s"] unfolding split_settled_def by blast
    then have "split_get_avail q r a (fst s) = Some (Ok (Some c))" by force
    then show ?thesis
      by (cases "split_desc_avail q a (fst s)") (simp_all add: split_ops_def split_get_avail_def)
  qed
  show "split_settled q r (index_add (split_ops id q r) u (chain_delta c)) (index_add (split_ops id q r) a (chain_delta c))
      (set_used (split_ops id q r) u (chain_id c) len s) cs" if "split_settled q r u a s (c # cs)"
    using split_use[of q r u a "fst s" "snd s" c cs "chain_id c" len] that
    by (simp add: split_ops_def split_index_add_def)
  show "split_settled q r u (index_add (split_ops id q r) a (chain_delta c)) s cs"
    if "split_settled q r u a s (c # cs)"
    using split_settled_tl[OF that] by (simp add: split_ops_def split_index_add_def)
  show "\<exists>s'. enable_notification (split_ops id q r) on s = Some s' \<and> split_settled q r u a s' cs"
    if "split_settled q r u a s cs"
    using split_notify[of q r u a "fst s" "snd s" cs on] that by (auto simp: split_ops_def)
qed

section \<open>Walking a chain\<close>

text \<open>
  The descriptors of a direct chain, found by following \<^verbatim>\<open>next\<close> for at most \<open>n\<close> steps, and the
  entries of an indirect table likewise.
\<close>

fun follow :: "nat \<Rightarrow> split_queue \<Rightarrow> hmem \<Rightarrow> u16 \<Rightarrow> split_desc list option" where
  "follow 0 q h did = None"
| "follow (Suc n) q h did = (case get_desc q did h of
      Ok d \<Rightarrow> (if flag_contains (d_flag d) DESC_NEXT then map_option ((#) d) (follow n q h (d_next d))
              else Some [d])
    | _ \<Rightarrow> None)"

fun follow_table :: "nat \<Rightarrow> ram \<Rightarrow> hmem \<Rightarrow> u64 \<Rightarrow> u16 \<Rightarrow> split_desc list option" where
  "follow_table 0 r h base did = None"
| "follow_table (Suc n) r h base did = (case ram_read_t r h 16 (base + ucast did * 16) of
      Ok bs \<Rightarrow>
        (let d = desc_of_bytes bs
         in if flag_contains (d_flag d) DESC_INDIRECT then None
            else if flag_contains (d_flag d) DESC_NEXT
              then map_option ((#) d) (follow_table n r h base (d_next d)) else Some [d])
    | _ \<Rightarrow> None)"

text \<open>Each indirect descriptor of a chain stands for the entries of its table.\<close>

fun expand :: "nat \<Rightarrow> ram \<Rightarrow> hmem \<Rightarrow> split_desc list \<Rightarrow> split_desc list option" where
  "expand n r h [] = Some []"
| "expand n r h (d # ds) =
     Option.bind (if flag_contains (d_flag d) DESC_INDIRECT then follow_table n r h (d_addr d) 0 else Some [d])
       (\<lambda>es. map_option ((@) es) (expand n r h ds))"

definition is_write :: "split_desc \<Rightarrow> bool" where
  "is_write d \<longleftrightarrow> flag_contains (d_flag d) DESC_WRITE"

definition buffer_of :: "split_desc \<Rightarrow> u64 \<times> u64" where
  "buffer_of d = (d_addr d, ucast (d_len d))"

definition add_buffers :: "split_desc list \<Rightarrow> iovs \<Rightarrow> iovs" where
  "add_buffers ds acc = (fst acc @ map buffer_of (filter (\<lambda>d. \<not> is_write d) ds),
     snd acc @ map buffer_of (filter is_write ds))"

lemma add_buffers_simps:
  "add_buffers [] acc = acc"
  "add_buffers (d # ds) acc = add_buffers ds (push_desc d acc)"
  "add_buffers (ds @ es) acc = add_buffers es (add_buffers ds acc)"
  by (simp_all add: add_buffers_def push_desc_def is_write_def buffer_of_def split: prod.split)

lemma indirect_loop_follows:
  "follow_table n r h base did = Some ds \<Longrightarrow> indirect_loop r h base did acc = Some (Ok (add_buffers ds acc))"
proof (induction n arbitrary: did ds acc)
  case (Suc n)
  obtain bs where bs: "ram_read_t r h 16 (base + ucast did * 16) = Ok bs"
    using Suc.prems by (auto split: outcome.splits)
  let ?d = "desc_of_bytes bs"
  have ni: "\<not> flag_contains (d_flag ?d) DESC_INDIRECT" using Suc.prems bs by (auto simp: Let_def)
  obtain ds' where ds: "ds = ?d # ds'"
    "if flag_contains (d_flag ?d) DESC_NEXT then follow_table n r h base (d_next ?d) = Some ds' else ds' = []"
    using Suc.prems bs ni by (auto simp: Let_def split: if_splits)
  show ?case
    by (subst indirect_loop.simps)
      (use bs ni ds Suc.IH[of "d_next ?d" ds' "push_desc ?d acc"] in \<open>auto simp: mem_err_def Let_def add_buffers_simps split: if_splits\<close>)
qed simp

lemma chain_loop_follows:
  "follow n q h did = Some ds \<Longrightarrow> expand k r h ds = Some es \<Longrightarrow>
   chain_loop q r h did acc = Some (Ok (add_buffers es acc))"
proof (induction n arbitrary: did ds es acc)
  case (Suc n)
  obtain d where d: "get_desc q did h = Ok d" using Suc.prems(1) by (auto split: outcome.splits)
  obtain ds' where ds: "ds = d # ds'"
    "if flag_contains (d_flag d) DESC_NEXT then follow n q h (d_next d) = Some ds' else ds' = []"
    using Suc.prems(1) d by (auto split: if_splits)
  obtain es1 es2 where es: "es = es1 @ es2" "expand k r h ds' = Some es2"
    "(if flag_contains (d_flag d) DESC_INDIRECT then follow_table k r h (d_addr d) 0 else Some [d]) = Some es1"
    using Suc.prems(2) unfolding ds(1) by (auto simp: bind_eq_Some_conv)
  have one: "(if flag_contains (d_flag d) DESC_INDIRECT then indirect_loop r h (d_addr d) 0 acc
      else Some (Ok (push_desc d acc))) = Some (Ok (add_buffers es1 acc))"
    using es(3) indirect_loop_follows[of k r h "d_addr d" 0 es1 acc] by (auto simp: add_buffers_simps split: if_splits)
  show ?case
    by (subst chain_loop.simps) (use d one ds es Suc.IH[of "d_next d" ds' es2] in \<open>auto simp: add_buffers_simps split: if_splits\<close>)
qed simp

text \<open>A set of descriptors that all have a successor in the set is a trap for the walk.\<close>

definition trap :: "split_queue \<Rightarrow> hmem \<Rightarrow> u16 set \<Rightarrow> bool" where
  "trap q h S \<longleftrightarrow> (\<forall>did \<in> S. \<exists>d. get_desc q did h = Ok d \<and> \<not> flag_contains (d_flag d) DESC_INDIRECT \<and>
     flag_contains (d_flag d) DESC_NEXT \<and> d_next d \<in> S)"

lemma chain_loop_trapped:
  assumes "chain_loop q r h did acc = Some res"
  shows "\<not> (trap q h S \<and> did \<in> S)"
proof (rule chain_loop.raw_induct[OF _ assms, where P = "\<lambda>q r h did acc _. \<not> (trap q h S \<and> did \<in> S)"])
  fix f q r h did acc res
  assume IH: "\<And>q r h did acc res. f q r h did acc = Some res \<Longrightarrow> \<not> (trap q h S \<and> did \<in> S)"
    and body: "(case get_desc q did h of Ok d \<Rightarrow>
          (case (if flag_contains (d_flag d) DESC_INDIRECT then indirect_loop r h (d_addr d) 0 acc
                 else Some (Ok (push_desc d acc))) of
             None \<Rightarrow> None
           | Some (Ok acc') \<Rightarrow>
               if flag_contains (d_flag d) DESC_NEXT then f q r h (d_next d) acc' else Some (Ok acc')
           | Some (Err e) \<Rightarrow> Some (Err e)
           | Some Panic \<Rightarrow> Some Panic)
      | Err e \<Rightarrow> Some (Err e) | Panic \<Rightarrow> Some Panic) = Some res"
  show "\<not> (trap q h S \<and> did \<in> S)"
  proof
    assume "trap q h S \<and> did \<in> S"
    then obtain d where "get_desc q did h = Ok d" "\<not> flag_contains (d_flag d) DESC_INDIRECT"
      "flag_contains (d_flag d) DESC_NEXT" "d_next d \<in> S" "trap q h S" by (auto simp: trap_def)
    with body IH[of q r h "d_next d" "push_desc d acc" res] show False by simp
  qed
qed

section \<open>Used entries and interrupts\<close>

definition used_elem :: "split_queue \<Rightarrow> u16 \<Rightarrow> u64" where
  "used_elem q index = used_ring q + 8 * ucast (ring_slot q index)"

lemma set_used_elem:
  assumes "span (used_hdr q + 2) 2 \<inter> span (used_elem q index) 8 = {}"
  shows "rd32 (split_set_used q index did len h) (used_elem q index) = ucast did"
    and "rd32 (split_set_used q index did len h) (used_elem q index + 4) = len"
proof -
  let ?e = "used_elem q index" and ?h1 = "wr32 (used_elem q index) (ucast did) h"
  let ?h2 = "wr32 (used_elem q index + 4) len ?h1"
  have eq: "split_set_used q index did len h = wr16 (used_hdr q + 2) (index + 1) ?h2"
    by (simp add: split_set_used_def set_used_index_def used_elem_def Let_def)
  have sub: "span ?e 4 \<subseteq> span ?e 8" "span (?e + 4) 4 \<subseteq> span ?e 8"
    using span_offset[of 0 4 8 ?e] span_offset[of 4 4 8 ?e] by simp_all
  have "agree (span (used_hdr q + 2) 2) ?h2 (wr16 (used_hdr q + 2) (index + 1) ?h2)" by (rule agree_wr16) simp
  then have idx: "rd32 (split_set_used q index did len h) a = rd32 ?h2 a" if "span a 4 \<subseteq> span ?e 8" for a
    unfolding eq using that assms by (intro rd32_agree) auto
  have "agree (span (?e + 4) 4) ?h1 ?h2" by (rule agree_wr32) simp
  then have "rd32 ?h2 ?e = rd32 ?h1 ?e"
    using span_disjoint[of 4 4 4 ?e] by (intro rd32_agree) auto
  then show "rd32 (split_set_used q index did len h) ?e = ucast did"
    using idx[OF sub(1)] by (simp add: rd32_wr32)
  show "rd32 (split_set_used q index did len h) (?e + 4) = len"
    using idx[OF sub(2)] by (simp add: rd32_wr32)
qed

text \<open>The specification's test whether the used index has passed the driver's threshold.\<close>

definition need_event :: "u16 \<Rightarrow> u16 \<Rightarrow> u16 \<Rightarrow> bool" where
  "need_event event new_idx old_idx \<longleftrightarrow> new_idx - event - 1 < new_idx - old_idx"

lemma publish_loop_stops:
  assumes "publish_loop guest q event ai h = Some h'"
  shows "(\<forall>h. rd16 (guest h) event = rd16 h event) \<longrightarrow> rd16 h' event = avail_index q h'"
proof (rule publish_loop.raw_induct[OF _ assms,
    where P = "\<lambda>g q e ai h h'. (\<forall>h. rd16 (g h) e = rd16 h e) \<longrightarrow> rd16 h' e = avail_index q h'"])
  fix f g q e ai h h'
  assume IH: "\<And>g q e ai h h'. f g q e ai h = Some h' \<Longrightarrow>
      (\<forall>h. rd16 (g h) e = rd16 h e) \<longrightarrow> rd16 h' e = avail_index q h'"
    and body: "(let h' = g (wr16 e ai h); ai' = avail_index q h'
      in if ai' = ai then Some h' else f g q e ai' h') = Some h'"
  show "(\<forall>h. rd16 (g h) e = rd16 h e) \<longrightarrow> rd16 h' e = avail_index q h'"
  proof
    assume keep: "\<forall>h. rd16 (g h) e = rd16 h e"
    then have read: "rd16 (g (wr16 e ai h)) e = ai" by (simp add: rd16_wr16)
    show "rd16 h' e = avail_index q h'"
    proof (cases "avail_index q (g (wr16 e ai h)) = ai")
      case True
      then have "h' = g (wr16 e ai h)" using body by (simp add: Let_def)
      then show ?thesis using True read by simp
    next
      case False
      then have "f g q e (avail_index q (g (wr16 e ai h))) (g (wr16 e ai h)) = Some h'"
        using body by (simp add: Let_def)
      then show ?thesis using IH keep by blast
    qed
  qed
qed

section \<open>A sample\<close>

text \<open>A ring of two entries, all in one page of RAM, with one writable buffer on offer.\<close>

definition page_ram :: ram where
  "page_ram = \<lparr>ram_inner = \<lparr>slots = [\<lparr>s_addr = 0x1000,
     s_backend = \<lparr>p_addr = 0x7000, p_size = 0x1000, p_fd = None\<rparr>\<rparr>]\<rparr>\<rparr>"

definition page_queue :: split_queue where
  "page_queue = \<lparr>sq_size = 2, avail_hdr = 0x7000, avail_ring = 0x7004, used_event = None,
     used_hdr = 0x7100, used_ring = 0x7104, avail_event = None, desc_table = 0x7200\<rparr>"

definition page_mem :: hmem where
  "page_mem x = (if x = 0x7002 then 1 else if x = 0x7201 then 0x18 else if x = 0x7208 then 16
     else if x = 0x720c then 2 else 0)"

definition page_chain :: desc_chain where
  "page_chain = \<lparr>chain_id = 0, chain_delta = 1, readable = [], writable = [(0x7800, 16)]\<rparr>"

text \<open>The same ring whose descriptor 0 names itself as its successor.\<close>

definition cyclic_mem :: hmem where
  "cyclic_mem x = (if x = 0x7002 then 1 else if x = 0x720c then 1 else 0)"

lemmas ring_eval = split_desc_avail_def avail_index_def rd16_def rd32_def rd64_def h_read_def
  ring_slot_def get_desc_def desc_at_def flag_contains_def DESC_NEXT_def DESC_WRITE_def DESC_INDIRECT_def

lemma page_follow:
  assumes "agree (dev_area page_queue) page_mem h"
  shows "avail_index page_queue h = 1" "rd16 h 0x7004 = 0"
    "follow 1 page_queue h 0 = Some [\<lparr>d_addr = 0x1800, d_len = 16, d_flag = 2, d_next = 0\<rparr>]"
proof -
  have h: "h x = page_mem x" if "unat (x - 0x7100) \<ge> 4" "unat (x - 0x7104) \<ge> 16" for x
    using assms that by (auto simp: agree_def dev_area_def page_queue_def span_def)
  show "avail_index page_queue h = 1" "rd16 h 0x7004 = 0"
    "follow 1 page_queue h 0 = Some [\<lparr>d_addr = 0x1800, d_len = 16, d_flag = 2, d_next = 0\<rparr>]"
    by (simp_all add: ring_eval page_queue_def upt_eval h page_mem_def)
qed

lemma page_get_avail:
  assumes "agree (dev_area page_queue) page_mem h"
  shows "split_get_avail page_queue page_ram 0 h = Some (Ok (Some page_chain))"
proof -
  note walk = page_follow[OF assms]
  have "chain_loop page_queue page_ram h 0 ([], []) = Some (Ok ([], [(0x1800, 16)]))"
    using chain_loop_follows[OF walk(3), of 1 page_ram _ "([], [])"]
    by (simp add: flag_contains_def DESC_INDIRECT_def DESC_WRITE_def add_buffers_def is_write_def buffer_of_def)
  moreover have "translate_iov page_ram [] = Ok []" "translate_iov_mut page_ram [(0x1800, 16)] = Ok [(0x7800, 16)]"
    by (simp_all add: translate_iov_def translate_iov_mut_def op_result_def sbind_def slice_iter_mut_def
        for_slices.simps iter_next_def ram_get_partial_slice_def pages_get_partial_slice_def
        get_valid_range_def page_ram_def table_eval push_slice_def Let_def)
  ultimately show ?thesis
    using walk(1,2)
    by (simp add: split_get_avail_def split_desc_avail_def Let_def ring_slot_def page_queue_def mem_err_def page_chain_def)
qed

lemma page_settled: "split_settled page_queue page_ram 0 0 (page_mem, w) [page_chain]"
  unfolding split_settled_def
  using page_follow(1) page_get_avail
  by (simp add: page_queue_def rd16_def h_read_def upt_eval page_mem_def)

section \<open>Properties\<close>

text \<open>
  As long as the driver is at most a ring ahead, a chain is available exactly when the
  device's index differs from the driver's, also across the wrap of the 16-bit indices. A ring
  of size 0 always claims to have one.
\<close>

lemma split_desc_avail_iff:
  assumes "sq_size q \<noteq> 0 \<longrightarrow> avail_index q h - index \<le> sq_size q"
  shows "split_desc_avail q index h \<longleftrightarrow> sq_size q = 0 \<or> index \<noteq> avail_index q h"
proof (cases "sq_size q = 0")
  case True
  then show ?thesis by (simp add: split_desc_avail_def Let_def)
next
  case False
  then show ?thesis using assms desc_avail_cases[OF False, of index h] by auto
qed

text \<open>
  C11. When the chain at the head of the ring ends within \<open>n\<close> descriptors and each of its
  indirect tables within \<open>k\<close> entries, the walk returns, and the buffers it hands out are those
  of the chain with the tables expanded in place, in order, split by the write flag.
\<close>

theorem split_get_avail_chain:
  assumes "split_desc_avail q index h"
    and "follow n q h (rd16 h (avail_ring q + 2 * ucast (ring_slot q index))) = Some ds"
    and "expand k r h ds = Some es"
  shows "split_get_avail q r index h =
    Some (obind (mem_err (translate_iov r (map buffer_of (filter (\<lambda>d. \<not> is_write d) es)))) (\<lambda>rd.
          obind (mem_err (translate_iov_mut r (map buffer_of (filter is_write es)))) (\<lambda>wr.
          Ok (Some \<lparr>chain_id = rd16 h (avail_ring q + 2 * ucast (ring_slot q index)), chain_delta = 1,
            readable = rd, writable = wr\<rparr>))))"
  using assms(1) chain_loop_follows[OF assms(2,3), of "([], [])"]
  by (simp add: split_get_avail_def Let_def add_buffers_def)

theorem split_get_avail_chain_witness:
  "split_get_avail page_queue page_ram 0 page_mem =
    Some (obind (mem_err (translate_iov page_ram [])) (\<lambda>rd.
          obind (mem_err (translate_iov_mut page_ram [(0x1800, 16)])) (\<lambda>wr.
          Ok (Some \<lparr>chain_id = 0, chain_delta = 1, readable = rd, writable = wr\<rparr>))))"
  using split_get_avail_chain[of page_queue 0 page_mem 1 "[\<lparr>d_addr = 0x1800, d_len = 16, d_flag = 2, d_next = 0\<rparr>]"
      1 page_ram "[\<lparr>d_addr = 0x1800, d_len = 16, d_flag = 2, d_next = 0\<rparr>]"]
    page_follow[OF agree_refl]
  by (simp add: split_desc_avail_def Let_def ring_slot_def page_queue_def flag_contains_def DESC_INDIRECT_def
      DESC_WRITE_def is_write_def buffer_of_def)

text \<open>
  C26. A driver that links descriptors into a cycle makes the walk run forever: nothing bounds
  the length of a chain.
\<close>

theorem split_get_avail_cycle_hangs:
  assumes "split_desc_avail q index h" and "trap q h S"
    and "rd16 h (avail_ring q + 2 * ucast (ring_slot q index)) \<in> S"
  shows "split_get_avail q r index h = None"
proof -
  have "chain_loop q r h (rd16 h (avail_ring q + 2 * ucast (ring_slot q index))) ([], []) = None"
    using chain_loop_trapped[of q r h _ "([], [])" _ S] assms(2,3)
    by (cases "chain_loop q r h (rd16 h (avail_ring q + 2 * ucast (ring_slot q index))) ([], [])") auto
  then show ?thesis using assms(1) by (simp add: split_get_avail_def Let_def)
qed

theorem split_get_avail_cycle_hangs_witness:
  "split_get_avail page_queue page_ram 0 cyclic_mem = None"
  by (rule split_get_avail_cycle_hangs[where S = "{0}"])
    (simp_all add: trap_def ring_eval page_queue_def upt_eval cyclic_mem_def)

text \<open>
  C1. With a driver that offers the chains \<open>cs\<close> and a handler that completes each of them,
  \<^verbatim>\<open>handle_desc\<close> returns: it disables notifications, serves exactly \<open>cs\<close> in order, each once,
  pushing one used entry per chain, enables notifications again and sends at most one
  interrupt. Both indices and the used index in guest memory end \<open>length cs\<close> further.
\<close>

theorem split_handle_desc_serves_all:
  fixes q :: split_queue and w :: 'w
  assumes "split_settled q r (q_used st) (q_avail st) (h, w) cs" and "cs \<noteq> []"
    and "finishes (split_settled q r) op (set cs)"
  shows "\<exists>s1 u s2 irq s3.
    enable_notification (split_ops id q r) False (h, w) = Some s1 \<and>
    serve_all (split_ops id q r) op cs (q_used st) s1 False = (u, s2, irq) \<and>
    enable_notification (split_ops id q r) True s2 = Some s3 \<and>
    handle_desc (split_ops id q r) send q_index op (st, (h, w)) = Some (Ok (),
      st\<lparr>q_avail := q_avail st + of_nat (length cs), q_used := q_used st + of_nat (length cs)\<rparr>,
      if irq then send q_index s3 else s3) \<and>
    rd16 (fst s3) (used_hdr q + 2) = q_used st + of_nat (length cs)"
proof -
  have adv: "advance (split_ops id q r :: (u16, hmem \<times> 'w) vq_ops) i cs = i + of_nat (length cs)" for i cs
    by (induction cs arbitrary: i) (auto simp: advance_def split_ops_def split_index_add_def add.assoc)
  show ?thesis
    using split.handle_desc_all[OF assms(3,1,2), of send q_index] unfolding adv split_settled_def by blast
qed

definition finish_all :: "desc_chain \<Rightarrow> hmem \<times> unit \<Rightarrow> (status \<times> desc_chain, virtio_error) outcome \<times> hmem \<times> unit" where
  "finish_all c s = (Ok (Done 0, c), s)"

theorem split_handle_desc_serves_all_witness:
  "\<exists>s1 u s2 irq s3.
    enable_notification (split_ops id page_queue page_ram) False (page_mem, ()) = Some s1 \<and>
    serve_all (split_ops id page_queue page_ram) finish_all [page_chain] 0 s1 False = (u, s2, irq) \<and>
    enable_notification (split_ops id page_queue page_ram) True s2 = Some s3 \<and>
    handle_desc (split_ops id page_queue page_ram) (\<lambda>_ s. s) 0 finish_all (queue_new 0, (page_mem, ())) =
      Some (Ok (), \<lparr>q_avail = 1, q_used = 1, q_deferred = Map.empty\<rparr>, s3) \<and>
    rd16 (fst s3) (used_hdr page_queue + 2) = 1"
  using split_handle_desc_serves_all[of page_queue page_ram "queue_new 0" page_mem "()" "[page_chain]" finish_all
      "\<lambda>_ s. s" 0] page_settled[of "()"]
  by (simp add: queue_new_def finishes_def finish_all_def)

text \<open>
  A used entry can be read back by the driver: after \<^verbatim>\<open>set_used\<close> the ring slot of the index
  holds the chain's id and the written length, and the used index is one further. Nothing
  outside the area the device owns changes.
\<close>

lemma split_set_used_publishes:
  assumes "sq_size q \<noteq> 0" and "span (used_hdr q + 2) 2 \<inter> span (used_elem q index) 8 = {}"
  shows "rd32 (split_set_used q index did len h) (used_elem q index) = ucast did \<and>
    rd32 (split_set_used q index did len h) (used_elem q index + 4) = len \<and>
    rd16 (split_set_used q index did len h) (used_hdr q + 2) = index + 1 \<and>
    (\<forall>x. x \<notin> dev_area q \<longrightarrow> split_set_used q index did len h x = h x)"
  using set_used_elem[OF assms(2)] set_used_agree[OF assms(1), of h index did len]
  by (simp add: agree_def split_set_used_def set_used_index_def Let_def rd16_wr16)

text \<open>
  C13. No notification is lost: when enabling notifications returns, the threshold the driver
  compares against equals the driver's index in memory at that moment, whatever the driver did
  meanwhile, provided it leaves the threshold alone.
\<close>

theorem split_notification_not_lost:
  assumes "avail_event q = Some event" and "\<forall>h. rd16 (guest h) event = rd16 h event"
    and "split_enable_notification guest q True h = Some h'"
  shows "rd16 h' event = avail_index q h'"
  using publish_loop_stops[of guest q event _ h h'] assms by (simp add: split_enable_notification_def)

theorem split_notification_not_lost_witness:
  "\<exists>h'. split_enable_notification (\<lambda>h. h(0x7002 := 2)) (page_queue\<lparr>avail_event := Some 0x7114\<rparr>) True page_mem
     = Some h' \<and> rd16 h' 0x7114 = avail_index page_queue h'"
proof -
  let ?g = "\<lambda>h :: hmem. h(0x7002 := 2)" and ?q = "page_queue\<lparr>avail_event := Some 0x7114\<rparr>"
  have keep: "\<forall>h. rd16 (?g h) 0x7114 = rd16 h 0x7114" by (simp add: rd16_def h_read_def upt_eval)
  have idx: "avail_index ?q (?g (wr16 0x7114 v h)) = 2" if "h 0x7003 = 0" for v h
    using that by (simp add: avail_index_def rd16_def h_read_def upt_eval page_queue_def wr16_def h_write_def
        length_le_encode)
  have one: "avail_index ?q page_mem = 1"
    by (simp add: avail_index_def rd16_def h_read_def upt_eval page_queue_def page_mem_def)
  have zero: "?g (wr16 0x7114 1 page_mem) 0x7003 = 0"
    by (simp add: wr16_def h_write_def page_mem_def length_le_encode)
  have "split_enable_notification ?g ?q True page_mem \<noteq> None"
    using one idx[of page_mem 1] idx[of "?g (wr16 0x7114 1 page_mem)" 2] zero
    by (simp add: split_enable_notification_def publish_loop.simps Let_def page_mem_def)
  then obtain h' where h': "split_enable_notification ?g ?q True page_mem = Some h'" by blast
  with split_notification_not_lost[of ?q "0x7114" ?g page_mem h'] keep show ?thesis
    by (auto simp: avail_index_def)
qed

text \<open>
  C27. With event indices the ring asks for an interrupt exactly when the specification's test
  says that the used index, moved by one entry, has passed the driver's threshold.
\<close>

theorem split_interrupt_need_event:
  assumes "get_used_event q h = Some event"
  shows "split_interrupt_enabled q index delta h \<longleftrightarrow> need_event event index (index - 1)"
proof -
  have "index - event - 1 < 1 \<longleftrightarrow> index - event - 1 = 0" by (rule word_less_1)
  also have "\<dots> \<longleftrightarrow> event = index - 1" by (auto simp: diff_eq_eq eq_diff_eq add.commute)
  finally have "index - event - 1 < 1 \<longleftrightarrow> event = index - 1" .
  then show ?thesis using assms by (simp add: split_interrupt_enabled_def need_event_def)
qed

theorem split_interrupt_need_event_witness:
  "split_interrupt_enabled (page_queue\<lparr>used_event := Some 0x7008\<rparr>) 1 1 page_mem \<longleftrightarrow> need_event 0 1 0"
  using split_interrupt_need_event[of "page_queue\<lparr>used_event := Some 0x7008\<rparr>" page_mem 0 1 1]
  by (simp add: get_used_event_def rd16_def h_read_def upt_eval page_mem_def)

end
