(* ===== verification/Packed_Queue.thy ===== *)
theory Packed_Queue
  imports Ring_Memory
begin

text \<open>
  \<^verbatim>\<open>alioth/src/virtio/queue/packed.rs\<close>: the packed ring. One ring of descriptors is shared by
  driver and device; the flags of a descriptor, compared with the wrap counter of the lap,
  tell who owns it.
\<close>

section \<open>Wrapped indices\<close>

text \<open>\<^verbatim>\<open>WrappedIndex\<close>: 15 bits of offset and the wrap counter in bit 15.\<close>

type_synonym windex = u16

definition w_offset :: "windex \<Rightarrow> u16" where
  "w_offset i = i AND 0x7fff"

definition wrap_counter :: "windex \<Rightarrow> bool" where
  "wrap_counter i = bit i 15"

definition set_wrap_counter :: "bool \<Rightarrow> windex \<Rightarrow> windex" where
  "set_wrap_counter b i = (if b then set_bit 15 i else unset_bit 15 i)"

definition windex_init :: windex where
  "windex_init = 0x8000"

definition wrapping_add :: "windex \<Rightarrow> u16 \<Rightarrow> u16 \<Rightarrow> windex" where
  "wrapping_add i delta sz =
     (let off = w_offset i + delta
      in if sz \<le> off then set_wrap_counter (\<not> wrap_counter i) (off - sz)
         else set_wrap_counter (wrap_counter i) off)"

definition wrapping_sub :: "windex \<Rightarrow> u16 \<Rightarrow> u16 \<Rightarrow> windex" where
  "wrapping_sub i delta sz =
     (let off = w_offset i
      in if delta \<le> off then set_wrap_counter (wrap_counter i) (off - delta)
         else set_wrap_counter (\<not> wrap_counter i) (off + (sz - delta)))"

section \<open>The queue\<close>

record packed_desc =
  pd_addr :: u64
  pd_len :: u32
  pd_id :: u16
  pd_flag :: u16

definition pdesc_at :: "hmem \<Rightarrow> u64 \<Rightarrow> packed_desc" where
  "pdesc_at h a = \<lparr>pd_addr = rd64 h a, pd_len = rd32 h (a + 8), pd_id = rd16 h (a + 12),
     pd_flag = rd16 h (a + 14)\<rparr>"

definition pdesc_of_bytes :: "u8 list \<Rightarrow> packed_desc" where
  "pdesc_of_bytes bs = \<lparr>pd_addr = le_decode (take 8 bs), pd_len = le_decode (take 4 (drop 8 bs)),
     pd_id = le_decode (take 2 (drop 12 bs)), pd_flag = le_decode (take 2 (drop 14 bs))\<rparr>"

definition EVENT_ENABLE :: u16 where "EVENT_ENABLE = 0"
definition EVENT_DISABLE :: u16 where "EVENT_DISABLE = 1"
definition EVENT_DESC :: u16 where "EVENT_DESC = 2"

text \<open>\<^verbatim>\<open>DescEvent\<close> has the index at offset 0 and the flag at offset 2.\<close>

record packed_queue =
  pq_size :: u16
  pq_desc :: u64
  enable_event_idx :: bool
  pq_notification :: u64
  pq_interrupt :: u64

definition packed_new :: "queue_reg \<Rightarrow> ram \<Rightarrow> bool \<Rightarrow> (packed_queue option, virtio_error) outcome" where
  "packed_new reg r event_idx =
     (if \<not> reg_enabled reg then Ok None
      else obind (mem_err (get_ptr r 4 2 (reg_device reg))) (\<lambda>notif.
           obind (mem_err (get_ptr r 16 16 (reg_desc reg))) (\<lambda>d.
           obind (mem_err (get_ptr r 4 2 (reg_driver reg))) (\<lambda>intr.
           Ok (Some \<lparr>pq_size = reg_size reg, pq_desc = d, enable_event_idx = event_idx,
             pq_notification = notif, pq_interrupt = intr\<rparr>)))))"

definition flag_is_avail :: "u16 \<Rightarrow> bool \<Rightarrow> bool" where
  "flag_is_avail flag wrap \<longleftrightarrow>
     flag_contains flag DESC_AVAIL = wrap \<and> flag_contains flag DESC_USED \<noteq> wrap"

definition set_flag_used :: "u16 \<Rightarrow> bool \<Rightarrow> u16" where
  "set_flag_used flag wrap = (if wrap then flag_insert flag (DESC_USED OR DESC_AVAIL)
     else flag_remove flag (DESC_USED OR DESC_AVAIL))"

definition slot_addr :: "packed_queue \<Rightarrow> u16 \<Rightarrow> u64" where
  "slot_addr q off = pq_desc q + 16 * ucast off"

definition packed_desc_avail :: "packed_queue \<Rightarrow> windex \<Rightarrow> hmem \<Rightarrow> bool" where
  "packed_desc_avail q i h =
     flag_is_avail (pd_flag (pdesc_at h (slot_addr q (w_offset i)))) (wrap_counter i)"

type_synonym piovs = "(u64 \<times> u64) list \<times> (u64 \<times> u64) list"

definition push_pdesc :: "packed_desc \<Rightarrow> piovs \<Rightarrow> piovs" where
  "push_pdesc d acc = (case acc of (rs, ws) \<Rightarrow>
     if flag_contains (pd_flag d) DESC_WRITE then (rs, ws @ [(pd_addr d, ucast (pd_len d))])
     else (rs @ [(pd_addr d, ucast (pd_len d))], ws))"

text \<open>\<^verbatim>\<open>for i in 0..(desc.len / 16)\<close> over the indirect table at \<open>base\<close>.\<close>

fun indirect_entries :: "ram \<Rightarrow> hmem \<Rightarrow> u64 \<Rightarrow> nat list \<Rightarrow> piovs \<Rightarrow> (piovs, virtio_error) outcome" where
  "indirect_entries r h base [] acc = Ok acc"
| "indirect_entries r h base (i # is) acc =
     obind (mem_err (ram_read_t r h 16 (base + of_nat (i * 16)))) (\<lambda>bs.
       indirect_entries r h base is (push_pdesc (pdesc_of_bytes bs) acc))"

definition push_slot :: "ram \<Rightarrow> hmem \<Rightarrow> packed_desc \<Rightarrow> piovs \<Rightarrow> (piovs, virtio_error) outcome" where
  "push_slot r h d acc =
     (if flag_contains (pd_flag d) DESC_INDIRECT
      then indirect_entries r h (pd_addr d) [0..<unat (pd_len d) div 16] acc
      else Ok (push_pdesc d acc))"

text \<open>The result is the id of the last descriptor, the number of descriptors and the buffers.\<close>

partial_function (option) packed_loop :: "packed_queue \<Rightarrow> ram \<Rightarrow> hmem \<Rightarrow> u16 \<Rightarrow> u16 \<Rightarrow> piovs
    \<Rightarrow> (u16 \<times> u16 \<times> piovs, virtio_error) outcome option" where
  "packed_loop q r h off delta acc =
     (let d = pdesc_at h (slot_addr q off)
      in case push_slot r h d acc of
           Err e \<Rightarrow> Some (Err e)
         | Panic \<Rightarrow> Some Panic
         | Ok acc' \<Rightarrow>
             (if \<not> flag_contains (pd_flag d) DESC_NEXT then Some (Ok (pd_id d, delta + 1, acc'))
              else if pq_size q = 0 then Some Panic
              else packed_loop q r h ((off + 1) mod pq_size q) (delta + 1) acc'))"

definition packed_get_avail :: "packed_queue \<Rightarrow> ram \<Rightarrow> windex \<Rightarrow> hmem
    \<Rightarrow> (desc_chain option, virtio_error) outcome option" where
  "packed_get_avail q r i h =
     (if \<not> packed_desc_avail q i h then Some (Ok None)
      else case packed_loop q r h (w_offset i) 0 ([], []) of
        None \<Rightarrow> None
      | Some (Err e) \<Rightarrow> Some (Err e)
      | Some Panic \<Rightarrow> Some Panic
      | Some (Ok (did, delta, rs, ws)) \<Rightarrow>
          Some (obind (mem_err (translate_iov r rs)) (\<lambda>rd.
                obind (mem_err (translate_iov_mut r ws)) (\<lambda>wr.
                Ok (Some \<lparr>chain_id = did, chain_delta = delta, readable = rd, writable = wr\<rparr>)))))"

definition packed_set_used :: "packed_queue \<Rightarrow> windex \<Rightarrow> u16 \<Rightarrow> u32 \<Rightarrow> hmem \<Rightarrow> hmem" where
  "packed_set_used q i did len h =
     (let a = slot_addr q (w_offset i);
          h1 = wr32 (a + 8) len (wr16 (a + 12) did h)
      in wr16 (a + 14) (set_flag_used (rd16 h1 (a + 14)) (wrap_counter i)) h1)"

definition packed_enable_notification :: "packed_queue \<Rightarrow> bool \<Rightarrow> hmem \<Rightarrow> hmem" where
  "packed_enable_notification q enabled h =
     wr16 (pq_notification q + 2) (if enabled then EVENT_ENABLE else EVENT_DISABLE) h"

definition packed_interrupt_enabled :: "packed_queue \<Rightarrow> windex \<Rightarrow> u16 \<Rightarrow> hmem \<Rightarrow> bool" where
  "packed_interrupt_enabled q i delta h =
     (let ev = rd16 h (pq_interrupt q); flag = rd16 h (pq_interrupt q + 2)
      in if enable_event_idx q \<and> flag = EVENT_DESC
         then let prev = wrapping_sub i delta (pq_size q);
                  base = w_offset prev;
                  last = base + delta;
                  off = (if wrap_counter ev \<noteq> wrap_counter prev then w_offset ev + pq_size q
                         else w_offset ev)
              in base \<le> off \<and> off < last
         else flag = EVENT_ENABLE)"

definition packed_index_add :: "packed_queue \<Rightarrow> windex \<Rightarrow> u16 \<Rightarrow> windex" where
  "packed_index_add q i delta = wrapping_add i delta (pq_size q)"

definition packed_ops :: "packed_queue \<Rightarrow> ram \<Rightarrow> (windex, hmem \<times> 'w) vq_ops" where
  "packed_ops q r = \<lparr>
     desc_avail = (\<lambda>i s. packed_desc_avail q i (fst s)),
     get_avail = (\<lambda>i s. packed_get_avail q r i (fst s)),
     set_used = (\<lambda>i did len s. (packed_set_used q i did len (fst s), snd s)),
     enable_notification = (\<lambda>on s. Some (packed_enable_notification q on (fst s), snd s)),
     interrupt_enabled = (\<lambda>i delta s. packed_interrupt_enabled q i delta (fst s)),
     index_add = packed_index_add q\<rparr>"

section \<open>Positions\<close>

text \<open>
  An index is a position on two laps: offsets \<open>0\<close> to \<open>size - 1\<close> with the counter set, then with
  the counter clear. Adding and subtracting is arithmetic modulo two laps.
\<close>

definition pos :: "u16 \<Rightarrow> windex \<Rightarrow> nat" where
  "pos sz i = unat (w_offset i) + (if wrap_counter i then 0 else unat sz)"

definition windex_ok :: "u16 \<Rightarrow> windex \<Rightarrow> bool" where
  "windex_ok sz i \<longleftrightarrow> w_offset i < sz"

definition size_ok :: "u16 \<Rightarrow> bool" where
  "size_ok sz \<longleftrightarrow> 0 < sz \<and> sz \<le> 0x8000"

lemma mask_7fff: "(0x7fff :: u16) = mask 15"
  by (simp add: mask_eq_exp_minus_1)

lemma w_offset_take_bit: "w_offset i = take_bit 15 i"
  by (simp add: w_offset_def mask_7fff take_bit_eq_mask)

lemma unat_w_offset: "unat (w_offset i) = unat i mod 2 ^ 15"
  unfolding w_offset_take_bit unsigned_take_bit_eq by (simp add: take_bit_eq_mod)

lemma wrap_set [simp]: "wrap_counter (set_wrap_counter b x) = b"
  by (simp add: wrap_counter_def set_wrap_counter_def bit_simps)

lemma offset_set: "x < 0x8000 \<Longrightarrow> w_offset (set_wrap_counter b x) = x"
proof (rule bit_word_eqI)
  fix n assume x: "x < 0x8000" and n: "n < LENGTH(16)"
  have "unat (take_bit 15 x) = unat x"
    using x unfolding unsigned_take_bit_eq by (simp add: take_bit_nat_eq_self word_less_nat_alt)
  then have "take_bit 15 x = x" by (simp add: word_unat_eq_iff)
  then have "bit x n \<longleftrightarrow> n < 15 \<and> bit x n" by (metis bit_take_bit_iff)
  then show "bit (w_offset (set_wrap_counter b x)) n \<longleftrightarrow> bit x n"
    using n by (auto simp: w_offset_take_bit set_wrap_counter_def bit_simps)
qed

lemma windex_eqI: "w_offset i = w_offset j \<Longrightarrow> wrap_counter i = wrap_counter j \<Longrightarrow> i = j"
proof (rule bit_word_eqI)
  fix n assume "w_offset i = w_offset j" "wrap_counter i = wrap_counter j" and n: "n < LENGTH(16)"
  then have "bit (take_bit 15 i) n = bit (take_bit 15 j) n" "bit i 15 = bit j 15"
    by (simp_all add: w_offset_take_bit wrap_counter_def)
  then show "bit i n = bit j n" using n by (cases "n = 15") (auto simp: bit_take_bit_iff)
qed

lemma pos_inject: "windex_ok sz i \<Longrightarrow> windex_ok sz j \<Longrightarrow> pos sz i = pos sz j \<Longrightarrow> i = j"
  by (rule windex_eqI)
    (auto simp: pos_def windex_ok_def word_less_nat_alt word_unat_eq_iff split: if_splits)

lemma size_okD: "size_ok sz \<Longrightarrow> 0 < unat sz \<and> unat sz \<le> 2 ^ 15"
  by (simp add: size_ok_def word_less_nat_alt word_le_nat_alt)

lemma pos_less: "windex_ok sz i \<Longrightarrow> pos sz i < 2 * unat sz"
  by (auto simp: pos_def windex_ok_def word_less_nat_alt)

lemma pos_add:
  assumes sz: "size_ok sz" and i: "windex_ok sz i" and d: "d \<le> sz"
  shows "windex_ok sz (wrapping_add i d sz)"
    and "pos sz (wrapping_add i d sz) = (pos sz i + unat d) mod (2 * unat sz)"
proof -
  let ?o = "w_offset i"
  have o: "unat ?o < unat sz" "unat d \<le> unat sz" "unat sz \<le> 2 ^ 15" "0 < unat sz"
    using i d size_okD[OF sz] by (auto simp: windex_ok_def word_less_nat_alt word_le_nat_alt)
  then have sum: "unat (?o + d) = unat ?o + unat d" by (intro unat_plus_no_wrap) simp
  have "windex_ok sz (wrapping_add i d sz) \<and>
    pos sz (wrapping_add i d sz) = (pos sz i + unat d) mod (2 * unat sz)"
  proof (cases "sz \<le> ?o + d")
    case True
    then have diff: "unat (?o + d - sz) = unat ?o + unat d - unat sz" "unat sz \<le> unat ?o + unat d"
      using sum by (auto simp: unat_minus_le word_le_nat_alt)
    then have lt: "?o + d - sz < 0x8000" "?o + d - sz < sz" using o by (auto simp: word_less_nat_alt)
    show ?thesis
      using True diff o lt(2)
      by (auto simp: wrapping_add_def windex_ok_def pos_def offset_set[OF lt(1)] Let_def mod_if)
  next
    case False
    then have lt: "?o + d < 0x8000" "?o + d < sz" "unat ?o + unat d < unat sz"
      using sum o by (auto simp: word_less_nat_alt word_le_nat_alt)
    show ?thesis
      using False sum lt(2,3)
      by (auto simp: wrapping_add_def windex_ok_def pos_def offset_set[OF lt(1)] Let_def)
  qed
  then show "windex_ok sz (wrapping_add i d sz)"
    "pos sz (wrapping_add i d sz) = (pos sz i + unat d) mod (2 * unat sz)" by auto
qed

lemma pos_sub:
  assumes sz: "size_ok sz" and i: "windex_ok sz i" and d: "d \<le> sz"
  shows "windex_ok sz (wrapping_sub i d sz)"
    and "pos sz (wrapping_sub i d sz) = (pos sz i + (2 * unat sz - unat d)) mod (2 * unat sz)"
proof -
  let ?o = "w_offset i"
  have o: "unat ?o < unat sz" "unat d \<le> unat sz" "unat sz \<le> 2 ^ 15" "0 < unat sz"
    using i d size_okD[OF sz] by (auto simp: windex_ok_def word_less_nat_alt word_le_nat_alt)
  have "windex_ok sz (wrapping_sub i d sz) \<and>
    pos sz (wrapping_sub i d sz) = (pos sz i + (2 * unat sz - unat d)) mod (2 * unat sz)"
  proof (cases "d \<le> ?o")
    case True
    then have diff: "unat (?o - d) = unat ?o - unat d" "unat d \<le> unat ?o"
      by (auto simp: unat_minus_le word_le_nat_alt)
    then have lt: "?o - d < 0x8000" "?o - d < sz" using o by (auto simp: word_less_nat_alt)
    show ?thesis
      using True diff o lt(2)
      by (auto simp: wrapping_sub_def windex_ok_def pos_def offset_set[OF lt(1)] Let_def mod_if)
  next
    case False
    have "unat (sz - d) = unat sz - unat d" using d by (rule unat_minus_le)
    then have sum: "unat (?o + (sz - d)) = unat ?o + (unat sz - unat d)"
      using o by (subst unat_plus_no_wrap) auto
    have less: "unat ?o < unat d" using False by (simp add: word_le_nat_alt)
    then have lt: "?o + (sz - d) < 0x8000" "?o + (sz - d) < sz"
      using sum o by (auto simp: word_less_nat_alt)
    show ?thesis
      using False sum o less lt(2)
      by (auto simp: wrapping_sub_def windex_ok_def pos_def offset_set[OF lt(1)] Let_def mod_if)
  qed
  then show "windex_ok sz (wrapping_sub i d sz)"
    "pos sz (wrapping_sub i d sz) = (pos sz i + (2 * unat sz - unat d)) mod (2 * unat sz)" by auto
qed

lemma wrapping_sub_add:
  assumes "size_ok sz" "windex_ok sz i" "d \<le> sz"
  shows "wrapping_sub (wrapping_add i d sz) d sz = i"
    and "wrapping_add (wrapping_sub i d sz) d sz = i"
proof -
  have b: "pos sz i < 2 * unat sz" "unat d \<le> 2 * unat sz"
    using pos_less[OF assms(2)] assms(3) by (auto simp: word_le_nat_alt)
  note add = pos_add[OF assms] and sub = pos_sub[OF assms]
  have "pos sz (wrapping_sub (wrapping_add i d sz) d sz) =
      (pos sz i + unat d + (2 * unat sz - unat d)) mod (2 * unat sz)"
    using pos_sub(2)[OF assms(1) add(1) assms(3)] unfolding add(2) mod_add_left_eq .
  then have "pos sz (wrapping_sub (wrapping_add i d sz) d sz) = pos sz i" using b by simp
  then show "wrapping_sub (wrapping_add i d sz) d sz = i"
    using pos_inject pos_sub(1)[OF assms(1) add(1) assms(3)] assms(2) by blast
  have "pos sz (wrapping_add (wrapping_sub i d sz) d sz) =
      (pos sz i + (2 * unat sz - unat d) + unat d) mod (2 * unat sz)"
    using pos_add(2)[OF assms(1) sub(1) assms(3)] unfolding sub(2) mod_add_left_eq .
  then have "pos sz (wrapping_add (wrapping_sub i d sz) d sz) = pos sz i" using b by simp
  then show "wrapping_add (wrapping_sub i d sz) d sz = i"
    using pos_inject pos_add(1)[OF assms(1) sub(1) assms(3)] assms(2) by blast
qed

lemma reached_iff_distance:
  assumes sz: "size_ok sz" and p: "windex_ok sz p" and ev: "windex_ok sz ev" and d: "d \<le> sz"
  shows "(\<exists>k < unat d. ev = wrapping_add p (of_nat k) sz) \<longleftrightarrow>
    (pos sz ev + 2 * unat sz - pos sz p) mod (2 * unat sz) < unat d"
proof -
  let ?m = "2 * unat sz"
  have lt: "pos sz p < ?m" "pos sz ev < ?m" using pos_less p ev by auto
  have d': "unat d \<le> unat sz" "unat sz \<le> 2 ^ 15" "0 < unat sz"
    using d size_okD[OF sz] by (auto simp: word_le_nat_alt)
  have small: "unat (of_nat k :: u16) = k" if "k < unat d" for k
    using that d' by (simp add: unat_of_nat)
  have step: "pos sz (wrapping_add p (of_nat k) sz) = (pos sz p + k) mod ?m"
    "windex_ok sz (wrapping_add p (of_nat k) sz)" if "k < unat d" for k
    using pos_add[OF sz p, of "of_nat k"] small[OF that] that d' by (auto simp: word_le_nat_alt)
  show ?thesis
  proof
    assume "\<exists>k < unat d. ev = wrapping_add p (of_nat k) sz"
    then obtain k where k: "k < unat d" "pos sz ev = (pos sz p + k) mod ?m" using step(1) by blast
    have "(pos sz ev + ?m - pos sz p) mod ?m = k"
      using k lt d' by (cases "pos sz p + k < ?m") (auto simp: mod_if)
    then show "(pos sz ev + ?m - pos sz p) mod ?m < unat d" using k(1) by simp
  next
    let ?k = "(pos sz ev + ?m - pos sz p) mod ?m"
    assume k: "?k < unat d"
    have "(pos sz p + ?k) mod ?m = (pos sz p + (pos sz ev + ?m - pos sz p)) mod ?m"
      by (rule mod_add_right_eq)
    also have "\<dots> = pos sz ev" using lt by simp
    finally have "pos sz ev = pos sz (wrapping_add p (of_nat ?k) sz)" using step(1)[OF k] by simp
    then show "\<exists>k < unat d. ev = wrapping_add p (of_nat k) sz"
      using pos_inject[OF ev step(2)[OF k]] k by blast
  qed
qed

lemma window_iff_distance:
  assumes sz: "size_ok sz" and p: "windex_ok sz p" and ev: "windex_ok sz ev" and d: "d \<le> sz"
  shows "(let off = (if wrap_counter ev \<noteq> wrap_counter p then w_offset ev + sz else w_offset ev)
      in w_offset p \<le> off \<and> off < w_offset p + d) \<longleftrightarrow>
    (pos sz ev + 2 * unat sz - pos sz p) mod (2 * unat sz) < unat d"
proof -
  have o: "unat (w_offset p) < unat sz" "unat (w_offset ev) < unat sz" "unat d \<le> unat sz"
    "unat sz \<le> 2 ^ 15" "0 < unat sz"
    using p ev d size_okD[OF sz] by (auto simp: windex_ok_def word_less_nat_alt word_le_nat_alt)
  have sums: "unat (w_offset ev + sz) = unat (w_offset ev) + unat sz"
    "unat (w_offset p + d) = unat (w_offset p) + unat d"
    using o by (auto intro!: unat_plus_no_wrap)
  show ?thesis
  proof (cases "wrap_counter ev = wrap_counter p")
    case True
    then show ?thesis using o sums by (auto simp: Let_def pos_def word_le_nat_alt word_less_nat_alt mod_if)
  next
    case False
    then show ?thesis using o sums by (auto simp: Let_def pos_def word_le_nat_alt word_less_nat_alt mod_if)
  qed
qed

section \<open>The packed ring keeps the contract\<close>

abbreviation forward :: "packed_queue \<Rightarrow> windex \<Rightarrow> nat \<Rightarrow> windex" where
  "forward q u n \<equiv> wrapping_add u (of_nat n) (pq_size q)"

text \<open>
  The device writes the notification flag and the \<open>n\<close> descriptors from the used index on. The
  chains \<open>cs\<close> are on offer \<open>n\<close> slots after the used index whatever the device has written there.
\<close>

definition written :: "packed_queue \<Rightarrow> windex \<Rightarrow> nat \<Rightarrow> u64 set" where
  "written q u n = span (pq_notification q + 2) 2 \<union>
     (\<Union>j < n. span (slot_addr q (w_offset (forward q u j))) 16)"

fun offered :: "packed_queue \<Rightarrow> ram \<Rightarrow> windex \<Rightarrow> nat \<Rightarrow> hmem \<Rightarrow> desc_chain list \<Rightarrow> bool" where
  "offered q r u n h [] \<longleftrightarrow>
     (\<forall>h'. agree (written q u n) h h' \<longrightarrow> \<not> packed_desc_avail q (forward q u n) h')"
| "offered q r u n h (c # cs) \<longleftrightarrow> chain_delta c \<noteq> 0 \<and>
     (\<forall>h'. agree (written q u n) h h' \<longrightarrow>
        packed_get_avail q r (forward q u n) h' = Some (Ok (Some c))) \<and>
     offered q r u (n + unat (chain_delta c)) h cs"

fun total_delta :: "desc_chain list \<Rightarrow> nat" where
  "total_delta [] = 0"
| "total_delta (c # cs) = unat (chain_delta c) + total_delta cs"

definition packed_settled :: "packed_queue \<Rightarrow> ram \<Rightarrow> windex \<Rightarrow> windex \<Rightarrow> hmem \<times> 'w \<Rightarrow> desc_chain list \<Rightarrow> bool" where
  "packed_settled q r u a s cs \<longleftrightarrow> size_ok (pq_size q) \<and> windex_ok (pq_size q) u \<and>
     (\<exists>n. a = forward q u n \<and> n + total_delta cs < unat (pq_size q) \<and> offered q r u n (fst s) cs)"

lemma forward_pos:
  assumes "size_ok (pq_size q)" "windex_ok (pq_size q) u" "n \<le> unat (pq_size q)"
  shows "windex_ok (pq_size q) (forward q u n)"
    and "pos (pq_size q) (forward q u n) = (pos (pq_size q) u + n) mod (2 * unat (pq_size q))"
proof -
  have "n < 2 ^ 16" using assms(3) size_okD[OF assms(1)] by simp
  then have "unat (of_nat n :: u16) = n" by (simp add: unat_of_nat)
  then show "windex_ok (pq_size q) (forward q u n)"
    "pos (pq_size q) (forward q u n) = (pos (pq_size q) u + n) mod (2 * unat (pq_size q))"
    using pos_add[OF assms(1,2), of "of_nat n"] assms(3) by (simp_all add: word_le_nat_alt)
qed

lemma forward_forward:
  assumes "size_ok (pq_size q)" "windex_ok (pq_size q) u" "m + n \<le> unat (pq_size q)"
  shows "forward q (forward q u m) n = forward q u (m + n)"
proof (rule pos_inject)
  have m: "windex_ok (pq_size q) (forward q u m)" using forward_pos(1)[OF assms(1,2)] assms(3) by simp
  show "windex_ok (pq_size q) (forward q (forward q u m) n)" "windex_ok (pq_size q) (forward q u (m + n))"
    using forward_pos(1)[OF assms(1) m, of n] forward_pos(1)[OF assms(1,2), of "m + n"] assms(3) by auto
  show "pos (pq_size q) (forward q (forward q u m) n) = pos (pq_size q) (forward q u (m + n))"
    using forward_pos(2)[OF assms(1) m, of n] forward_pos(2)[OF assms(1,2), of m]
      forward_pos(2)[OF assms(1,2), of "m + n"] assms(3) by (simp add: mod_simps add.assoc)
qed

lemma forward_0:
  assumes "size_ok (pq_size q)" "windex_ok (pq_size q) u"
  shows "forward q u 0 = u"
  using forward_pos[OF assms, of 0] pos_less[OF assms(2)] by (intro pos_inject[OF _ assms(2)]) auto

lemma written_mono: "m \<le> n \<Longrightarrow> written q u m \<subseteq> written q u n"
  by (auto simp: written_def)

lemma agree_mono: "A \<subseteq> B \<Longrightarrow> agree A h h' \<Longrightarrow> agree B h h'"
  by (auto simp: agree_def)

lemma written_shift:
  assumes "size_ok (pq_size q)" "windex_ok (pq_size q) u" "d + n \<le> unat (pq_size q)"
  shows "written q (forward q u d) n \<subseteq> written q u (d + n)"
proof -
  have eq: "forward q (forward q u d) j = forward q u (d + j)" if "j < n" for j
    using forward_forward[OF assms(1,2), of d j] assms(3) that by simp
  show ?thesis
    unfolding written_def
  proof (rule Un_mono[OF subset_refl], rule UN_least)
    fix j assume "j \<in> {..<n}"
    then show "span (slot_addr q (w_offset (forward q (forward q u d) j))) 16 \<subseteq>
        (\<Union>j < d + n. span (slot_addr q (w_offset (forward q u j))) 16)"
      using UN_upper[of "d + j" "{..<d + n}" "\<lambda>j. span (slot_addr q (w_offset (forward q u j))) 16"]
      by (simp add: eq del: of_nat_add)
  qed
qed

lemma offered_agree:
  "offered q r u n h cs \<Longrightarrow> agree (written q u n) h h1 \<Longrightarrow> offered q r u n h1 cs"
proof (induction cs arbitrary: n)
  case Nil
  then show ?case using agree_trans[OF Nil.prems(2)] unfolding offered.simps by blast
next
  case (Cons c cs)
  have "agree (written q u (n + unat (chain_delta c))) h h1"
    using agree_mono[OF written_mono Cons.prems(2)] by simp
  from Cons.IH[OF _ this] show ?case
    using Cons.prems(1) agree_trans[OF Cons.prems(2)] unfolding offered.simps by blast
qed

lemma offered_shift:
  assumes sz: "size_ok (pq_size q)" and u: "windex_ok (pq_size q) u"
  shows "offered q r u (d + n) h cs \<Longrightarrow> d + n + total_delta cs < unat (pq_size q) \<Longrightarrow>
    offered q r (forward q u d) n h cs"
proof (induction cs arbitrary: n)
  case Nil
  then have "forward q (forward q u d) n = forward q u (d + n)" "written q (forward q u d) n \<subseteq> written q u (d + n)"
    using forward_forward[OF sz u] written_shift[OF sz u] by auto
  then show ?case using Nil.prems(1) agree_mono unfolding offered.simps by (metis (no_types))
next
  case (Cons c cs)
  then have "forward q (forward q u d) n = forward q u (d + n)" "written q (forward q u d) n \<subseteq> written q u (d + n)"
    using forward_forward[OF sz u] written_shift[OF sz u] by auto
  moreover have "offered q r (forward q u d) (n + unat (chain_delta c)) h cs"
    using Cons.IH[of "n + unat (chain_delta c)"] Cons.prems by (simp add: add.assoc)
  ultimately show ?case using Cons.prems(1) agree_mono unfolding offered.simps by (metis (no_types))
qed

lemma packed_set_used_agree:
  assumes "span (slot_addr q (w_offset u)) 16 \<subseteq> A"
  shows "agree A h (packed_set_used q u did len h)"
proof -
  let ?a = "slot_addr q (w_offset u)"
  have "span (?a + 12) 2 \<subseteq> A" "span (?a + 8) 4 \<subseteq> A" "span (?a + 14) 2 \<subseteq> A"
    using span_offset[of 12 2 16 ?a] span_offset[of 8 4 16 ?a] span_offset[of 14 2 16 ?a] assms by auto
  then show ?thesis
    unfolding packed_set_used_def Let_def
    by (intro agree_trans[OF agree_trans[OF agree_wr16 agree_wr32] agree_wr16])
qed

lemma packed_park:
  assumes "packed_settled q r u a s (c # cs)"
  shows "packed_settled q r u (packed_index_add q a (chain_delta c)) s cs"
proof -
  obtain n where n: "a = forward q u n" "n + total_delta (c # cs) < unat (pq_size q)"
    "offered q r u n (fst s) (c # cs)" and ok: "size_ok (pq_size q)" "windex_ok (pq_size q) u"
    using assms by (auto simp: packed_settled_def)
  have "packed_index_add q a (chain_delta c) = forward q u (n + unat (chain_delta c))"
    using forward_forward[OF ok, of n "unat (chain_delta c)"] n(1,2) by (simp add: packed_index_add_def)
  moreover have "n + unat (chain_delta c) + total_delta cs < unat (pq_size q)"
    "offered q r u (n + unat (chain_delta c)) (fst s) cs" using n(2,3) by simp_all
  ultimately show ?thesis using ok unfolding packed_settled_def by blast
qed

lemma packed_use:
  assumes "packed_settled q r u a (h, w) (c # cs)"
  shows "packed_settled q r (packed_index_add q u (chain_delta c)) (packed_index_add q a (chain_delta c))
    (packed_set_used q u did len h, w) cs"
proof -
  let ?d = "unat (chain_delta c)"
  obtain n where n: "a = forward q u n" "n + total_delta (c # cs) < unat (pq_size q)"
    "offered q r u n h (c # cs)" and ok: "size_ok (pq_size q)" "windex_ok (pq_size q) u"
    using assms by (auto simp: packed_settled_def)
  have d: "0 < ?d" using n(3) by (simp add: unat_gt_0_iff)
  have u': "packed_index_add q u (chain_delta c) = forward q u ?d" by (simp add: packed_index_add_def)
  have a': "packed_index_add q a (chain_delta c) = forward q (forward q u ?d) n"
    using forward_forward[OF ok, of n ?d] forward_forward[OF ok, of ?d n] n(1,2)
    by (simp add: packed_index_add_def add.commute)
  have "span (slot_addr q (w_offset u)) 16 \<subseteq> written q u (?d + n)"
    unfolding written_def using d forward_0[OF ok]
      UN_upper[of 0 "{..<?d + n}" "\<lambda>j. span (slot_addr q (w_offset (forward q u j))) 16"]
    by (intro le_supI2) simp
  then have "offered q r u (?d + n) (packed_set_used q u did len h) cs"
    using n(3) offered_agree[OF _ packed_set_used_agree] by (simp add: add.commute)
  then have "offered q r (forward q u ?d) n (packed_set_used q u did len h) cs"
    using offered_shift[OF ok, of r ?d n] n(2) by simp
  moreover have "windex_ok (pq_size q) (forward q u ?d)" using forward_pos(1)[OF ok, of ?d] n(2) by simp
  moreover have "n + total_delta cs < unat (pq_size q)" using n(2) by simp
  ultimately show ?thesis using ok(1) unfolding packed_settled_def u' a' fst_conv by blast
qed

interpretation packed: virt_queue "packed_ops q r :: (windex, hmem \<times> 'w) vq_ops" "packed_settled q r"
  for q r
proof unfold_locales
  fix u a on and s :: "hmem \<times> 'w" and c cs len
  show "\<not> desc_avail (packed_ops q r) a s \<and> get_avail (packed_ops q r) a s = Some (Ok None)"
    if "packed_settled q r u a s []"
  proof -
    have "\<not> packed_desc_avail q a (fst s)"
      using that agree_refl unfolding packed_settled_def offered.simps by blast
    then show ?thesis by (simp add: packed_ops_def packed_get_avail_def)
  qed
  show "desc_avail (packed_ops q r) a s \<and> get_avail (packed_ops q r) a s = Some (Ok (Some c))"
    if "packed_settled q r u a s (c # cs)"
  proof -
    have get: "packed_get_avail q r a (fst s) = Some (Ok (Some c))"
      using that agree_refl unfolding packed_settled_def offered.simps by blast
    then have "packed_desc_avail q a (fst s)"
      by (cases "packed_desc_avail q a (fst s)") (simp_all add: packed_get_avail_def)
    with get show ?thesis by (simp add: packed_ops_def)
  qed
  show "packed_settled q r (index_add (packed_ops q r) u (chain_delta c)) (index_add (packed_ops q r) a (chain_delta c))
      (set_used (packed_ops q r) u (chain_id c) len s) cs" if "packed_settled q r u a s (c # cs)"
    using packed_use[of q r u a "fst s" "snd s" c cs "chain_id c" len] that by (simp add: packed_ops_def)
  show "packed_settled q r u (index_add (packed_ops q r) a (chain_delta c)) s cs"
    if "packed_settled q r u a s (c # cs)"
    using packed_park[OF that] by (simp add: packed_ops_def)
  show "\<exists>s'. enable_notification (packed_ops q r) on s = Some s' \<and> packed_settled q r u a s' cs"
    if "packed_settled q r u a s cs"
  proof -
    have "agree (written q u n) (fst s) (packed_enable_notification q on (fst s))" for n
      unfolding packed_enable_notification_def by (rule agree_wr16) (auto simp: written_def)
    then have "packed_settled q r u a (packed_enable_notification q on (fst s), snd s) cs"
      using that offered_agree unfolding packed_settled_def fst_conv by blast
    then show ?thesis by (simp add: packed_ops_def)
  qed
qed

lemma packed_advance:
  assumes sz: "size_ok (pq_size q)"
  shows "windex_ok (pq_size q) i \<Longrightarrow> total_delta cs \<le> unat (pq_size q) \<Longrightarrow>
    advance (packed_ops q r :: (windex, hmem \<times> 'w) vq_ops) i cs = forward q i (total_delta cs)"
proof (induction cs arbitrary: i)
  case Nil
  then show ?case using forward_0[OF sz] by (simp add: advance_def)
next
  case (Cons c cs)
  let ?d = "unat (chain_delta c)" and ?ops = "packed_ops q r :: (windex, hmem \<times> 'w) vq_ops"
  have i': "windex_ok (pq_size q) (forward q i ?d)" using forward_pos(1)[OF sz, of i ?d] Cons.prems by simp
  have "advance ?ops i (c # cs) = advance ?ops (forward q i ?d) cs"
    by (simp add: advance_def packed_ops_def packed_index_add_def)
  also have "\<dots> = forward q (forward q i ?d) (total_delta cs)" using Cons.IH[OF i'] Cons.prems(2) by simp
  also have "\<dots> = forward q i (total_delta (c # cs))"
    using forward_forward[OF sz Cons.prems(1), of ?d "total_delta cs"] Cons.prems(2)
    by (simp only: total_delta.simps)
  finally show ?case .
qed

section \<open>Walking a chain\<close>

text \<open>The descriptors of a chain of at most \<open>n\<close> slots, and the buffers they stand for.\<close>

fun pfollow :: "nat \<Rightarrow> packed_queue \<Rightarrow> hmem \<Rightarrow> u16 \<Rightarrow> packed_desc list option" where
  "pfollow 0 q h off = None"
| "pfollow (Suc n) q h off =
     (let d = pdesc_at h (slot_addr q off)
      in if flag_contains (pd_flag d) DESC_NEXT
         then (if pq_size q = 0 then None else map_option ((#) d) (pfollow n q h ((off + 1) mod pq_size q)))
         else Some [d])"

fun pexpand :: "ram \<Rightarrow> hmem \<Rightarrow> packed_desc list \<Rightarrow> piovs \<Rightarrow> (piovs, virtio_error) outcome" where
  "pexpand r h [] acc = Ok acc"
| "pexpand r h (d # ds) acc = obind (push_slot r h d acc) (pexpand r h ds)"

lemma packed_loop_follows:
  assumes "pfollow n q h off = Some ds"
  shows "packed_loop q r h off delta acc =
    Some (obind (pexpand r h ds acc) (\<lambda>acc'. Ok (pd_id (last ds), delta + of_nat (length ds), acc')))"
  using assms
proof (induction n arbitrary: off ds delta acc)
  case (Suc n)
  let ?d = "pdesc_at h (slot_addr q off)"
  obtain ds' where ds: "ds = ?d # ds'"
    "if flag_contains (pd_flag ?d) DESC_NEXT
     then pq_size q \<noteq> 0 \<and> pfollow n q h ((off + 1) mod pq_size q) = Some ds' else ds' = []"
    using Suc.prems by (auto simp: Let_def split: if_splits)
  have ne: "ds' \<noteq> []" if "flag_contains (pd_flag ?d) DESC_NEXT"
    using ds(2) that by (cases n) (auto simp: Let_def split: if_splits)
  show ?case
  proof (cases "push_slot r h ?d acc")
    case (Ok acc1)
    then show ?thesis
      using ds ne Suc.IH[of "(off + 1) mod pq_size q" ds' "delta + 1" acc1]
      by (subst packed_loop.simps) (auto simp: Let_def add.assoc split: if_splits)
  qed (subst packed_loop.simps, simp add: ds Let_def)+
qed simp

section \<open>A sample\<close>

definition packed_ring :: packed_queue where
  "packed_ring = \<lparr>pq_size = 4, pq_desc = 0x7000, enable_event_idx = False, pq_notification = 0x7100,
     pq_interrupt = 0x7200\<rparr>"

definition packed_mem :: hmem where
  "packed_mem x = (if x = 0x7001 then 0x18 else if x = 0x7008 then 16 else if x = 0x700c then 5
     else if x = 0x700e then 0x82 else 0)"

definition packed_page :: ram where
  "packed_page = \<lparr>ram_inner = \<lparr>slots = [\<lparr>s_addr = 0x1000,
     s_backend = \<lparr>p_addr = 0x7000, p_size = 0x1000, p_fd = None\<rparr>\<rparr>]\<rparr>\<rparr>"

definition packed_chain :: desc_chain where
  "packed_chain = \<lparr>chain_id = 5, chain_delta = 1, readable = [], writable = [(0x7800, 16)]\<rparr>"

lemmas packed_eval = packed_desc_avail_def flag_is_avail_def pdesc_at_def slot_addr_def w_offset_def
  wrap_counter_def rd16_def rd32_def rd64_def h_read_def upt_eval flag_contains_def DESC_NEXT_def
  DESC_WRITE_def DESC_INDIRECT_def DESC_AVAIL_def DESC_USED_def

lemma packed_ring_get:
  assumes "agree (span 0x7102 2) packed_mem h"
  shows "packed_get_avail packed_ring packed_page 0x8000 h = Some (Ok (Some packed_chain))"
proof -
  have h: "h x = packed_mem x" if "unat (x - 0x7102) \<ge> 2" for x
    using assms that by (auto simp: agree_def span_def)
  have d: "pdesc_at h 0x7000 = \<lparr>pd_addr = 0x1800, pd_len = 16, pd_id = 5, pd_flag = 0x82\<rparr>"
    by (simp add: packed_eval h packed_mem_def)
  have "packed_loop packed_ring packed_page h 0 0 ([], []) = Some (Ok (5, 1, [], [(0x1800, 16)]))"
    using packed_loop_follows[of 1 packed_ring h 0 _ packed_page 0 "([], [])"]
    by (simp add: d slot_addr_def packed_ring_def Let_def flag_contains_def DESC_NEXT_def push_slot_def
        DESC_INDIRECT_def push_pdesc_def DESC_WRITE_def)
  moreover have "translate_iov packed_page [] = Ok []"
    "translate_iov_mut packed_page [(0x1800, 16)] = Ok [(0x7800, 16)]"
    by (simp_all add: translate_iov_def translate_iov_mut_def op_result_def sbind_def slice_iter_mut_def
        for_slices.simps iter_next_def ram_get_partial_slice_def pages_get_partial_slice_def
        get_valid_range_def packed_page_def table_eval push_slice_def Let_def)
  moreover have "packed_desc_avail packed_ring 0x8000 h"
    by (simp add: packed_desc_avail_def slot_addr_def w_offset_def packed_ring_def d flag_is_avail_def
        flag_contains_def DESC_AVAIL_def DESC_USED_def wrap_counter_def)
  ultimately show ?thesis
    by (simp add: packed_get_avail_def w_offset_def mem_err_def packed_chain_def)
qed

lemma packed_ring_settled: "packed_settled packed_ring packed_page 0x8000 0x8000 (packed_mem, ()) [packed_chain]"
proof -
  have fwd: "forward packed_ring 0x8000 0 = 0x8000" "forward packed_ring 0x8000 1 = 0x8001"
    by (simp_all add: wrapping_add_def w_offset_def packed_ring_def set_wrap_counter_def wrap_counter_def Let_def
        word_le_nat_alt set_bit_eq_or)
  have "\<not> packed_desc_avail packed_ring 0x8001 h" if "agree (written packed_ring 0x8000 1) packed_mem h" for h
  proof -
    have "h x = packed_mem x" if "unat (x - 0x7102) \<ge> 2" "unat (x - 0x7000) \<ge> 16" for x
      using \<open>agree (written packed_ring 0x8000 1) packed_mem h\<close> that fwd(1)
      by (auto simp: agree_def written_def span_def slot_addr_def w_offset_def packed_ring_def)
    then show ?thesis by (simp add: packed_eval packed_ring_def packed_mem_def)
  qed
  then have "offered packed_ring packed_page 0x8000 0 packed_mem [packed_chain]"
    using packed_ring_get fwd
    by (simp add: packed_chain_def written_def packed_ring_def[symmetric]) (simp add: packed_ring_def)
  then show ?thesis
    using fwd(1) by (auto simp: packed_settled_def size_ok_def windex_ok_def packed_ring_def w_offset_def packed_chain_def
        intro!: exI[of _ 0])
qed

section \<open>Properties\<close>

text \<open>
  Moving a wrapped index forward and back by the same number of slots, at most a lap,
  gives the index again, in either order, and an index inside the ring stays inside it.
\<close>

lemma wrapped_index_roundtrip:
  assumes "size_ok sz" and "windex_ok sz i" and "d \<le> sz"
  shows "wrapping_sub (wrapping_add i d sz) d sz = i \<and> wrapping_add (wrapping_sub i d sz) d sz = i \<and>
    windex_ok sz (wrapping_add i d sz) \<and> windex_ok sz (wrapping_sub i d sz)"
  using wrapping_sub_add[OF assms] pos_add(1)[OF assms] pos_sub(1)[OF assms] by blast


text \<open>
  C28. With an event threshold the ring asks for an interrupt exactly when the threshold is one
  of the \<open>delta\<close> positions that were just used, also when they straddle the end of the ring.
\<close>

theorem packed_interrupt_window:
  assumes "size_ok (pq_size q)" and "windex_ok (pq_size q) i" and "delta \<le> pq_size q"
    and "enable_event_idx q" and "rd16 h (pq_interrupt q + 2) = EVENT_DESC"
    and "windex_ok (pq_size q) (rd16 h (pq_interrupt q))"
  shows "packed_interrupt_enabled q i delta h \<longleftrightarrow>
    (\<exists>k < unat delta. rd16 h (pq_interrupt q) =
       wrapping_add (wrapping_sub i delta (pq_size q)) (of_nat k) (pq_size q))"
proof -
  let ?p = "wrapping_sub i delta (pq_size q)"
  have p: "windex_ok (pq_size q) ?p" by (rule pos_sub(1)[OF assms(1-3)])
  have "packed_interrupt_enabled q i delta h \<longleftrightarrow>
      (let off = (if wrap_counter (rd16 h (pq_interrupt q)) \<noteq> wrap_counter ?p
                  then w_offset (rd16 h (pq_interrupt q)) + pq_size q else w_offset (rd16 h (pq_interrupt q)))
       in w_offset ?p \<le> off \<and> off < w_offset ?p + delta)"
    using assms(4,5) by (simp add: packed_interrupt_enabled_def Let_def)
  then show ?thesis
    unfolding reached_iff_distance[OF assms(1) p assms(6,3)] window_iff_distance[OF assms(1) p assms(6,3)] .
qed

theorem packed_interrupt_window_witness:
  "packed_interrupt_enabled (packed_ring\<lparr>enable_event_idx := True\<rparr>) 0x8002 2
     (\<lambda>x. if x = 0x7200 then 1 else if x = 0x7201 then 0x80 else if x = 0x7202 then 2 else 0) \<longleftrightarrow>
   (\<exists>k < 2. (0x8001 :: u16) = wrapping_add (wrapping_sub 0x8002 2 4) (of_nat k) 4)"
  using packed_interrupt_window[of "packed_ring\<lparr>enable_event_idx := True\<rparr>" "0x8002" 2
      "\<lambda>x. if x = 0x7200 then 1 else if x = 0x7201 then 0x80 else if x = 0x7202 then 2 else 0"]
  by (simp add: packed_ring_def size_ok_def windex_ok_def w_offset_def rd16_def h_read_def upt_eval EVENT_DESC_def)


definition packed_finish :: "desc_chain \<Rightarrow> hmem \<times> unit \<Rightarrow> (status \<times> desc_chain, virtio_error) outcome \<times> hmem \<times> unit" where
  "packed_finish c s = (Ok (Done 0, c), s)"


text \<open>
  Using a descriptor returns it to the driver: it holds the id and length of the completed
  chain, and the device no longer sees it as available, neither at this index nor at the same
  slot one lap later.
\<close>

lemma packed_set_used_returns:
  shows "\<not> packed_desc_avail q i (packed_set_used q i did len h) \<and>
    \<not> packed_desc_avail q (set_wrap_counter (\<not> wrap_counter i) (w_offset i)) (packed_set_used q i did len h) \<and>
    pd_id (pdesc_at (packed_set_used q i did len h) (slot_addr q (w_offset i))) = did \<and>
    pd_len (pdesc_at (packed_set_used q i did len h) (slot_addr q (w_offset i))) = len"
proof -
  let ?a = "slot_addr q (w_offset i)" and ?h' = "packed_set_used q i did len h"
  let ?h1 = "wr16 (slot_addr q (w_offset i) + 12) did h"
  let ?h2 = "wr32 (slot_addr q (w_offset i) + 8) len ?h1"
  let ?f = "set_flag_used (rd16 ?h2 (slot_addr q (w_offset i) + 14)) (wrap_counter i)"
  have eq: "?h' = wr16 (?a + 14) ?f ?h2" by (simp add: packed_set_used_def Let_def)
  have flag: "pd_flag (pdesc_at ?h' ?a) = ?f" unfolding eq by (simp add: pdesc_at_def rd16_wr16)
  have both: "flag_contains ?f DESC_AVAIL = wrap_counter i" "flag_contains ?f DESC_USED = wrap_counter i"
    using flag_contains_bit[of 7 ?f] flag_contains_bit[of 15 ?f]
    by (simp_all add: set_flag_used_def flag_insert_def flag_remove_def DESC_AVAIL_def DESC_USED_def
        bit_or_iff bit_and_iff bit_not_iff split: if_splits)
  have off: "w_offset (set_wrap_counter b (w_offset i)) = w_offset i" for b
    by (rule offset_set) (simp add: word_less_nat_alt unat_w_offset)
  have "span (?a + 12) 2 \<inter> span (?a + 12 + 2) 2 = {}" "span (?a + 8) 4 \<inter> span (?a + 8 + 6) 2 = {}"
    "span (?a + 8) 4 \<inter> span (?a + 8 + 4) 2 = {}"
    by (rule span_disjoint; simp)+
  then have sep: "span (?a + 12) 2 \<inter> span (?a + 14) 2 = {}" "span (?a + 8) 4 \<inter> span (?a + 14) 2 = {}"
    "span (?a + 12) 2 \<inter> span (?a + 8) 4 = {}" by (auto simp: add.assoc)
  have "agree (span (?a + 14) 2) ?h2 ?h'" "agree (span (?a + 8) 4) ?h1 ?h2"
    unfolding eq by (rule agree_wr16 agree_wr32; simp)+
  then have "rd16 ?h' (?a + 12) = did" "rd32 ?h' (?a + 8) = len"
    using rd16_agree[of _ ?h2 ?h' "?a + 12"] rd16_agree[of _ ?h1 ?h2 "?a + 12"] rd32_agree[of _ ?h2 ?h' "?a + 8"] sep
    by (simp_all add: rd16_wr16 rd32_wr32)
  then show ?thesis
    using flag both by (simp add: packed_desc_avail_def flag_is_avail_def off pdesc_at_def)
qed



end
