(* ===== verification/Virtio_Dev.thy ===== *)
theory Virtio_Dev
  imports Split_Queue Packed_Queue
begin

text \<open>
  \<^verbatim>\<open>alioth/src/virtio/dev/dev.rs\<close> with the features of \<^verbatim>\<open>virtio.rs\<close>: the device and its worker thread. The transport sends
  wake events through a channel; the worker waits for a start, builds the queues of the negotiated format, runs the
  backend's event loop and starts over when the guest resets the device.

  The device is a value \<open>'d\<close> that the worker owns; the backend's methods are the fields of \<open>backend\<close> and act on the
  device and the world \<open>'w\<close>. The channel is the list of events that have been sent; \<open>closed\<close> says that all senders are
  gone, so that an empty channel ends the wait instead of blocking.
\<close>

unbundle bit_operations_syntax

type_synonym u128 = "128 word"

section \<open>Features and registers\<close>

definition F_INDIRECT_DESC :: u128 where "F_INDIRECT_DESC = shl 1 28"

definition F_EVENT_IDX :: u128 where "F_EVENT_IDX = shl 1 29"

definition F_VERSION_1 :: u128 where "F_VERSION_1 = shl 1 32"

definition F_ACCESS_PLATFORM :: u128 where "F_ACCESS_PLATFORM = shl 1 33"

definition F_RING_PACKED :: u128 where "F_RING_PACKED = shl 1 34"

definition FEATURE_BUILT_IN :: u128 where "FEATURE_BUILT_IN = F_EVENT_IDX OR F_RING_PACKED OR F_VERSION_1"

definition QUEUE_SIZE_MAX :: u16 where "QUEUE_SIZE_MAX = 256"

datatype device_id = IdNET | IdBLOCK | IdENTROPY | IdBALLOON | IdSOCKET | IdIOMMU | IdMEM | IdFILE_SYSTEM | IdPMEM

definition device_id_raw :: "device_id \<Rightarrow> u16" where
  "device_id_raw d = (case d of IdNET \<Rightarrow> 1 | IdBLOCK \<Rightarrow> 2 | IdENTROPY \<Rightarrow> 4 | IdBALLOON \<Rightarrow> 5 | IdSOCKET \<Rightarrow> 19 | IdIOMMU \<Rightarrow> 23
     | IdMEM \<Rightarrow> 24 | IdFILE_SYSTEM \<Rightarrow> 26 | IdPMEM \<Rightarrow> 27)"

definition queue_reg_default :: queue_reg where
  "queue_reg_default = \<lparr>reg_size = QUEUE_SIZE_MAX, reg_desc = 0, reg_driver = 0, reg_device = 0, reg_enabled = False\<rparr>"

text \<open>What \<^verbatim>\<open>VirtioDevice::new\<close> sets up before it starts the worker.\<close>

definition device_features :: "bool \<Rightarrow> u128 \<Rightarrow> u128" where
  "device_features restricted_memory feature =
     (if restricted_memory then feature OR F_ACCESS_PLATFORM else feature AND NOT F_ACCESS_PLATFORM)"

definition device_queue_regs :: "u16 \<Rightarrow> queue_reg list" where
  "device_queue_regs num_queues = replicate (unat num_queues) queue_reg_default"

section \<open>Wake events\<close>

text \<open>
  A start carries the negotiated features; the interrupt sender and the event descriptors that it also carries belong
  to the transport and do not change. A vhost-user channel is a handle.
\<close>

datatype wake_event = Notify u16 | ShutdownEvent | VuChannel nat | StartEvent u128 | ResetEvent

datatype worker_state = WorkerPending | WorkerRunning | WorkerShutdown

record 'd worker_context =
  ctx_dev :: 'd
  ctx_rx :: "wake_event list"
  ctx_state :: worker_state

record ('d, 'w) backend =
  be_handle_queue :: "u16 \<Rightarrow> ('d \<times> 'w, unit, virtio_error) op"
  be_reset :: "('d \<times> 'w, unit, virtio_error) op"
  be_event_loop_split :: "ram \<Rightarrow> split_queue queue option list \<Rightarrow> u128 \<Rightarrow> ('d worker_context \<times> 'w, unit, virtio_error) op"
  be_event_loop_packed :: "ram \<Rightarrow> packed_queue queue option list \<Rightarrow> u128 \<Rightarrow> ('d worker_context \<times> 'w, unit, virtio_error) op"
  be_set_vu_channel :: "nat \<Rightarrow> 'd \<Rightarrow> 'd"

text \<open>A method of the backend on the device inside the context.\<close>

definition on_dev :: "('d \<times> 'w, 'a, 'e) op \<Rightarrow> ('d worker_context \<times> 'w, 'a, 'e) op" where
  "on_dev f s = (case f (ctx_dev (fst s), snd s) of (r, (d, w)) \<Rightarrow> (r, ((fst s)\<lparr>ctx_dev := d\<rparr>, w)))"

text \<open>\<^verbatim>\<open>handle_wake_events\<close>: until the channel is empty; an error leaves the remaining events in it.\<close>

fun wake_loop :: "('d, 'w) backend \<Rightarrow> wake_event list \<Rightarrow> ('d worker_context \<times> 'w, unit, virtio_error) op" where
  "wake_loop be [] s = (Ok (), ((fst s)\<lparr>ctx_rx := []\<rparr>, snd s))"
| "wake_loop be (e # es) s =
     (let s1 = ((fst s)\<lparr>ctx_rx := es\<rparr>, snd s)
      in case e of
           Notify q \<Rightarrow> (case on_dev (be_handle_queue be q) s1 of
               (Ok _, s2) \<Rightarrow> wake_loop be es s2 | (Err x, s2) \<Rightarrow> (Err x, s2) | (Panic, s2) \<Rightarrow> (Panic, s2))
         | ShutdownEvent \<Rightarrow> (Ok (), ((fst s1)\<lparr>ctx_state := WorkerShutdown\<rparr>, snd s1))
         | StartEvent _ \<Rightarrow> wake_loop be es s1
         | VuChannel c \<Rightarrow> wake_loop be es ((fst s1)\<lparr>ctx_dev := be_set_vu_channel be c (ctx_dev (fst s1))\<rparr>, snd s1)
         | ResetEvent \<Rightarrow> (Ok (), ((fst s1)\<lparr>ctx_state := WorkerPending\<rparr>, snd s1)))"

definition handle_wake_events :: "('d, 'w) backend \<Rightarrow> ('d worker_context \<times> 'w, unit, virtio_error) op" where
  "handle_wake_events be s = wake_loop be (ctx_rx (fst s)) s"

text \<open>\<^verbatim>\<open>wait_start\<close>: a start, the end of the channel, or an empty channel that may still get events.\<close>

datatype wait_result = Started u128 | Ended | Blocked

fun wait_loop :: "('d, 'w) backend \<Rightarrow> bool \<Rightarrow> wake_event list \<Rightarrow> 'd worker_context \<Rightarrow> wait_result \<times> 'd worker_context" where
  "wait_loop be closed [] c =
     (if closed then (Ended, c\<lparr>ctx_rx := [], ctx_state := WorkerShutdown\<rparr>) else (Blocked, c\<lparr>ctx_rx := []\<rparr>))"
| "wait_loop be closed (e # es) c =
     (let c1 = c\<lparr>ctx_rx := es\<rparr>
      in case e of
           ResetEvent \<Rightarrow> wait_loop be closed es c1
         | StartEvent feature \<Rightarrow> (Started feature, c1\<lparr>ctx_state := WorkerRunning\<rparr>)
         | VuChannel ch \<Rightarrow> wait_loop be closed es (c1\<lparr>ctx_dev := be_set_vu_channel be ch (ctx_dev c1)\<rparr>)
         | ShutdownEvent \<Rightarrow> (Ended, c1\<lparr>ctx_state := WorkerShutdown\<rparr>)
         | Notify _ \<Rightarrow> wait_loop be closed es c1)"

definition wait_start :: "('d, 'w) backend \<Rightarrow> bool \<Rightarrow> 'd worker_context \<Rightarrow> wait_result \<times> 'd worker_context" where
  "wait_start be closed c = wait_loop be closed (ctx_rx c) c"

section \<open>The worker\<close>

text \<open>Building the queues stops at the first error; a disabled queue gives none.\<close>

fun new_queues :: "(queue_reg \<Rightarrow> ('q option, virtio_error) outcome) \<Rightarrow> queue_reg list
    \<Rightarrow> ('q queue option list, virtio_error) outcome" where
  "new_queues f [] = Ok []"
| "new_queues f (r # rs) = obind (f r) (\<lambda>q. obind (new_queues f rs) (\<lambda>qs. Ok (map_option queue_new q # qs)))"

text \<open>
  One round: the queues are built from the register values at the start, under the lock of the memory layout. \<open>None\<close> is
  a worker that still waits.
\<close>

definition loop_until_reset :: "('d, 'w) backend \<Rightarrow> bool \<Rightarrow> ram \<Rightarrow> queue_reg list \<Rightarrow> 'd worker_context \<times> 'w
    \<Rightarrow> ((unit, virtio_error) outcome \<times> 'd worker_context \<times> 'w) option" where
  "loop_until_reset be closed r queue_regs s = (case wait_start be closed (fst s) of
       (Blocked, c) \<Rightarrow> None
     | (Ended, c) \<Rightarrow> Some (Ok (), c, snd s)
     | (Started param, c) \<Rightarrow>
         (let feature = param AND NOT F_ACCESS_PLATFORM; event_idx = flag_contains feature F_EVENT_IDX
          in Some (sbind
               (if flag_contains feature F_RING_PACKED
                then case new_queues (\<lambda>reg. packed_new reg r event_idx) queue_regs of
                       Ok qs \<Rightarrow> be_event_loop_packed be r qs param | Err e \<Rightarrow> (\<lambda>s. (Err e, s)) | Panic \<Rightarrow> (\<lambda>s. (Panic, s))
                else case new_queues (\<lambda>reg. split_new reg r event_idx) queue_regs of
                       Ok qs \<Rightarrow> be_event_loop_split be r qs param | Err e \<Rightarrow> (\<lambda>s. (Err e, s)) | Panic \<Rightarrow> (\<lambda>s. (Panic, s)))
               (\<lambda>_. on_dev (be_reset be)) (c, snd s))))"

text \<open>
  \<^verbatim>\<open>do_work\<close>: rounds until the shutdown; an error ends the worker. The memory and the registers may differ from round to
  round: \<open>env n\<close> is what round \<open>n\<close> finds.
\<close>

partial_function (option) do_work :: "('d, 'w) backend \<Rightarrow> bool \<Rightarrow> (nat \<Rightarrow> ram \<times> queue_reg list) \<Rightarrow> nat \<Rightarrow> 'd worker_context \<times> 'w
    \<Rightarrow> ((unit, virtio_error) outcome \<times> 'd worker_context \<times> 'w) option" where
  "do_work be closed env n s =
     (if ctx_state (fst s) = WorkerShutdown then Some (Ok (), s)
      else case loop_until_reset be closed (fst (env n)) (snd (env n)) s of
             None \<Rightarrow> None
           | Some (r, s') \<Rightarrow> (case r of Ok _ \<Rightarrow> do_work be closed env (Suc n) s' | Err e \<Rightarrow> Some (Err e, s') | Panic \<Rightarrow> Some (Panic, s')))"

text \<open>\<^verbatim>\<open>VirtioDevice::shutdown\<close>: only a device whose worker has not been joined yet sends the event and wakes the worker.\<close>

definition device_shutdown :: "(wake_event \<Rightarrow> ('w, unit, string) op) \<Rightarrow> ('w, unit, string) op \<Rightarrow> (bool \<times> 'w, unit, string) op" where
  "device_shutdown send notify s =
     (if \<not> fst s then (Ok (), s)
      else case sbind (send ShutdownEvent) (\<lambda>_. notify) (snd s) of (r, w) \<Rightarrow> (r, (False, w)))"

section \<open>What the worker does with its channel\<close>

text \<open>
  The worker between two moments at which its channel is empty: while it waits it takes events until a start, while it
  runs the event loop hands it the events that have arrived.
\<close>

lemma wait_loop_rx: "wait_loop be closed es c = (Started f, c') \<Longrightarrow> length (ctx_rx c') < length es"
  by (induction es arbitrary: c) (auto simp: Let_def split: wake_event.splits if_splits intro: less_SucI)

lemma wake_loop_rx: "wake_loop be es s = (r, s') \<Longrightarrow> length (ctx_rx (fst s')) \<le> length es - 1"
proof (induction es arbitrary: s)
  case (Cons e es)
  have le: "length es - 1 \<le> length es" by simp
  show ?case
  proof (cases e)
    case (Notify q)
    obtain x s2 where "on_dev (be_handle_queue be q) ((fst s)\<lparr>ctx_rx := es\<rparr>, snd s) = (x, s2)" "ctx_rx (fst s2) = es"
      by (cases "be_handle_queue be q (ctx_dev (fst s), snd s)") (auto simp: on_dev_def)
    then show ?thesis using Cons.IH[of s2] Cons.prems Notify le by (cases x) (auto simp: Let_def dest: le_trans)
  qed (use Cons.IH Cons.prems in \<open>fastforce simp: Let_def dest: le_trans\<close>)+
qed auto

lemma wake_loop_less: "wake_loop be es s = (r, s') \<Longrightarrow> es \<noteq> [] \<Longrightarrow> length (ctx_rx (fst s')) < length es"
  by (drule wake_loop_rx) (cases es; simp)

function consume :: "('d, 'w) backend \<Rightarrow> 'd worker_context \<times> 'w \<Rightarrow> 'd worker_context \<times> 'w" where
  "consume be s =
     (if ctx_rx (fst s) = [] then s
      else case ctx_state (fst s) of
             WorkerShutdown \<Rightarrow> s
           | WorkerPending \<Rightarrow> (case wait_start be False (fst s) of
               (Started f, c) \<Rightarrow> consume be (c, snd s) | (_, c) \<Rightarrow> (c, snd s))
           | WorkerRunning \<Rightarrow> (case handle_wake_events be s of (Ok _, s') \<Rightarrow> consume be s' | (_, s') \<Rightarrow> s'))"
  by pat_completeness auto
termination
  by (relation "measure (\<lambda>(be, s). length (ctx_rx (fst s)))")
    (auto simp: wait_start_def handle_wake_events_def dest: wait_loop_rx[OF sym] wake_loop_less[OF sym])

declare consume.simps [simp del]

text \<open>Whether the last start or reset in a channel is a start.\<close>

fun life :: "bool \<Rightarrow> wake_event list \<Rightarrow> bool" where
  "life b [] = b"
| "life b (e # es) = life (case e of StartEvent _ \<Rightarrow> True | ResetEvent \<Rightarrow> False | _ \<Rightarrow> b) es"

lemma life_append: "life b (es @ fs) = life (life b es) fs"
  by (induction es arbitrary: b) auto

definition no_shutdown :: "wake_event list \<Rightarrow> bool" where
  "no_shutdown es \<longleftrightarrow> ShutdownEvent \<notin> set es"

lemma wait_loop_life:
  "no_shutdown es \<Longrightarrow> \<exists>c'. (\<exists>f. wait_loop be False es c = (Started f, c')) \<and> ctx_state c' = WorkerRunning \<and>
       no_shutdown (ctx_rx c') \<and> life True (ctx_rx c') = life False es \<or>
     wait_loop be False es c = (Blocked, c') \<and> ctx_state c' = ctx_state c \<and> ctx_rx c' = [] \<and> \<not> life False es"
proof (induction es arbitrary: c)
  case (Cons e es)
  have ns: "no_shutdown es" "e \<noteq> ShutdownEvent" using Cons.prems by (auto simp: no_shutdown_def)
  note IH = Cons.IH[OF ns(1)]
  show ?case
  proof (cases e)
    case (VuChannel ch)
    then show ?thesis using IH[of "c\<lparr>ctx_rx := es, ctx_dev := be_set_vu_channel be ch (ctx_dev c)\<rparr>"] by (simp add: Let_def)
  qed (use IH[of "c\<lparr>ctx_rx := es\<rparr>"] ns in \<open>simp_all add: Let_def\<close>)
qed simp

lemma wake_loop_life:
  assumes "no_shutdown es" "ctx_state (fst s) = WorkerRunning" "\<forall>q t. fst (be_handle_queue be q t) = Ok ()"
  shows "\<exists>s'. wake_loop be es s = (Ok (), s') \<and> no_shutdown (ctx_rx (fst s')) \<and>
    (ctx_state (fst s') = WorkerRunning \<and> ctx_rx (fst s') = [] \<and> life True es \<or>
     ctx_state (fst s') = WorkerPending \<and> life False (ctx_rx (fst s')) = life True es)"
  using assms(1,2)
proof (induction es arbitrary: s)
  case Nil
  then show ?case by (auto simp: no_shutdown_def)
next
  case (Cons e es)
  have ns: "no_shutdown es" "e \<noteq> ShutdownEvent" using Cons.prems(1) by (auto simp: no_shutdown_def)
  have ok: "\<exists>s2. on_dev (be_handle_queue be q) s1 = (Ok (), s2) \<and> ctx_state (fst s2) = ctx_state (fst s1)" for q s1
  proof -
    obtain d w where "be_handle_queue be q (ctx_dev (fst s1), snd s1) = (Ok (), (d, w))" using assms(3) by (metis surj_pair fst_conv)
    then show ?thesis by (simp add: on_dev_def)
  qed
  show ?case
  proof (cases e)
    case (Notify q)
    obtain s2 where "on_dev (be_handle_queue be q) ((fst s)\<lparr>ctx_rx := es\<rparr>, snd s) = (Ok (), s2)" "ctx_state (fst s2) = WorkerRunning"
      using ok[of q "((fst s)\<lparr>ctx_rx := es\<rparr>, snd s)"] Cons.prems(2) by auto
    then show ?thesis using Cons.IH[OF ns(1), of s2] Notify by (simp add: Let_def)
  qed (use Cons.IH[OF ns(1)] Cons.prems(2) ns in \<open>auto simp: Let_def\<close>)
qed

text \<open>
  A worker that has emptied its channel runs exactly if the last start or reset in it was a start, provided that
  handling a queue does not fail.
\<close>

lemma consume_life:
  assumes "no_shutdown (ctx_rx (fst s))" "ctx_state (fst s) = (if b then WorkerRunning else WorkerPending)"
    and "\<forall>q t. fst (be_handle_queue be q t) = Ok ()"
  shows "ctx_rx (fst (consume be s)) = [] \<and>
    ctx_state (fst (consume be s)) = (if life b (ctx_rx (fst s)) then WorkerRunning else WorkerPending)"
  using assms
proof (induction be s arbitrary: b rule: consume.induct)
  case (1 be s)
  show ?case
  proof (cases "ctx_rx (fst s) = []")
    case True
    then show ?thesis using 1(4) by (simp add: consume.simps[of be s])
  next
    case ne: False
    show ?thesis
    proof (cases b)
      case False
      then have st: "ctx_state (fst s) = WorkerPending" using 1(4) by simp
      obtain c' where c': "(\<exists>f. wait_start be False (fst s) = (Started f, c')) \<and> ctx_state c' = WorkerRunning \<and>
           no_shutdown (ctx_rx c') \<and> life True (ctx_rx c') = life False (ctx_rx (fst s)) \<or>
         wait_start be False (fst s) = (Blocked, c') \<and> ctx_state c' = WorkerPending \<and> ctx_rx c' = [] \<and> \<not> life False (ctx_rx (fst s))"
        using wait_loop_life[OF 1(3), of be "fst s"] st unfolding wait_start_def by auto
      then show ?thesis
        using 1(1)[OF ne st, of _ c' _ True] st ne False 1(5) by (auto simp: consume.simps[of be s])
    next
      case True
      then have st: "ctx_state (fst s) = WorkerRunning" using 1(4) by simp
      obtain s' where s': "handle_wake_events be s = (Ok (), s')" "no_shutdown (ctx_rx (fst s'))"
        "ctx_state (fst s') = WorkerRunning \<and> ctx_rx (fst s') = [] \<and> life True (ctx_rx (fst s)) \<or>
         ctx_state (fst s') = WorkerPending \<and> life False (ctx_rx (fst s')) = life True (ctx_rx (fst s))"
        using wake_loop_life[OF 1(3) st 1(5)] unfolding handle_wake_events_def by blast
      show ?thesis using 1(2)[OF ne st, of "Ok ()" s' "()"] s' st ne 1(5) True by (cases "ctx_rx (fst s') = []") (auto simp: consume.simps[of be s])
    qed
  qed
qed

end
