(* ===== verification/Pci_Header.thy ===== *)
theory Pci_Header
  imports Guest_Memory
begin

text \<open>
  \<^verbatim>\<open>alioth/src/pci/config.rs\<close> up to \<^verbatim>\<open>EmulatedHeader\<close>, and \<^verbatim>\<open>Bdf\<close> and \<^verbatim>\<open>PciBar\<close> of
  \<^verbatim>\<open>alioth/src/pci/pci.rs\<close>: the standard header of a PCI function. A guest write to the command
  register or to a base address register (BAR) gives a callback that changes the memory map;
  the callback of a BAR's region writes the address it was mapped at back to the header.

  The lock around \<^verbatim>\<open>HeaderData\<close> is taken once per method, so a method is one step on
  \<open>header_data\<close>. A \<^verbatim>\<open>BarCallback\<close> is a handle \<open>'k\<close> that \<open>mk_cb\<close> makes from its index.
\<close>

section \<open>Data\<close>

text \<open>\<^verbatim>\<open>Bdf\<close>: bus, device and function in one word.\<close>

definition bdf_new :: "u8 \<Rightarrow> u8 \<Rightarrow> u8 \<Rightarrow> u16" where
  "bdf_new b d f = set_field 2 0 (ucast f) (set_field 7 3 (ucast d) (set_field 15 8 (ucast b) 0))"

definition bdf_bus :: "u16 \<Rightarrow> u8" where "bdf_bus bdf = ucast (get_field 15 8 bdf)"
definition bdf_dev :: "u16 \<Rightarrow> u8" where "bdf_dev bdf = ucast (get_field 7 3 bdf)"
definition bdf_func :: "u16 \<Rightarrow> u8" where "bdf_func bdf = ucast (get_field 2 0 bdf)"

datatype pci_error = PciMemory mem_error | PciReset boxed_error

datatype ('d, 'k) pci_bar = BarEmpty | BarMem "('d, 'k) mem_region" | BarIo "('d, 'k) io_region"

definition CMD_INTX_DISABLE :: u16 where "CMD_INTX_DISABLE = 0x400"
definition CMD_SERR :: u16 where "CMD_SERR = 0x100"
definition CMD_PARITY_ERR :: u16 where "CMD_PARITY_ERR = 0x40"
definition CMD_BUS_MASTER :: u16 where "CMD_BUS_MASTER = 4"
definition CMD_MEM :: u16 where "CMD_MEM = 2"
definition CMD_IO :: u16 where "CMD_IO = 1"

text \<open>\<^verbatim>\<open>WRITABLE_BITS\<close> is also the set of all bits that \<^verbatim>\<open>Command\<close> defines.\<close>

definition CMD_WRITABLE_BITS :: u16 where
  "CMD_WRITABLE_BITS = CMD_INTX_DISABLE OR CMD_SERR OR CMD_PARITY_ERR OR CMD_BUS_MASTER OR CMD_MEM OR CMD_IO"

definition STATUS_CAP :: u16 where "STATUS_CAP = 0x10"
definition STATUS_INTX :: u16 where "STATUS_INTX = 8"
definition STATUS_IMMEDIATE_READINESS :: u16 where "STATUS_IMMEDIATE_READINESS = 1"
definition STATUS_RW1C_BITS :: u16 where
  "STATUS_RW1C_BITS = 0x8000 OR 0x4000 OR 0x2000 OR 0x1000 OR 0x800 OR 0x100"
definition STATUS_ALL :: u16 where
  "STATUS_ALL = STATUS_RW1C_BITS OR STATUS_CAP OR STATUS_INTX OR STATUS_IMMEDIATE_READINESS"

definition HEADER_DEVICE :: u8 where "HEADER_DEVICE = 0"

record common_header =
  h_vendor :: u16
  h_device :: u16
  h_command :: u16
  h_status :: u16
  h_revision :: u8
  h_prog_if :: u8
  h_subclass :: u8
  h_class :: u8
  h_cache_line_size :: u8
  h_latency_timer :: u8
  h_header_type :: u8
  h_bist :: u8

record device_header =
  h_common :: common_header
  h_bars :: "u32 list"
  h_cardbus_cis_pointer :: u32
  h_subsystem_vendor :: u16
  h_subsystem :: u16
  h_expansion_rom :: u32
  h_capability_pointer :: u8
  h_reserved :: "u8 list"
  h_intx_line :: u8
  h_intx_pin :: u8
  h_min_gnt :: u8
  h_max_lat :: u8

definition common_header_default :: common_header where
  "common_header_default = \<lparr>h_vendor = 0, h_device = 0, h_command = 0, h_status = 0, h_revision = 0,
     h_prog_if = 0, h_subclass = 0, h_class = 0, h_cache_line_size = 0, h_latency_timer = 0,
     h_header_type = 0, h_bist = 0\<rparr>"

definition device_header_default :: device_header where
  "device_header_default = \<lparr>h_common = common_header_default, h_bars = replicate 6 0,
     h_cardbus_cis_pointer = 0, h_subsystem_vendor = 0, h_subsystem = 0, h_expansion_rom = 0,
     h_capability_pointer = 0, h_reserved = replicate 7 0, h_intx_line = 0, h_intx_pin = 0,
     h_min_gnt = 0, h_max_lat = 0\<rparr>"

text \<open>The bytes of the structures in their \<^verbatim>\<open>repr(C)\<close> layout.\<close>

definition common_header_bytes :: "common_header \<Rightarrow> u8 list" where
  "common_header_bytes c = le_encode 2 (h_vendor c) @ le_encode 2 (h_device c) @ le_encode 2 (h_command c)
     @ le_encode 2 (h_status c) @ [h_revision c, h_prog_if c, h_subclass c, h_class c,
       h_cache_line_size c, h_latency_timer c, h_header_type c, h_bist c]"

definition device_header_bytes :: "device_header \<Rightarrow> u8 list" where
  "device_header_bytes h = common_header_bytes (h_common h) @ concat (map (le_encode 4) (h_bars h))
     @ le_encode 4 (h_cardbus_cis_pointer h) @ le_encode 2 (h_subsystem_vendor h)
     @ le_encode 2 (h_subsystem h) @ le_encode 4 (h_expansion_rom h) @ [h_capability_pointer h]
     @ h_reserved h @ [h_intx_line h, h_intx_pin h, h_min_gnt h, h_max_lat h]"

definition OFFSET_BAR0 :: nat where "OFFSET_BAR0 = 0x10"
definition OFFSET_BAR5 :: nat where "OFFSET_BAR5 = 0x24"

definition BAR_PREFETCHABLE :: u32 where "BAR_PREFETCHABLE = 8"
definition BAR_MEM64 :: u32 where "BAR_MEM64 = 4"
definition BAR_MEM32 :: u32 where "BAR_MEM32 = 0"
definition BAR_IO :: u32 where "BAR_IO = 1"
definition BAR_IO_MASK :: u32 where "BAR_IO_MASK = 3"
definition BAR_MEM_MASK :: u32 where "BAR_MEM_MASK = 15"

text \<open>\<^verbatim>\<open>HeaderData\<close>, and the two implementors of \<^verbatim>\<open>ChangeLayout\<close>.\<close>

record header_data =
  hd_header :: device_header
  hd_bar_masks :: "u32 list"
  hd_bdf :: u16

datatype ('d, 'k) pci_callback =
    UpdateCommand "('d, 'k) pci_bar list" "u32 list" u16 u16
  | MoveBar u16 u64 u64

record ('d, 'k) emulated_header =
  eh_data :: header_data
  eh_bars :: "('d, 'k) pci_bar list"

section \<open>Changing the memory map\<close>

text \<open>The loop of \<^verbatim>\<open>UpdateCommandCallback::change\<close>, with the whole array for the high half.\<close>

fun update_bars :: "('d, 'w, 'c, 'k, 'l, 'u) mem_env \<Rightarrow> u32 list \<Rightarrow> u16 \<Rightarrow> u16 \<Rightarrow> nat
    \<Rightarrow> (('d, 'k) pci_bar \<times> u32) list \<Rightarrow> (('d, 'k, 'l, 'u) memory \<times> 'w, unit, mem_error) op" where
  "update_bars env all changed current i [] = sret ()"
| "update_bars env all changed current i ((BarEmpty, bar) # bs) =
     update_bars env all changed current (Suc i) bs"
| "update_bars env all changed current i ((BarMem region, bar) # bs) =
     (if \<not> flag_contains changed CMD_MEM then update_bars env all changed current (Suc i) bs
      else if bar AND BAR_MEM64 = BAR_MEM64 \<and> length all \<le> Suc i then (\<lambda>s. (Panic, s))
      else let lo = ucast (bar AND NOT BAR_MEM_MASK);
               addr = (if bar AND BAR_MEM64 = BAR_MEM64 then lo OR shl (ucast (all ! Suc i)) 32 else lo)
           in sbind (if flag_contains current CMD_MEM then add_region env addr region
                     else sbind (remove_region env addr) (\<lambda>_. sret ()))
                (\<lambda>_. update_bars env all changed current (Suc i) bs))"
| "update_bars env all changed current i ((BarIo region, bar) # bs) =
     (if \<not> flag_contains changed CMD_IO then update_bars env all changed current (Suc i) bs
      else let port = ucast (bar AND NOT BAR_IO_MASK)
           in sbind (if flag_contains current CMD_IO then add_io_region env port region
                     else sbind (remove_io_region env port) (\<lambda>_. sret ()))
                (\<lambda>_. update_bars env all changed current (Suc i) bs))"

definition update_command_change :: "('d, 'w, 'c, 'k, 'l, 'u) mem_env \<Rightarrow> ('d, 'k) pci_bar list \<Rightarrow> u32 list
    \<Rightarrow> u16 \<Rightarrow> u16 \<Rightarrow> (('d, 'k, 'l, 'u) memory \<times> 'w, unit, mem_error) op" where
  "update_command_change env pci_bars vals changed current =
     update_bars env vals changed current 0 (zip pci_bars vals)"

definition move_bar_change :: "('d, 'w, 'c, 'k, 'l, 'u) mem_env \<Rightarrow> u64 \<Rightarrow> u64
    \<Rightarrow> (('d, 'k, 'l, 'u) memory \<times> 'w, unit, mem_error) op" where
  "move_bar_change env src dst =
     (if (ucast src :: u32) AND BAR_IO = BAR_IO
      then let src_port = src AND NOT (ucast BAR_IO_MASK); dst_port = dst AND NOT (ucast BAR_IO_MASK)
           in sbind (remove_io_region env (ucast src_port)) (\<lambda>region. add_io_region env (ucast dst_port) region)
      else let src_addr = src AND NOT (ucast BAR_MEM_MASK); dst_addr = dst AND NOT (ucast BAR_MEM_MASK)
           in sbind (remove_region env src_addr) (\<lambda>region. add_region env dst_addr region))"

fun pci_change :: "('d, 'w, 'c, 'k, 'l, 'u) mem_env \<Rightarrow> ('d, 'k) pci_callback
    \<Rightarrow> (('d, 'k, 'l, 'u) memory \<times> 'w, unit, mem_error) op" where
  "pci_change env (UpdateCommand pci_bars vals changed current) =
     update_command_change env pci_bars vals changed current"
| "pci_change env (MoveBar bdf src dst) = move_bar_change env src dst"

section \<open>Header registers\<close>

definition set_bar :: "nat \<Rightarrow> u32 \<Rightarrow> header_data \<Rightarrow> ((u32 \<times> u32) \<times> header_data, mem_error) outcome" where
  "set_bar index val hdr =
     (let h = hd_header hdr
      in if length (hd_bar_masks hdr) \<le> index \<or> length (h_bars h) \<le> index then Panic
         else let old_val = h_bars h ! index;
                  masked_val = mask_bits old_val val (hd_bar_masks hdr ! index)
              in Ok ((old_val, masked_val), hdr\<lparr>hd_header := h\<lparr>h_bars := (h_bars h)[index := masked_val]\<rparr>\<rparr>))"

definition get_bar :: "header_data \<Rightarrow> nat \<Rightarrow> (u32 \<times> u32, mem_error) outcome" where
  "get_bar hdr index =
     (if length (hd_bar_masks hdr) \<le> index \<or> length (h_bars (hd_header hdr)) \<le> index then Panic
      else Ok (h_bars (hd_header hdr) ! index, hd_bar_masks hdr ! index))"

definition set_command :: "u16 \<Rightarrow> header_data \<Rightarrow> header_data" where
  "set_command command hdr = hdr\<lparr>hd_header := (hd_header hdr)\<lparr>h_common :=
     (h_common (hd_header hdr))\<lparr>h_command := command\<rparr>\<rparr>\<rparr>"

definition set_status :: "u16 \<Rightarrow> header_data \<Rightarrow> header_data" where
  "set_status status hdr = hdr\<lparr>hd_header := (hd_header hdr)\<lparr>h_common :=
     (h_common (hd_header hdr))\<lparr>h_status := status\<rparr>\<rparr>\<rparr>"

abbreviation command_of :: "header_data \<Rightarrow> u16" where
  "command_of hdr \<equiv> h_command (h_common (hd_header hdr))"

abbreviation status_of :: "header_data \<Rightarrow> u16" where
  "status_of hdr \<equiv> h_status (h_common (hd_header hdr))"

abbreviation bars_of :: "header_data \<Rightarrow> u32 list" where
  "bars_of hdr \<equiv> h_bars (hd_header hdr)"

text \<open>The arms of \<^verbatim>\<open>write_header\<close>: command, status, and a BAR.\<close>

definition write_command :: "u16 \<Rightarrow> ('d, 'k) pci_bar list \<Rightarrow> header_data
    \<Rightarrow> ('d, 'k) pci_callback option \<times> header_data" where
  "write_command val pci_bars hdr =
     (let old = command_of hdr;
          current = (old AND flag_not CMD_WRITABLE_BITS CMD_WRITABLE_BITS) OR (val AND CMD_WRITABLE_BITS);
          changed = old XOR current
      in ((if changed AND (CMD_MEM OR CMD_IO) \<noteq> 0
           then Some (UpdateCommand pci_bars (bars_of hdr) changed current) else None),
          set_command current hdr))"

definition write_status :: "u16 \<Rightarrow> header_data \<Rightarrow> header_data" where
  "write_status val hdr = set_status (status_of hdr AND flag_not STATUS_ALL (val AND STATUS_RW1C_BITS)) hdr"

definition write_bar :: "nat \<Rightarrow> u32 \<Rightarrow> ('d, 'k) pci_bar list \<Rightarrow> header_data
    \<Rightarrow> (('d, 'k) pci_callback option \<times> header_data, mem_error) outcome" where
  "write_bar i val pci_bars hdr =
     (let vals = bars_of hdr;
          old_val = vals ! i;
          masked_val = mask_bits old_val val (hd_bar_masks hdr ! i);
          command = command_of hdr;
          bdf = hd_bdf hdr;
          plain = Ok (None, hdr\<lparr>hd_header := (hd_header hdr)\<lparr>h_bars := vals[i := masked_val]\<rparr>\<rparr>)
      in if length vals \<le> i \<or> length (hd_bar_masks hdr) \<le> i \<or> length pci_bars \<le> i then Panic
         else if old_val = masked_val then Ok (None, hdr)
         else case pci_bars ! i of
             BarIo _ \<Rightarrow>
               (if flag_contains command CMD_IO
                then Ok (Some (MoveBar bdf (ucast old_val) (ucast masked_val)), hdr)
                else plain)
           | BarMem _ \<Rightarrow>
               (if flag_contains command CMD_MEM
                then if old_val AND BAR_MEM64 = BAR_MEM64
                     then if length vals \<le> Suc i then Panic
                          else let hi_32 = shl (ucast (vals ! Suc i)) 32
                               in Ok (Some (MoveBar bdf (ucast old_val OR hi_32) (ucast masked_val OR hi_32)), hdr)
                     else Ok (Some (MoveBar bdf (ucast old_val) (ucast masked_val)), hdr)
                else plain)
           | BarEmpty \<Rightarrow>
               (if flag_contains command CMD_MEM \<and> 0 < i \<and> vals ! (i - 1) AND BAR_MEM64 = BAR_MEM64
                then let lo_32 = ucast (vals ! (i - 1))
                     in Ok (Some (MoveBar bdf (lo_32 OR shl (ucast old_val) 32)
                                              (lo_32 OR shl (ucast masked_val) 32)), hdr)
                else plain))"

definition write_header :: "u64 \<Rightarrow> u8 \<Rightarrow> u64 \<Rightarrow> ('d, 'k) pci_bar list \<Rightarrow> header_data
    \<Rightarrow> (('d, 'k) pci_callback option \<times> header_data, mem_error) outcome" where
  "write_header offset sz val pci_bars hdr =
     (let off = unat offset
      in if off = 4 \<and> sz = 2 then Ok (write_command (ucast val) pci_bars hdr)
         else if off = 6 \<and> sz = 2 then Ok (None, write_status (ucast val) hdr)
         else if OFFSET_BAR0 \<le> off \<and> off \<le> OFFSET_BAR5 \<and> sz = 4
              then write_bar ((off - OFFSET_BAR0) div 4) (ucast val) pci_bars hdr
         else Ok (None, hdr))"

text \<open>\<^verbatim>\<open>BarCallback::mapped\<close>: the region of BAR \<open>index\<close> was mapped at \<open>addr\<close>.\<close>

definition bar_mapped :: "u8 \<Rightarrow> u64 \<Rightarrow> (header_data, unit, mem_error) op" where
  "bar_mapped index addr hdr =
     (case get_bar hdr (unat index) of
        Ok (old, _) \<Rightarrow>
          (case set_bar (unat index) (ucast addr) hdr of
             Ok (_, hdr') \<Rightarrow>
               (if old AND BAR_MEM64 = BAR_MEM64
                then case set_bar (unat index + 1) (ucast (shr addr 32)) hdr' of
                       Ok (_, hdr'') \<Rightarrow> (Ok (), hdr'')
                     | Err e \<Rightarrow> (Err e, hdr')
                     | Panic \<Rightarrow> (Panic, hdr')
                else (Ok (), hdr'))
           | Err e \<Rightarrow> (Err e, hdr)
           | Panic \<Rightarrow> (Panic, hdr))
      | Err e \<Rightarrow> (Err e, hdr)
      | Panic \<Rightarrow> (Panic, hdr))"

section \<open>The emulated header\<close>

text \<open>The loop that computes the writable bits of each BAR from the size of its region.\<close>

fun bar_masks_of :: "('d, 'w, 'c, 'z) mmio_ops_scheme \<Rightarrow> ('d, 'k) pci_bar list \<Rightarrow> u32 list \<Rightarrow> u32
    \<Rightarrow> u32 list" where
  "bar_masks_of env (BarEmpty # bs) (val # vals) mask_hi = mask_hi # bar_masks_of env bs vals 0"
| "bar_masks_of env (BarIo region # bs) (val # vals) mask_hi =
     (let n = max (next_power_of_two (io_region_size env region)) 4
      in ucast (NOT (n - 1)) # bar_masks_of env bs vals mask_hi)"
| "bar_masks_of env (BarMem region # bs) (val # vals) mask_hi =
     (let n = max (next_power_of_two (region_size region)) 0x1000; mask_64 = NOT (n - 1)
      in ucast mask_64 # bar_masks_of env bs vals
           (if BAR_MEM64 AND val = BAR_MEM64 then ucast (shr mask_64 32) else mask_hi))"
| "bar_masks_of env _ _ mask_hi = []"

fun push_bar_callbacks :: "(u8 \<Rightarrow> 'k) \<Rightarrow> nat \<Rightarrow> ('d, 'k) pci_bar list \<Rightarrow> ('d, 'k) pci_bar list" where
  "push_bar_callbacks mk_cb i [] = []"
| "push_bar_callbacks mk_cb i (BarEmpty # bs) = BarEmpty # push_bar_callbacks mk_cb (Suc i) bs"
| "push_bar_callbacks mk_cb i (BarMem region # bs) =
     BarMem (region\<lparr>region_callbacks := region_callbacks region @ [mk_cb (of_nat i)]\<rparr>)
       # push_bar_callbacks mk_cb (Suc i) bs"
| "push_bar_callbacks mk_cb i (BarIo region # bs) =
     BarIo (region\<lparr>io_callbacks := io_callbacks region @ [mk_cb (of_nat i)]\<rparr>)
       # push_bar_callbacks mk_cb (Suc i) bs"

definition emulated_header_new :: "('d, 'w, 'c, 'z) mmio_ops_scheme \<Rightarrow> (u8 \<Rightarrow> 'k) \<Rightarrow> device_header
    \<Rightarrow> ('d, 'k) pci_bar list \<Rightarrow> ('d, 'k) emulated_header" where
  "emulated_header_new env mk_cb header pci_bars =
     \<lparr>eh_data = \<lparr>hd_header = header, hd_bar_masks = bar_masks_of env pci_bars (h_bars header) 0, hd_bdf = 0\<rparr>,
      eh_bars = push_bar_callbacks mk_cb 0 pci_bars\<rparr>"

definition set_bdf :: "u16 \<Rightarrow> ('d, 'k) emulated_header \<Rightarrow> ('d, 'k) emulated_header" where
  "set_bdf bdf eh = eh\<lparr>eh_data := (eh_data eh)\<lparr>hd_bdf := bdf\<rparr>\<rparr>"

definition header_set_command :: "u16 \<Rightarrow> ('d, 'k) emulated_header \<Rightarrow> ('d, 'k) emulated_header" where
  "header_set_command command eh = eh\<lparr>eh_data := set_command command (eh_data eh)\<rparr>"

definition header_size :: u64 where "header_size = 0x40"

definition header_read :: "('d, 'k) emulated_header \<Rightarrow> u64 \<Rightarrow> u8 \<Rightarrow> u64" where
  "header_read eh offset sz = zerocopy_read (device_header_bytes (hd_header (eh_data eh))) offset sz"

definition header_write :: "u64 \<Rightarrow> u8 \<Rightarrow> u64
    \<Rightarrow> (('d, 'k) emulated_header, ('d, 'k) pci_callback action, mem_error) op" where
  "header_write offset sz val eh =
     (case write_header offset sz val (eh_bars eh) (eh_data eh) of
        Ok (Some cb, hdr) \<Rightarrow> (Ok (ActChangeLayout cb), eh\<lparr>eh_data := hdr\<rparr>)
      | Ok (None, hdr) \<Rightarrow> (Ok ActNone, eh\<lparr>eh_data := hdr\<rparr>)
      | Err e \<Rightarrow> (Err e, eh)
      | Panic \<Rightarrow> (Panic, eh))"

definition header_reset :: "('d, 'k) emulated_header \<Rightarrow> ('d, 'k) emulated_header" where
  "header_reset eh = header_set_command 0 eh"

section \<open>What software cannot change\<close>

text \<open>
  The header with the command and status registers and the writable bits of the BARs blanked
  out, and the BAR masks.
\<close>

definition fixed_bits :: "u32 list \<Rightarrow> u32 list \<Rightarrow> u32 list" where
  "fixed_bits vals masks = map2 (\<lambda>b m. b AND NOT m) vals masks"

definition ro_view :: "header_data \<Rightarrow> device_header \<times> u32 list" where
  "ro_view hdr = ((hd_header hdr)\<lparr>h_common := (h_common (hd_header hdr))\<lparr>h_command := 0, h_status := 0\<rparr>,
     h_bars := fixed_bits (bars_of hdr) (hd_bar_masks hdr)\<rparr>, hd_bar_masks hdr)"

text \<open>The states of a header under guest writes, region callbacks, resource assignment and reset.\<close>

inductive header_reachable :: "('d, 'k) pci_bar list \<Rightarrow> header_data \<Rightarrow> header_data \<Rightarrow> bool"
  for pbs h0 where
  start: "header_reachable pbs h0 h0"
| guest_write: "header_reachable pbs h0 h \<Longrightarrow> write_header off sz val pbs h = Ok (cb, h')
    \<Longrightarrow> header_reachable pbs h0 h'"
| mapped: "header_reachable pbs h0 h \<Longrightarrow> bar_mapped index addr h = (r, h') \<Longrightarrow> header_reachable pbs h0 h'"
| assigned: "header_reachable pbs h0 h \<Longrightarrow> set_bar i v h = Ok (res, h') \<Longrightarrow> header_reachable pbs h0 h'"
| reset: "header_reachable pbs h0 h \<Longrightarrow> header_reachable pbs h0 (set_command 0 h)"

lemma mask_bits_fixed: "mask_bits a b m AND NOT m = a AND NOT m"
  for a b m :: "'a::len word"
  by (rule bit_word_eqI) (auto simp: bit_simps)

lemma fixed_bits_update:
  assumes "i < length vals" "i < length masks"
  shows "fixed_bits (vals[i := mask_bits (vals ! i) v (masks ! i)]) masks = fixed_bits vals masks"
  by (rule nth_equalityI) (use assms in \<open>auto simp: fixed_bits_def nth_list_update mask_bits_fixed\<close>)

lemma set_bar_view:
  "set_bar i v h = Ok (res, h') \<Longrightarrow>
   ro_view h' = ro_view h \<and> command_of h' = command_of h \<and> status_of h' = status_of h \<and> hd_bdf h' = hd_bdf h"
  by (auto simp: set_bar_def Let_def ro_view_def fixed_bits_update split: if_splits)

lemma bar_mapped_view:
  assumes "bar_mapped i a h = (r, h')"
  shows "ro_view h' = ro_view h \<and> command_of h' = command_of h \<and> status_of h' = status_of h"
  using assms set_bar_view[of "unat i" _ h] set_bar_view[of "unat i + 1"]
  by (auto simp: bar_mapped_def split: outcome.splits if_splits)

lemma write_bar_cases:
  assumes "write_bar i v pbs h = Ok (cb, h')"
  shows "h' = h \<or> cb = None \<and> i < length (bars_of h) \<and> i < length (hd_bar_masks h) \<and>
    h' = h\<lparr>hd_header := (hd_header h)\<lparr>h_bars :=
      (bars_of h)[i := mask_bits (bars_of h ! i) v (hd_bar_masks h ! i)]\<rparr>\<rparr>"
  using assms by (auto simp: write_bar_def Let_def split: if_splits pci_bar.splits)

lemma write_bar_view:
  assumes "write_bar i v pbs h = Ok (cb, h')"
  shows "ro_view h' = ro_view h \<and> command_of h' = command_of h \<and> status_of h' = status_of h"
  using write_bar_cases[OF assms] by (auto simp: ro_view_def fixed_bits_update)

lemma command_bits: "(d AND flag_not CMD_WRITABLE_BITS CMD_WRITABLE_BITS OR v AND CMD_WRITABLE_BITS)
    AND NOT CMD_WRITABLE_BITS = 0"
  by (rule bit_word_eqI) (auto simp: bit_simps flag_not_def)

lemma and_not_self: "(a AND b) AND NOT a = 0" "a AND NOT a = 0" for a b :: "'a::len word"
  by (rule bit_word_eqI; auto simp: bit_simps)+

lemma header_step_view:
  assumes "write_header off sz val pbs h = Ok (cb, h')"
  shows "ro_view h' = ro_view h \<and>
    (command_of h AND NOT CMD_WRITABLE_BITS = 0 \<longrightarrow> command_of h' AND NOT CMD_WRITABLE_BITS = 0) \<and>
    status_of h' AND NOT (status_of h) = 0"
proof -
  consider (command) "h' = snd (write_command (ucast val) pbs h)" | (status) "h' = write_status (ucast val) h"
    | (bar) i where "write_bar i (ucast val) pbs h = Ok (cb, h')" | (none) "h' = h"
    using assms by (auto simp: write_header_def Let_def split: if_splits)
  then show ?thesis
  proof cases
    case bar
    then show ?thesis using write_bar_view[OF bar] by (simp add: and_not_self)
  qed (simp_all add: write_command_def write_status_def set_command_def set_status_def
      ro_view_def Let_def command_bits and_not_self)
qed

section \<open>Sizing a BAR\<close>

definition mem_mask :: "u64 \<Rightarrow> u64" where
  "mem_mask n = NOT (max (next_power_of_two n) 0x1000 - 1)"

lemma mem_mask_spec:
  assumes "unat n \<le> 2 ^ 63"
  obtains k where "12 \<le> k" "k < 64" "mem_mask n = NOT (mask k)" "unat n \<le> 2 ^ k"
    "k = 12 \<or> 2 ^ (k - 1) < unat n"
proof -
  obtain j where j: "j < 64" "next_power_of_two n = 2 ^ j" "unat n \<le> 2 ^ j" "j = 0 \<or> 2 ^ (j - 1) < unat n"
    using next_power_of_two_spec[of n] assms by auto
  have p: "unat (2 ^ j :: u64) = 2 ^ j" using j(1) by (simp add: unat_two_power)
  have page: "(0x1000 :: u64) = 2 ^ 12" by simp
  show thesis
  proof (cases "j \<le> 12")
    case True
    then have "(2 :: nat) ^ j \<le> 2 ^ 12" by (rule power_increasing) simp
    then have "max (2 ^ j) 0x1000 = (2 ^ 12 :: u64)" using p by (simp add: max_def word_le_nat_alt)
    then have "mem_mask n = NOT (mask 12)" by (simp add: mem_mask_def j(2) mask_eq_exp_minus_1)
    then show thesis using that[of 12] j(3) \<open>(2 :: nat) ^ j \<le> 2 ^ 12\<close> by simp
  next
    case False
    then have "(2 :: nat) ^ 12 \<le> 2 ^ j" by (intro power_increasing) auto
    then have "0x1000 \<le> (2 ^ j :: u64)" using p by (simp add: word_le_nat_alt)
    then have "max (2 ^ j) 0x1000 = (2 ^ j :: u64)" by (rule max_absorb1)
    then have "mem_mask n = NOT (mask j)" by (simp add: mem_mask_def j(2) mask_eq_exp_minus_1)
    then show thesis using that[of j] j False by auto
  qed
qed

lemma bar_masks_mem:
  "i < length pbs \<Longrightarrow> i < length vals \<Longrightarrow> pbs ! i = BarMem region \<Longrightarrow>
   bar_masks_of env pbs vals hi ! i = ucast (mem_mask (region_size region))"
proof (induction env pbs vals hi arbitrary: i rule: bar_masks_of.induct)
qed (auto simp: nth_Cons' mem_mask_def Let_def less_Suc_eq_0_disj split: if_splits)

lemma bar_masks_mem_hi:
  "Suc i < length pbs \<Longrightarrow> Suc i < length vals \<Longrightarrow> pbs ! i = BarMem region \<Longrightarrow> pbs ! Suc i = BarEmpty \<Longrightarrow>
   vals ! i AND BAR_MEM64 = BAR_MEM64 \<Longrightarrow>
   bar_masks_of env pbs vals hi ! Suc i = ucast (shr (mem_mask (region_size region)) 32)"
proof (induction env pbs vals hi arbitrary: i rule: bar_masks_of.induct)
  case (3 env region' bs val vals mask_hi)
  show ?case
  proof (cases i)
    case 0
    then obtain v vs bs' where "vals = v # vs" "bs = BarEmpty # bs'"
      using "3.prems" by (cases vals; cases bs) auto
    then show ?thesis using 0 "3.prems" by (simp add: mem_mask_def Let_def and.commute)
  next
    case (Suc j)
    then show ?thesis using "3.IH"[OF refl refl, of j] "3.prems" by (simp add: Let_def)
  qed
next
  case (1 env bs val vals mask_hi)
  then show ?case by (cases i) auto
next
  case (2 env region' bs val vals mask_hi)
  then show ?case by (cases i) (auto simp: Let_def)
qed simp_all

lemma length_bar_masks [simp]: "length (bar_masks_of env pbs vals hi) = min (length pbs) (length vals)"
  by (induction env pbs vals hi rule: bar_masks_of.induct) (auto simp: Let_def)

text \<open>Reading a BAR through the header.\<close>

lemma drop_concat_encode:
  "i < length vals \<Longrightarrow> take 4 (drop (4 * i) (concat (map (le_encode 4) vals) @ rest)) = le_encode 4 (vals ! i)"
  by (induction vals arbitrary: i) (auto simp: nth_Cons' less_Suc_eq_0_disj)

lemma length_common_header_bytes [simp]: "length (common_header_bytes c) = 16"
  by (simp add: common_header_bytes_def)

lemma length_concat_encode [simp]: "length (concat (map (le_encode n) vals)) = n * length vals"
  by (induction vals) auto

lemma header_read_bar:
  assumes "length (bars_of (eh_data eh)) = 6" "i < 6"
  shows "header_read eh (of_nat (0x10 + 4 * i)) 4 = ucast (bars_of (eh_data eh) ! i)"
proof -
  let ?h = "hd_header (eh_data eh)"
  have off: "unat (of_nat (0x10 + 4 * i) :: u64) = 0x10 + 4 * i"
    using assms(2) by (intro unat_of_nat_u64) simp
  have "header_read eh (of_nat (0x10 + 4 * i)) 4
      = le_decode (take 4 (drop (0x10 + 4 * i) (device_header_bytes ?h)))"
    using zerocopy_read_in_range[of 4 "of_nat (0x10 + 4 * i)" "device_header_bytes ?h"] assms off
    by (simp add: header_read_def device_header_bytes_def)
  also have "take 4 (drop (0x10 + 4 * i) (device_header_bytes ?h)) = le_encode 4 (h_bars ?h ! i)"
    using drop_concat_encode[of i "h_bars ?h"] assms by (simp add: device_header_bytes_def)
  also have "le_decode (le_encode 4 (h_bars ?h ! i)) = (ucast (h_bars ?h ! i) :: u64)"
    by (simp add: le_decode_encode_ucast take_bit_word_eq_self)
  finally show ?thesis .
qed

text \<open>A write to a BAR whose space is not decoded stores the writable bits.\<close>

lemma write_bar_undecoded:
  assumes "i < length (bars_of h)" "i < length (hd_bar_masks h)" "i < length pbs"
    and "\<not> flag_contains (command_of h) CMD_MEM" "\<And>r. pbs ! i \<noteq> BarIo r"
  shows "write_bar i v pbs h = Ok (None, h\<lparr>hd_header := (hd_header h)\<lparr>h_bars :=
      (bars_of h)[i := mask_bits (bars_of h ! i) v (hd_bar_masks h ! i)]\<rparr>\<rparr>)"
  using assms by (auto simp: write_bar_def Let_def list_update_id split: pci_bar.splits)

section \<open>Moving a BAR\<close>

text \<open>
  The memory map in the world of one header: the callbacks of BAR regions write to the header,
  and no other call out of the memory map touches it or fails.
\<close>

definition header_world :: "('d, header_data, 'c, u8, 'l, 'u) mem_env \<Rightarrow> bool" where
  "header_world env \<longleftrightarrow> cb_mapped env = bar_mapped \<and> cb_unmapped env = (\<lambda>_. sret ()) \<and>
     vm_mem_map env = (\<lambda>_ _ _ _. sret ()) \<and> vm_unmap env = (\<lambda>_ _. sret ()) \<and> vm_reset env = sret () \<and>
     cb_ram_added env = (\<lambda>_ _ _. sret ()) \<and> cb_ram_removed env = (\<lambda>_ _ _. sret ()) \<and>
     cb_ram_updated env = (\<lambda>_ _. sret ())"

text \<open>The environment with the callbacks of regions silenced, to separate them from the rest.\<close>

abbreviation silent :: "('d, 'w, 'c, 'k, 'l, 'u) mem_env \<Rightarrow> ('d, 'w, 'c, 'k, 'l, 'u) mem_env" where
  "silent env \<equiv> env\<lparr>cb_mapped := \<lambda>_ _. sret ()\<rparr>"

lemma silent_range_size [simp]: "range_size (silent env) = range_size env"
  by (rule ext) (simp add: range_size_def split: mem_range.split)

lemma silent_add_range [simp]: "add_range (silent env) = add_range env"
  by (intro ext) (simp add: add_range_def map_to_vm_def mmio_bus_add_def split: mem_range.splits)

lemma silent_notify [simp]: "notify_updated (silent env) = notify_updated env"
  by (rule ext) (simp add: notify_updated_def)

lemma silent_validate [simp]: "validate (silent env) = validate env"
  by (rule ext) (simp add: validate_def)

lemma silent_unmap [simp]: "unmap_range (silent env) = unmap_range env" "unmap_region (silent env) = unmap_region env"
proof -
  show r: "unmap_range (silent env) = unmap_range env"
    by (intro ext) (simp add: unmap_range_def unmap_from_vm_def split: mem_range.splits)
  show "unmap_region (silent env) = unmap_region env"
    by (intro ext) (simp add: unmap_region_def r cong: if_cong)
qed

lemma silent_remove [simp]: "remove_region (silent env) = remove_region env"
  by (intro ext) (simp add: remove_region_def split: outcome.split)

lemma silent_inv [simp]: "mem_inv (silent env) m = mem_inv env m"
  by (simp add: mem_inv_def region_ok_def buses_def all_slots_def region_slots_def ports_inv_def io_region_size_def[abs_def])

lemma silent_callbacks: "sforeach (\<lambda>cb. world_op (sret ())) cbs s = (Ok (), s)"
  by (induction cbs arbitrary: s) (simp_all add: world_op_def)

lemma add_region_mapped:
  assumes "add_region (silent env) addr region s = (Ok (), s')"
  shows "add_region env addr region s =
    sforeach (\<lambda>cb. world_op (cb_mapped env cb addr)) (region_callbacks region) s'"
  using assms unfolding add_region_def sbind_eq_Ok by (auto simp: silent_callbacks)

lemma header_world_total: "header_world env \<Longrightarrow> env_total (silent env)"
  by (simp add: header_world_def env_total_def)


lemma keeps_world_op: "keeps v f \<Longrightarrow> keeps (\<lambda>s. v (snd s)) (world_op f)"
  unfolding keeps_def world_op_def by (metis (no_types, lifting) case_prod_conv prod.collapse snd_conv)

lemma keeps_table_op: "keeps (\<lambda>s. v (snd s)) (table_op f)"
  by (simp add: keeps_def table_op_def split: outcome.split)

lemma keeps_notify:
  assumes "header_world env"
  shows "keeps snd (notify_updated env)"
proof -
  have "snd (snd (notify_updated env s)) = snd s" for s
    using assms by (simp add: notify_updated_def header_world_def silent_callbacks)
  then show ?thesis by (simp add: keeps_def)
qed

lemma keeps_ranges:
  assumes "header_world env"
  shows "keeps snd (add_range env cbs gpa r)" "keeps snd (unmap_range env cbs gpa r)"
  using assms keeps_table_op[of "\<lambda>w. w"]
  by (cases r; auto simp: add_range_def unmap_range_def header_world_def map_to_vm_def unmap_from_vm_def
      intro!: keeps_sbind keeps_sforeach keeps_world_op[of "\<lambda>w. w", simplified])+

lemma keeps_add_region: "header_world env \<Longrightarrow> keeps snd (add_region (silent env) addr region)"
proof -
  assume env: "header_world env"
  have *: "keeps snd (sbind (table_op (\<lambda>m. obind (validate env region) (\<lambda>_. Ok m))) (\<lambda>_.
     sbind (table_op (\<lambda>m. obind (addressable_add region_size (regions m) addr region)
                            (\<lambda>t. Ok (m\<lparr>regions := t\<rparr>)))) (\<lambda>_.
     sbind (for_ranges (add_range env cbs) (range_size env) addr 0 False
              (ranges region)) (\<lambda>ram_updated.
     sbind (if ram_updated then notify_updated env else sret ()) (\<lambda>_.
     sforeach (\<lambda>cb. world_op (sret ())) (region_callbacks region))))))" for cbs
    by (intro keeps_sbind keeps_for_ranges keeps_ranges[OF env] keeps_sforeach
        keeps_table_op[of "\<lambda>w. w"] keeps_world_op[of "\<lambda>w. w"])
      (auto simp: keeps_notify[OF env])
  show ?thesis
    unfolding keeps_def
  proof
    fix s
    show "snd (snd (add_region (silent env) addr region s)) = snd s"
      using *[of "cbs_changed (fst s)", unfolded keeps_def, rule_format, of s]
      unfolding add_region_def by (simp cong: if_cong)
  qed
qed

lemma remove_region_world:
  assumes env: "header_world env" and "remove_region env addr (m, w) = (Ok region, (m', w'))"
  shows "w' = w"
proof -
  have *: "keeps snd (sbind (for_ranges (unmap_range env cbs) (range_size env) addr 0 False
              (ranges region)) (\<lambda>ram_updated.
     sbind (if ram_updated then notify_updated env else sret ()) (\<lambda>_.
     sforeach (\<lambda>cb. world_op (sret ())) (region_callbacks region))))" for cbs
    by (intro keeps_sbind keeps_for_ranges keeps_ranges[OF env] keeps_sforeach
        keeps_world_op[of "\<lambda>w. w"]) (auto simp: keeps_notify[OF env])
  from assms(2) obtain t s' where "unmap_region env addr region (m\<lparr>regions := t\<rparr>, w) = (Ok (), (m', w'))"
    by (auto simp: remove_region_def sbind_eq_Ok split: outcome.splits)
  moreover have "cb_unmapped env = (\<lambda>_. sret ())" using env by (simp add: header_world_def)
  ultimately show ?thesis
    using keepsD[OF *[of "cbs_changed m"], of "(m\<lparr>regions := t\<rparr>, w)" "Ok ()" "(m', w')"]
    by (simp add: unmap_region_def)
qed


lemma move_region:
  assumes env: "header_world env" and inv: "mem_inv env m"
    and src: "(src, region) \<in> set (addressable_iter (regions m))"
    and free: "slot_ok region_size dst region"
      "\<forall>e \<in> set (addressable_iter (regions m)) - {(src, region)}. \<not> overlaps region_size (dst, region) e"
  obtains m' where "sbind (remove_region env src) (\<lambda>r. add_region env dst r) (m, w)
      = sforeach (\<lambda>cb. world_op (cb_mapped env cb dst)) (region_callbacks region) (m', w)"
    "mem_inv env m'"
    "set (addressable_iter (regions m')) = insert (dst, region) (set (addressable_iter (regions m)) - {(src, region)})"
proof -
  let ?env = "silent env"
  have tot: "env_total ?env" using env by (rule header_world_total)
  have rok: "region_ok ?env region" using inv src silent_inv[of env m] unfolding mem_inv_def by fastforce
  obtain m1 w1 where rm: "remove_region env src (m, w) = (Ok region, (m1, w1))"
    using remove_region_succeeds[OF _ tot src] inv by fastforce
  have m1: "mem_inv env m1" "set (addressable_iter (regions m1)) = set (addressable_iter (regions m)) - {(src, region)}"
    using remove_region_Ok[OF inv rm] by auto
  have w1: "w1 = w" by (rule remove_region_world[OF env rm])
  have inv1: "addressable_inv region_size (regions m1)" using m1(1) by (simp add: mem_inv_def)
  obtain t where t: "addressable_add region_size (regions m1) dst region = Ok t"
    using add_Ok_iff[OF inv1, of dst region] free m1(2) by auto
  obtain m2 w2 where add: "add_region ?env dst region (m1, w) = (Ok (), (m2, w2))"
    using add_region_succeeds[OF _ rok tot t, of w] m1(1) by fastforce
  have w2: "w2 = w" using keepsD[OF keeps_add_region[OF env] add] by simp
  have m2: "mem_inv env m2" "set (addressable_iter (regions m2)) = insert (dst, region) (set (addressable_iter (regions m1)))"
    using add_region_inv[OF _ rok add] m1(1) by auto
  have "add_region env dst region (m1, w) =
      sforeach (\<lambda>cb. world_op (cb_mapped env cb dst)) (region_callbacks region) (m2, w)"
    using add_region_mapped[OF add] w2 by simp
  then show thesis using that[of m2] rm w1 m1(2) m2 by simp
qed

text \<open>The address a memory BAR holds: the low word without its flags, and the next word if it is 64-bit wide.\<close>

definition bar_address :: "u32 list \<Rightarrow> nat \<Rightarrow> u64" where
  "bar_address vals i = ((if vals ! i AND BAR_MEM64 = BAR_MEM64
     then ucast (vals ! i) OR shl (ucast (vals ! Suc i)) 32 else ucast (vals ! i)) AND NOT 15)"

lemma mem64_bit: "x AND BAR_MEM64 = BAR_MEM64 \<longleftrightarrow> bit x 2"
  using flag_contains_bit[of 2 x] by (simp add: flag_contains_def BAR_MEM64_def)

lemma bit_15: "bit (15 :: 'a::len word) n \<longleftrightarrow> n < 4 \<and> n < LENGTH('a)"
proof -
  have "(15 :: 'a word) = mask 4" by (simp add: mask_eq_exp_minus_1)
  then have "bit (15 :: 'a word) n = bit (mask 4 :: 'a word) n" by (rule arg_cong)
  then show ?thesis by (simp only: bit_mask_iff min_less_iff_conj) auto
qed

lemma bit_bar_address:
  "bit (bar_address vals i) n \<longleftrightarrow> 4 \<le> n \<and> n < 64 \<and> (if n < 32 then bit (vals ! i) n
     else bit (vals ! i) 2 \<and> bit (vals ! Suc i) (n - 32))"
  unfolding bar_address_def mem64_bit
  by (auto simp: bit_simps shl_def bit_15 simp del: bit_numeral_word_iff dest: bit_imp_le_length)

lemma bar_mapped_back:
  assumes len: "length (bars_of h) = 6" "length (hd_bar_masks h) = 6" and i: "i < 6"
    and wide: "bit (bars_of h ! i) 2 \<Longrightarrow> i < 5"
    and flags: "hd_bar_masks h ! i AND 15 = 0"
    and v: "v = mask_bits (bars_of h ! i) val (hd_bar_masks h ! i)"
  shows "bar_mapped (of_nat i) (bar_address ((bars_of h)[i := v]) i) h
    = (Ok (), h\<lparr>hd_header := (hd_header h)\<lparr>h_bars := (bars_of h)[i := v]\<rparr>\<rparr>)"
proof -
  let ?m = "hd_bar_masks h ! i" and ?a = "bar_address ((bars_of h)[i := v]) i"
  have idx: "unat (of_nat i :: u8) = i" using i by (simp add: unat_of_nat take_bit_eq_mod)
  have low: "\<not> bit ?m n" if "n < 4" for n
  proof -
    have "bit (?m AND 15) n = False" using flags by simp
    then show ?thesis using that by (simp only: bit_and_iff bit_15) auto
  qed
  have high: "bit ?m n \<Longrightarrow> 4 \<le> n" for n using low leI by blast
  have wide_v: "bit v 2 = bit (bars_of h ! i) 2" using low[of 2] by (simp add: v)
  have lo: "mask_bits (bars_of h ! i) (ucast ?a) ?m = v"
    by (rule bit_word_eqI) (use high len i in \<open>auto simp: v bit_simps bit_bar_address not_less dest: bit_imp_le_length\<close>)
  have hi: "mask_bits (bars_of h ! Suc i) (ucast (shr ?a 32)) m' = bars_of h ! Suc i" if "bit v 2" for m'
    by (rule bit_word_eqI)
      (use that len i in \<open>auto simp: bit_simps bit_bar_address shr_def not_less dest: bit_imp_le_length\<close>)
  show ?thesis
  proof (cases "bit (bars_of h ! i) 2")
    case False
    then show ?thesis using len i idx lo by (simp add: bar_mapped_def get_bar_def set_bar_def mem64_bit Let_def)
  next
    case True
    then have "i < 5" by (rule wide)
    then show ?thesis
      using True len i idx lo hi wide_v by (simp add: bar_mapped_def get_bar_def set_bar_def mem64_bit Let_def
          list_update_id[of "(bars_of h)[i := v]" "Suc i", simplified])
  qed
qed

lemma write_bar_decoded:
  assumes len: "length (bars_of h) = 6" "length (hd_bar_masks h) = 6" "length pbs = 6" and i: "i < 6"
    and wide: "bit (bars_of h ! i) 2 \<Longrightarrow> i < 5"
    and bar: "pbs ! i = BarMem region" and on: "flag_contains (command_of h) CMD_MEM"
    and v: "v = mask_bits (bars_of h ! i) val (hd_bar_masks h ! i)" "v \<noteq> bars_of h ! i"
    and flags: "hd_bar_masks h ! i AND 15 = 0" "\<not> bit (bars_of h ! i) 0"
  obtains cb where "write_bar i val pbs h = Ok (Some cb, h)"
    "pci_change env cb = sbind (remove_region env (bar_address (bars_of h) i))
       (\<lambda>r. add_region env (bar_address ((bars_of h)[i := v]) i) r)"
proof -
  let ?old = "bars_of h ! i"
  define hi where "hi = (if bit ?old 2 then shl (ucast (bars_of h ! Suc i)) 32 else (0 :: u64))"
  have low: "\<not> bit (hd_bar_masks h ! i) n" if "n < 4" for n
  proof -
    have "bit (hd_bar_masks h ! i AND 15) n = False" using flags(1) by simp
    then show ?thesis using that by (simp only: bit_and_iff bit_15) auto
  qed
  have v2: "bit v 2 = bit ?old 2" using low[of 2] by (simp add: v(1))
  have cb: "write_bar i val pbs h = Ok (Some (MoveBar (hd_bdf h) (ucast ?old OR hi) (ucast v OR hi)), h)"
    using len i bar on v wide by (auto simp: write_bar_def Let_def mem64_bit hi_def)
  have mem: "(ucast (ucast ?old OR hi :: u64) :: u32) AND BAR_IO \<noteq> BAR_IO"
  proof
    assume "(ucast (ucast ?old OR hi :: u64) :: u32) AND BAR_IO = BAR_IO"
    then have "bit ((ucast (ucast ?old OR hi :: u64) :: u32)) 0"
      using flag_contains_bit[of 0 "ucast (ucast ?old OR hi :: u64) :: u32"]
      by (simp add: flag_contains_def BAR_IO_def)
    then show False using flags(2) by (auto simp: bit_simps hi_def shl_def split: if_splits)
  qed
  have src: "(ucast ?old OR hi) AND NOT (ucast BAR_MEM_MASK) = bar_address (bars_of h) i"
    by (simp add: bar_address_def hi_def mem64_bit BAR_MEM_MASK_def)
  have dst: "(ucast v OR hi) AND NOT (ucast BAR_MEM_MASK) = bar_address ((bars_of h)[i := v]) i"
    using len i v2 by (simp add: bar_address_def hi_def mem64_bit BAR_MEM_MASK_def)
  show thesis
    by (rule that[OF cb]) (simp add: move_bar_change_def mem src dst)
qed

section \<open>A sample function\<close>

text \<open>A function with one 64-bit memory BAR of a page, backed by a device, at 0x4000.\<close>

definition bar_region :: "(u64, u8) mem_region" where
  "bar_region = \<lparr>ranges = [Emulated 0x1000], entries = [\<lparr>entry_size = 0x1000, entry_type = RegHidden\<rparr>],
     region_callbacks = [0]\<rparr>"

definition bar_env :: "(u64, header_data, (u64, u8) pci_callback, u8, unit, unit) mem_env" where
  "bar_env = \<lparr>mmio_size = id, mmio_read = (\<lambda>d off n. sret off), mmio_write = (\<lambda>d off n v. sret ActNone),
     vm_mem_map = (\<lambda>_ _ _ _. sret ()), vm_unmap = (\<lambda>_ _. sret ()), vm_reset = sret (),
     vm_register_encrypted_range = (\<lambda>_. sret ()), vm_deregister_encrypted_range = (\<lambda>_. sret ()),
     vm_mark_private_memory = (\<lambda>_ _ _. sret ()),
     cb_ram_added = (\<lambda>_ _ _. sret ()), cb_ram_removed = (\<lambda>_ _ _. sret ()), cb_ram_updated = (\<lambda>_ _. sret ()),
     cb_mapped = bar_mapped, cb_unmapped = (\<lambda>_. sret ())\<rparr>"

definition bar_header :: "u16 \<Rightarrow> u32 \<Rightarrow> header_data" where
  "bar_header command bar0 = \<lparr>hd_header = device_header_default\<lparr>h_common := common_header_default\<lparr>h_command := command\<rparr>,
     h_bars := [bar0, 0, 0, 0, 0, 0]\<rparr>, hd_bar_masks = [0xfffff000, 0xffffffff, 0, 0, 0, 0], hd_bdf = 8\<rparr>"

definition bar_list :: "(u64, u8) pci_bar list" where
  "bar_list = [BarMem bar_region, BarEmpty, BarEmpty, BarEmpty, BarEmpty, BarEmpty]"

definition bar_mem :: "u64 list \<Rightarrow> (u64, u8, unit, unit) memory" where
  "bar_mem addrs = memory_new\<lparr>
     regions := \<lparr>slots = map (\<lambda>a. \<lparr>s_addr = a, s_backend = bar_region\<rparr>) addrs\<rparr>,
     mem_mmio_bus := \<lparr>bus_inner = \<lparr>slots = map (\<lambda>a. \<lparr>s_addr = a, s_backend = 0x1000\<rparr>) addrs\<rparr>\<rparr>\<rparr>"

lemma bar_env_world: "header_world bar_env"
  by (simp add: header_world_def bar_env_def)

lemma bar_mem_inv: "mem_inv bar_env (bar_mem [0x4000])" "mem_inv bar_env (bar_mem [0x4000, 0x8000])"
  by (auto simp: mem_inv_def bar_mem_def bar_env_def addressable_inv_def slot_ok_def region_size_def bar_region_def
      max_addr_def region_ok_def range_size_def buses_def addressable_iter_def all_slots_def region_slots_def
      ports_inv_def memory_new_def addressable_new_def mmio_bus_new_def ram_bus_new_def)


lemma and_not_trans: "a AND NOT b = 0 \<Longrightarrow> b AND NOT c = 0 \<Longrightarrow> a AND NOT c = 0" for a b c :: "'a::len word"
proof (rule bit_word_eqI)
  fix n assume "a AND NOT b = 0" "b AND NOT c = 0"
  then have "bit (a AND NOT b) n = False" "bit (b AND NOT c) n = False" by simp_all
  then show "bit (a AND NOT c) n = bit (0 :: 'a word) n" by (auto simp: bit_simps)
qed

lemma length_push_bar_callbacks [simp]: "length (push_bar_callbacks mk_cb j pbs) = length pbs"
  by (induction mk_cb j pbs rule: push_bar_callbacks.induct) auto

lemma push_bar_callbacks_mem:
  "i < length pbs \<Longrightarrow> pbs ! i = BarMem region \<Longrightarrow> \<exists>r. push_bar_callbacks mk_cb j pbs ! i = BarMem r"
  by (induction mk_cb j pbs arbitrary: i rule: push_bar_callbacks.induct)
    (auto simp: nth_Cons' less_Suc_eq_0_disj)

section \<open>Properties\<close>

text \<open>
  C29. Whatever the guest writes, wherever the BARs are mapped and however often the function is
  reset, the identity, class, BAR flags and size bits of the header never change, the command
  register holds only the bits it defines, and a status bit that was clear is never set.
\<close>

theorem header_readonly:
  assumes "header_reachable pbs h0 h" and "command_of h0 AND NOT CMD_WRITABLE_BITS = 0"
  shows "ro_view h = ro_view h0 \<and> command_of h AND NOT CMD_WRITABLE_BITS = 0 \<and>
    status_of h AND NOT (status_of h0) = 0"
  using assms
proof (induction rule: header_reachable.induct)
  case (guest_write h off sz val cb h')
  have "status_of h' AND NOT (status_of h0) = 0"
    if "status_of h' AND NOT (status_of h) = 0" "status_of h AND NOT (status_of h0) = 0"
    using that by (metis and_not_trans)
  then show ?case using guest_write header_step_view[OF guest_write.hyps(2)] by simp
next
  case (mapped h index addr r h')
  then show ?case using bar_mapped_view[OF mapped.hyps(2)] by simp
next
  case (assigned h i v res h')
  then show ?case using set_bar_view[OF assigned.hyps(2)] by simp
next
  case (reset h)
  have "ro_view (set_command 0 h) = ro_view h" by (simp add: ro_view_def set_command_def)
  then show ?case using reset by (simp add: set_command_def)
qed (simp add: and_not_self)

theorem header_readonly_witness:
  "ro_view (set_command 0 (snd (write_command 0xffff bar_list (bar_header 0 0x400c)))) = ro_view (bar_header 0 0x400c)"
proof -
  have w: "write_header 4 2 0xffff bar_list (bar_header 0 0x400c)
      = Ok (write_command 0xffff bar_list (bar_header 0 0x400c))"
    by (simp add: write_header_def)
  obtain cb h where h: "write_command 0xffff bar_list (bar_header 0 0x400c) = (cb, h)" by fastforce
  have "header_reachable bar_list (bar_header 0 0x400c) (set_command 0 h)"
    by (rule header_reachable.reset, rule header_reachable.guest_write[OF header_reachable.start w[unfolded h]])
  moreover have "command_of (bar_header 0 0x400c) AND NOT CMD_WRITABLE_BITS = 0"
    by (simp add: bar_header_def)
  ultimately show ?thesis using header_readonly[of bar_list "bar_header 0 0x400c" "set_command 0 h"] h by simp
qed

text \<open>
  C30. The sizing protocol: software that writes all ones to a memory BAR while the function
  does not decode memory reads back the flags and, above them, ones from bit \<open>k\<close> upwards, where
  \<open>2 ^ k\<close> is the smallest power of two of at least a page that holds the region.
\<close>

theorem bar_sizing:
  assumes len: "length pbs = 6" "length (h_bars header) = 6" and i: "i < 6" "pbs ! i = BarMem region"
    and off: "\<not> flag_contains (h_command (h_common header)) CMD_MEM"
    and fits: "unat (region_size region) \<le> 2 ^ 63" and flags: "h_bars header ! i AND NOT 15 = 0"
  shows "\<exists>k eh. 12 \<le> k \<and> k < 64 \<and> unat (region_size region) \<le> 2 ^ k \<and>
    (k = 12 \<or> 2 ^ (k - 1) < unat (region_size region)) \<and>
    header_write (of_nat (0x10 + 4 * i)) 4 0xffffffff (emulated_header_new env mk_cb header pbs) = (Ok ActNone, eh) \<and>
    header_read eh (of_nat (0x10 + 4 * i)) 4 = ucast ((ucast (NOT (mask k) :: u64) :: u32) OR h_bars header ! i)"
proof -
  obtain k where k: "12 \<le> k" "k < 64" "mem_mask (region_size region) = NOT (mask k)"
    "unat (region_size region) \<le> 2 ^ k" "k = 12 \<or> 2 ^ (k - 1) < unat (region_size region)"
    using mem_mask_spec[OF fits] by blast
  let ?eh = "emulated_header_new env mk_cb header pbs" and ?m = "(ucast (NOT (mask k) :: u64) :: u32)"
  let ?v = "mask_bits (h_bars header ! i) (ucast (0xffffffff :: u64)) ?m"
  let ?eh' = "?eh\<lparr>eh_data := (eh_data ?eh)\<lparr>hd_header := header\<lparr>h_bars := (h_bars header)[i := ?v]\<rparr>\<rparr>\<rparr>"
  have idx: "unat (of_nat (0x10 + 4 * i) :: u64) = 0x10 + 4 * i"
    using i(1) by (intro unat_of_nat_u64) simp
  have m: "hd_bar_masks (eh_data ?eh) ! i = ?m"
    using bar_masks_mem[of i pbs "h_bars header" region env 0] len i k(3) by (simp add: emulated_header_new_def)
  have "write_bar i (ucast (0xffffffff :: u64)) (eh_bars ?eh) (eh_data ?eh)
      = Ok (None, (eh_data ?eh)\<lparr>hd_header := header\<lparr>h_bars := (h_bars header)[i := ?v]\<rparr>\<rparr>)"
    using write_bar_undecoded[of i "eh_data ?eh" "eh_bars ?eh" "ucast (0xffffffff :: u64)"] len i off m
      push_bar_callbacks_mem[of i pbs region mk_cb 0]
    by (auto simp: emulated_header_new_def)
  then have w: "header_write (of_nat (0x10 + 4 * i)) 4 0xffffffff ?eh = (Ok ActNone, ?eh')"
    using idx i(1) by (simp add: header_write_def write_header_def Let_def OFFSET_BAR0_def OFFSET_BAR5_def)
  have ones: "ucast (0xffffffff :: u64) = (- 1 :: u32)"
    unfolding low_word_mask by (rule bit_word_eqI) (simp add: bit_simps)
  have "?v = ?m OR h_bars header ! i"
  proof (rule bit_word_eqI)
    fix n assume "n < LENGTH(32)"
    moreover have "bit (h_bars header ! i AND NOT 15) n = False" using flags by simp
    ultimately show "bit ?v n = bit (?m OR h_bars header ! i) n"
      unfolding ones using k(1) by (auto simp: bit_simps bit_15 simp del: bit_numeral_word_iff)
  qed
  then have "header_read ?eh' (of_nat (0x10 + 4 * i)) 4 = ucast (?m OR h_bars header ! i)"
    using header_read_bar[of ?eh' i] len i by (simp add: emulated_header_new_def)
  with w k show ?thesis by blast
qed

theorem bar_sizing_witness:
  "\<exists>k eh. 12 \<le> k \<and> k < 64 \<and> unat (region_size bar_region) \<le> 2 ^ k \<and>
    (k = 12 \<or> 2 ^ (k - 1) < unat (region_size bar_region)) \<and>
    header_write 0x10 4 0xffffffff (emulated_header_new bar_env id (hd_header (bar_header 0 12)) bar_list) = (Ok ActNone, eh) \<and>
    header_read eh 0x10 4 = ucast ((ucast (NOT (mask k) :: u64) :: u32) OR 12)"
  using bar_sizing[of bar_list "hd_header (bar_header 0 12)" 0 bar_region bar_env id]
  by (simp add: bar_list_def bar_header_def common_header_default_def flag_contains_def CMD_MEM_def
      region_size_def bar_region_def)



text \<open>
  C31. When the target of a BAR move is taken, the move fails after the region has already been
  removed: the region is mapped nowhere, although the function still decodes memory.
\<close>

theorem bar_move_conflict_loses_region:
  assumes env: "header_world env" "mem_inv env m"
    and src: "(src, region) \<in> set (addressable_iter (regions m))" "src AND 15 = 0"
    and dst: "dst AND 15 = 0" "e \<in> set (addressable_iter (regions m)) - {(src, region)}"
      "overlaps region_size (dst, region) e"
  shows "\<exists>err m'. pci_change env (MoveBar bdf src dst) (m, h) = (Err err, (m', h)) \<and>
    set (addressable_iter (regions m')) = set (addressable_iter (regions m)) - {(src, region)}"
proof -
  have low: "\<not> bit a n" if "a AND 15 = 0" "n < 4" for a :: u64 and n
  proof -
    have "bit (a AND 15) n = False" using that(1) by simp
    then show ?thesis using that(2) by (simp only: bit_and_iff bit_15) auto
  qed
  have keep: "a AND NOT (ucast BAR_MEM_MASK) = a" if "a AND 15 = 0" for a :: u64
    using low[OF that] by (intro bit_word_eqI)
      (auto simp: bit_simps bit_15 BAR_MEM_MASK_def simp del: bit_numeral_word_iff)
  have mem: "(ucast src :: u32) AND BAR_IO \<noteq> BAR_IO"
    using low[OF src(2), of 0] flag_contains_bit[of 0 "ucast src :: u32"]
    by (simp add: flag_contains_def BAR_IO_def bit_simps)
  obtain m1 w1 where rm: "remove_region env src (m, h) = (Ok region, (m1, w1))"
    using remove_region_succeeds[OF _ header_world_total[OF env(1)] src(1)] env(2) by fastforce
  have m1: "mem_inv env m1" "set (addressable_iter (regions m1)) = set (addressable_iter (regions m)) - {(src, region)}"
    using remove_region_Ok[OF env(2) rm] by auto
  have inv1: "addressable_inv region_size (regions m1)" using m1(1) by (simp add: mem_inv_def)
  have "region_ok env region" using env(2) src(1) unfolding mem_inv_def by fastforce
  then have valid: "validate env region = Ok ()" by (rule region_ok_validate)
  obtain err where "addressable_add region_size (regions m1) dst region = Err err"
    using add_Ok_iff[OF inv1, of dst region] dst(2,3) m1(2) add_no_Panic[of region_size "regions m1" dst region]
    by (cases "addressable_add region_size (regions m1) dst region") blast+
  then have "add_region env dst region (m1, h) = (Err err, (m1, h))"
    by (simp add: add_region_def sbind_def table_op_def valid)
  then show ?thesis
    using rm remove_region_world[OF env(1) rm] m1(2)
    by (simp add: move_bar_change_def mem keep[OF src(2)] keep[OF dst(1)])
qed

theorem bar_move_conflict_loses_region_witness:
  "\<exists>err m'. pci_change bar_env (MoveBar 8 0x4000 0x8000) (bar_mem [0x4000, 0x8000], bar_header 2 0x400c)
      = (Err err, (m', bar_header 2 0x400c)) \<and>
    set (addressable_iter (regions m')) = {(0x8000, bar_region)}"
proof -
  have regs: "set (addressable_iter (regions (bar_mem [0x4000, 0x8000]))) = {(0x4000, bar_region), (0x8000, bar_region)}"
    by (simp add: bar_mem_def addressable_iter_def)
  have "overlaps region_size (0x8000, bar_region) (0x8000, bar_region)"
    unfolding overlaps_def by (rule exI[of _ "0x8000"]) (simp add: covers_def region_size_def bar_region_def)
  then show ?thesis
    using bar_move_conflict_loses_region[OF bar_env_world bar_mem_inv(2), of "0x4000" bar_region "0x8000"
        "(0x8000, bar_region)" 8 "bar_header 2 0x400c"] regs
    by (simp add: insert_Diff_if)
qed

end
