(* ===== verification/Pci_Cap.thy ===== *)
theory Pci_Cap
  imports Pci_Header
begin

text \<open>
  \<^verbatim>\<open>alioth/src/pci/cap.rs\<close>: the capabilities of a PCI function. MSI and MSI-X program interrupt
  file descriptors (the trait \<^verbatim>\<open>IrqFd\<close> of the hypervisor, a handle \<open>'f\<close> with the methods of
  \<open>irqfd_ops\<close> on the world \<open>'w\<close>), and the capability list links the capabilities of a function in
  its configuration space. A boxed capability is a handle with the methods of \<open>cap_ops\<close>.
\<close>

section \<open>MSI\<close>

definition CAP_MSI :: u8 where "CAP_MSI = 5"
definition CAP_VENDOR :: u8 where "CAP_VENDOR = 9"
definition CAP_MSIX :: u8 where "CAP_MSIX = 0x11"

record pci_cap_hdr =
  cap_id :: u8
  cap_next :: u8

text \<open>The fields of \<^verbatim>\<open>MsiMsgCtrl\<close>.\<close>

definition msi_enable :: "u16 \<Rightarrow> bool" where "msi_enable c = bit c 0"
definition multi_msg_cap :: "u16 \<Rightarrow> u16" where "multi_msg_cap c = get_field 3 1 c"
definition multi_msg :: "u16 \<Rightarrow> u16" where "multi_msg c = get_field 6 4 c"
definition addr_64_cap :: "u16 \<Rightarrow> bool" where "addr_64_cap c = bit c 7"
definition per_vector_masking_cap :: "u16 \<Rightarrow> bool" where "per_vector_masking_cap c = bit c 8"
definition ext_msg_data_cap :: "u16 \<Rightarrow> bool" where "ext_msg_data_cap c = bit c 9"
definition ext_msg_data :: "u16 \<Rightarrow> bool" where "ext_msg_data c = bit c 10"

definition cap_size :: "u16 \<Rightarrow> u8" where
  "cap_size c = 12 + (if addr_64_cap c then 4 else 0) + (if per_vector_masking_cap c then 8 else 0)"

record 'f msi_cap =
  msi_header :: pci_cap_hdr
  msi_control :: u16
  msi_data :: "u32 list"
  msi_irqfds :: "'f list"

definition msi_hdr_bytes :: "'f msi_cap \<Rightarrow> u8 list" where
  "msi_hdr_bytes cap = [cap_id (msi_header cap), cap_next (msi_header cap)] @ le_encode 2 (msi_control cap)"

definition msi_body_bytes :: "'f msi_cap \<Rightarrow> u8 list" where
  "msi_body_bytes cap = concat (map (le_encode 4) (msi_data cap))"

definition msi_new :: "u16 \<Rightarrow> 'f list \<Rightarrow> 'f msi_cap" where
  "msi_new ctrl irqfds = \<lparr>msi_header = \<lparr>cap_id = CAP_MSI, cap_next = 0\<rparr>, msi_control = ctrl,
     msi_data = replicate 4 0, msi_irqfds = irqfds\<rparr>"

text \<open>Address, message and vector mask that \<^verbatim>\<open>update_msi\<close> reads from the registers.\<close>

definition msi_addr_msg :: "'f msi_cap \<Rightarrow> u64 \<times> u32" where
  "msi_addr_msg cap =
     (let ctrl = msi_control cap; data = msi_data cap;
          msg_mask = (if ext_msg_data ctrl then 0xffffffff else 0xffff)
      in if addr_64_cap ctrl
         then (shl (ucast (data ! 1)) 32 OR ucast (data ! 0), data ! 2 AND msg_mask)
         else (ucast (data ! 0), data ! 1 AND msg_mask))"

definition msi_mask :: "'f msi_cap \<Rightarrow> u32" where
  "msi_mask cap =
     (let ctrl = msi_control cap
      in if \<not> per_vector_masking_cap ctrl then 0
         else if addr_64_cap ctrl then msi_data cap ! 3 else msi_data cap ! 2)"

definition update_vector :: "('f, 'w) irqfd_ops \<Rightarrow> 'f msi_cap \<Rightarrow> nat \<times> 'f \<Rightarrow> ('w, unit, hv_error) op" where
  "update_vector irq cap e =
     (let (index, irqfd) = e; ctrl = msi_control cap; (addr, msg) = msi_addr_msg cap
      in sbind (irq_set_masked irq irqfd True) (\<lambda>_.
         if \<not> msi_enable ctrl \<or> unat (shl 1 (unat (multi_msg ctrl)) :: u64) \<le> index
            \<or> 0 < msi_mask cap AND shl 1 index
         then sret ()
         else sbind (irq_set_addr_hi irq irqfd (ucast (shr addr 32))) (\<lambda>_.
              sbind (irq_set_addr_lo irq irqfd (ucast addr)) (\<lambda>_.
              sbind (irq_set_data irq irqfd (msg OR of_nat index)) (\<lambda>_.
              sbind (irq_set_masked irq irqfd False) (\<lambda>_. sret ()))))))"

definition update_msi :: "('f, 'w) irqfd_ops \<Rightarrow> 'f msi_cap \<Rightarrow> ('w, unit, hv_error) op" where
  "update_msi irq cap = sforeach (update_vector irq cap) (enumerate 0 (msi_irqfds cap))"

definition msi_size :: "'f msi_cap \<Rightarrow> u64" where
  "msi_size cap = ucast (cap_size (msi_control cap))"

definition msi_read :: "'f msi_cap \<Rightarrow> u64 \<Rightarrow> u8 \<Rightarrow> u64" where
  "msi_read cap offset sz =
     (if offset < 4 then zerocopy_read (msi_hdr_bytes cap) offset sz
      else zerocopy_read (msi_body_bytes cap) (offset - 4) sz)"

text \<open>The arms of \<^verbatim>\<open>write\<close>: the new registers, and whether the vectors need an update.\<close>

definition write_msi_control :: "u16 \<Rightarrow> 'f msi_cap \<Rightarrow> 'f msi_cap \<times> bool" where
  "write_msi_control new_ctrl cap =
     (let ctrl = msi_control cap;
          ctrl1 = (if \<not> msi_enable ctrl \<or> \<not> msi_enable new_ctrl
                   then set_field 6 4 (min (multi_msg_cap ctrl) (multi_msg new_ctrl)) ctrl else ctrl);
          ext = ext_msg_data_cap ctrl1 \<and> ext_msg_data new_ctrl;
          need1 = (msi_enable new_ctrl \<and> ext_msg_data ctrl1 \<noteq> ext);
          ctrl2 = set_bit_to 10 ext ctrl1;
          need2 = (need1 \<or> msi_enable ctrl2 \<noteq> msi_enable new_ctrl);
          ctrl3 = set_bit_to 0 (msi_enable new_ctrl) ctrl2
      in (cap\<lparr>msi_control := ctrl3\<rparr>, need2))"

definition write_msi_reg :: "nat \<Rightarrow> u32 \<Rightarrow> 'f msi_cap \<Rightarrow> 'f msi_cap \<times> bool" where
  "write_msi_reg i new_val cap =
     (cap\<lparr>msi_data := (msi_data cap)[i := new_val]\<rparr>,
      msi_enable (msi_control cap) \<and> msi_data cap ! i \<noteq> new_val)"

definition write_msi :: "u64 \<Rightarrow> u8 \<Rightarrow> u64 \<Rightarrow> 'f msi_cap \<Rightarrow> 'f msi_cap \<times> bool" where
  "write_msi offset sz val cap =
     (let ctrl = msi_control cap; a64 = addr_64_cap ctrl; pvm = per_vector_masking_cap ctrl;
          i = unat (shr (offset - 4) 2)
      in if offset = 2 \<and> sz = 2 \<or> offset = 0 \<and> sz = 4
         then write_msi_control (ucast (shr val (unat (shl (2 - offset) 3)))) cap
         else if offset = 4 \<and> sz = 4 \<or> offset = 8 \<and> sz = 4 \<and> a64 \<or> offset = 12 \<and> sz = 4 \<and> \<not> a64 \<and> pvm
              \<or> offset = 16 \<and> sz = 4 \<and> a64 \<and> pvm
         then write_msi_reg i (ucast val) cap
         else if offset = 8 \<and> (sz = 2 \<or> sz = 4) \<and> \<not> a64 \<or> offset = 12 \<and> (sz = 2 \<or> sz = 4) \<and> a64
         then let m = (if sz = 4 \<and> ext_msg_data_cap ctrl then 0xffffffff else 0xffff)
              in write_msi_reg i (mask_bits (msi_data cap ! i) (ucast val) m) cap
         else (cap, False))"

definition msi_write :: "('f, 'w) irqfd_ops \<Rightarrow> u64 \<Rightarrow> u8 \<Rightarrow> u64
    \<Rightarrow> ('f msi_cap \<times> 'w, 'c action, mem_error) op" where
  "msi_write irq offset sz val s =
     (let (cap, need_update) = write_msi offset sz val (fst s)
      in sbind (world_op (if need_update then map_err (\<lambda>e. MmioError (BoxHv e)) (update_msi irq cap) else sret ()))
           (\<lambda>_. sret ActNone) (cap, snd s))"

definition msi_set_next :: "u8 \<Rightarrow> 'f msi_cap \<Rightarrow> 'f msi_cap" where
  "msi_set_next val cap = cap\<lparr>msi_header := (msi_header cap)\<lparr>cap_next := val\<rparr>\<rparr>"

definition msi_reset :: "('f, 'w) irqfd_ops \<Rightarrow> ('f msi_cap \<times> 'w, unit, pci_error) op" where
  "msi_reset irq s =
     (let cap = (fst s)\<lparr>msi_control := set_bit_to 0 False (msi_control (fst s))\<rparr>
      in world_op (map_err (\<lambda>e. PciReset (BoxHv e)) (update_msi irq cap)) (cap, snd s))"

section \<open>MSI-X\<close>

definition msix_masked :: "u16 \<Rightarrow> bool" where "msix_masked c = bit c 14"
definition msix_enabled :: "u16 \<Rightarrow> bool" where "msix_enabled c = bit c 15"

definition msix_ctrl_new :: "u16 \<Rightarrow> u16" where "msix_ctrl_new len = len - 1"

definition msix_cap_offset_new :: "u32 \<Rightarrow> u8 \<Rightarrow> u32" where
  "msix_cap_offset_new offset bar = mask_bits offset (ucast bar) 7"

definition msix_cap_offset :: "u32 \<Rightarrow> u32" where "msix_cap_offset v = v AND NOT 7"
definition msix_cap_bar :: "u32 \<Rightarrow> u32" where "msix_cap_bar v = get_field 2 0 v"

record msix_cap =
  msix_header :: pci_cap_hdr
  msix_control :: u16
  msix_table_offset :: u32
  msix_pba_offset :: u32

definition msix_cap_bytes :: "msix_cap \<Rightarrow> u8 list" where
  "msix_cap_bytes cap = [cap_id (msix_header cap), cap_next (msix_header cap)] @ le_encode 2 (msix_control cap)
     @ le_encode 4 (msix_table_offset cap) @ le_encode 4 (msix_pba_offset cap)"

definition msix_size :: u64 where "msix_size = 12"

definition msix_read :: "msix_cap \<Rightarrow> u64 \<Rightarrow> u8 \<Rightarrow> u64" where
  "msix_read cap offset sz = zerocopy_read (msix_cap_bytes cap) offset sz"

definition msix_write :: "u64 \<Rightarrow> u8 \<Rightarrow> u64 \<Rightarrow> msix_cap \<Rightarrow> msix_cap" where
  "msix_write offset sz val cap =
     (if offset = 2 \<and> sz = 2
      then let control = ucast val :: u16
           in cap\<lparr>msix_control := set_bit_to 14 (msix_masked control)
                (set_bit_to 15 (msix_enabled control) (msix_control cap))\<rparr>
      else cap)"

definition msix_reset :: "msix_cap \<Rightarrow> msix_cap" where
  "msix_reset cap = cap\<lparr>msix_control := set_bit_to 14 False (set_bit_to 15 False (msix_control cap))\<rparr>"

definition msix_set_next :: "u8 \<Rightarrow> msix_cap \<Rightarrow> msix_cap" where
  "msix_set_next val cap = cap\<lparr>msix_header := (msix_header cap)\<lparr>cap_next := val\<rparr>\<rparr>"

section \<open>The MSI-X table\<close>

record msix_table_entry =
  te_addr_lo :: u32
  te_addr_hi :: u32
  te_data :: u32
  te_control :: u32

definition msix_table_entry_default :: msix_table_entry where
  "msix_table_entry_default = \<lparr>te_addr_lo = 0, te_addr_hi = 0, te_data = 0, te_control = 1\<rparr>"

text \<open>\<^verbatim>\<open>MsixTableMmioEntry\<close>: a plain entry, or one backed by an interrupt file descriptor.\<close>

datatype 'f msix_entry = Entry msix_table_entry | IrqFdEntry 'f

definition entry_get_addr_lo :: "('f, 'w) irqfd_ops \<Rightarrow> 'f msix_entry \<Rightarrow> ('w, u32, mem_error) op" where
  "entry_get_addr_lo irq e = (case e of Entry t \<Rightarrow> sret (te_addr_lo t) | IrqFdEntry f \<Rightarrow> map_err HvError (irq_get_addr_lo irq f))"

definition entry_get_addr_hi :: "('f, 'w) irqfd_ops \<Rightarrow> 'f msix_entry \<Rightarrow> ('w, u32, mem_error) op" where
  "entry_get_addr_hi irq e = (case e of Entry t \<Rightarrow> sret (te_addr_hi t) | IrqFdEntry f \<Rightarrow> map_err HvError (irq_get_addr_hi irq f))"

definition entry_get_data :: "('f, 'w) irqfd_ops \<Rightarrow> 'f msix_entry \<Rightarrow> ('w, u32, mem_error) op" where
  "entry_get_data irq e = (case e of Entry t \<Rightarrow> sret (te_data t) | IrqFdEntry f \<Rightarrow> map_err HvError (irq_get_data irq f))"

definition entry_get_masked :: "('f, 'w) irqfd_ops \<Rightarrow> 'f msix_entry \<Rightarrow> ('w, bool, mem_error) op" where
  "entry_get_masked irq e = (case e of Entry t \<Rightarrow> sret (bit (te_control t) 0)
     | IrqFdEntry f \<Rightarrow> map_err HvError (irq_get_masked irq f))"

text \<open>A setter changes the entry or calls the descriptor; \<open>get_mut(index)\<close> is an index into the table.\<close>

definition on_entry :: "(msix_table_entry \<Rightarrow> msix_table_entry \<times> 'a) \<Rightarrow> ('f \<Rightarrow> ('w, 'a, hv_error) op) \<Rightarrow> nat
    \<Rightarrow> ('f msix_entry list \<times> 'w, 'a, mem_error) op" where
  "on_entry upd call i s =
     (case fst s ! i of
        Entry t \<Rightarrow> (Ok (snd (upd t)), ((fst s)[i := Entry (fst (upd t))], snd s))
      | IrqFdEntry f \<Rightarrow> world_op (map_err HvError (call f)) s)"

definition entry_set_addr_lo :: "('f, 'w) irqfd_ops \<Rightarrow> u32 \<Rightarrow> nat \<Rightarrow> ('f msix_entry list \<times> 'w, unit, mem_error) op" where
  "entry_set_addr_lo irq val = on_entry (\<lambda>t. (t\<lparr>te_addr_lo := val\<rparr>, ())) (\<lambda>f. irq_set_addr_lo irq f val)"

definition entry_set_addr_hi :: "('f, 'w) irqfd_ops \<Rightarrow> u32 \<Rightarrow> nat \<Rightarrow> ('f msix_entry list \<times> 'w, unit, mem_error) op" where
  "entry_set_addr_hi irq val = on_entry (\<lambda>t. (t\<lparr>te_addr_hi := val\<rparr>, ())) (\<lambda>f. irq_set_addr_hi irq f val)"

definition entry_set_data :: "('f, 'w) irqfd_ops \<Rightarrow> u32 \<Rightarrow> nat \<Rightarrow> ('f msix_entry list \<times> 'w, unit, mem_error) op" where
  "entry_set_data irq val = on_entry (\<lambda>t. (t\<lparr>te_data := val\<rparr>, ())) (\<lambda>f. irq_set_data irq f val)"

definition entry_set_masked :: "('f, 'w) irqfd_ops \<Rightarrow> bool \<Rightarrow> nat \<Rightarrow> ('f msix_entry list \<times> 'w, bool, mem_error) op" where
  "entry_set_masked irq val =
     on_entry (\<lambda>t. (t\<lparr>te_control := set_bit_to 0 val (te_control t)\<rparr>, bit (te_control t) 0 \<noteq> val))
       (\<lambda>f. irq_set_masked irq f val)"

definition table_write_val :: "('f, 'w) irqfd_ops \<Rightarrow> u64 \<Rightarrow> u8 \<Rightarrow> u64
    \<Rightarrow> ('f msix_entry list \<times> 'w, bool, mem_error) op" where
  "table_write_val irq offset sz val s =
     (if sz \<noteq> 4 \<or> offset AND 3 \<noteq> 0 then (Ok False, s)
      else let v = ucast val :: u32; i = unat offset div 16; reg = unat offset mod 16
           in if length (fst s) \<le> i then (Ok False, s)
              else if reg = 0 then sbind (entry_set_addr_lo irq v i) (\<lambda>_. sret False) s
              else if reg = 4 then sbind (entry_set_addr_hi irq v i) (\<lambda>_. sret False) s
              else if reg = 8 then sbind (entry_set_data irq v i) (\<lambda>_. sret False) s
              else if reg = 12 then entry_set_masked irq (bit v 0) i s
              else (Panic, s))"

definition table_reset :: "'f msix_entry list \<Rightarrow> 'f msix_entry list" where
  "table_reset es = map (\<lambda>_. Entry msix_table_entry_default) es"

definition table_size :: "'f msix_entry list \<Rightarrow> u64" where
  "table_size es = of_nat (16 * length es)"

definition msix_table_read :: "('f, 'w) irqfd_ops \<Rightarrow> 'f msix_entry list \<Rightarrow> u64 \<Rightarrow> u8 \<Rightarrow> ('w, u64, mem_error) op" where
  "msix_table_read irq es offset sz w =
     (if sz \<noteq> 4 \<or> offset AND 3 \<noteq> 0 then (Ok 0, w)
      else let i = unat offset div 16; reg = unat offset mod 16
           in if length es \<le> i then (Ok 0, w)
              else if reg = 0 then sbind (entry_get_addr_lo irq (es ! i)) (\<lambda>v. sret (ucast v)) w
              else if reg = 4 then sbind (entry_get_addr_hi irq (es ! i)) (\<lambda>v. sret (ucast v)) w
              else if reg = 8 then sbind (entry_get_data irq (es ! i)) (\<lambda>v. sret (ucast v)) w
              else if reg = 12 then sbind (entry_get_masked irq (es ! i)) (\<lambda>b. sret (if b then 1 else 0)) w
              else (Panic, w))"

definition msix_table_write :: "('f, 'w) irqfd_ops \<Rightarrow> u64 \<Rightarrow> u8 \<Rightarrow> u64
    \<Rightarrow> ('f msix_entry list \<times> 'w, 'c action, mem_error) op" where
  "msix_table_write irq offset sz val = sbind (table_write_val irq offset sz val) (\<lambda>_. sret ActNone)"

section \<open>The null capability\<close>

record null_cap =
  null_next :: u8
  null_size :: u8

definition null_read :: "null_cap \<Rightarrow> u64 \<Rightarrow> u8 \<Rightarrow> u64" where
  "null_read cap offset sz =
     (let shift = min 63 (shl offset 3); val = shr (shl (ucast (null_next cap)) 8) (unat shift)
      in truncate_u64 val (ucast sz))"

definition null_set_next :: "u8 \<Rightarrow> null_cap \<Rightarrow> null_cap" where
  "null_set_next val cap = cap\<lparr>null_next := val\<rparr>"

section \<open>The capability list\<close>

record ('d, 'w, 'c) cap_ops = "('d, 'w, 'c) mmio_ops" +
  cap_set_next :: "'d \<Rightarrow> u8 \<Rightarrow> 'w \<Rightarrow> 'w"
  cap_reset :: "'d \<Rightarrow> ('w, unit, pci_error) op"

record 'd pci_cap_list =
  cap_inner :: "'d mmio_bus"

definition cap_list_new :: "'d pci_cap_list" where
  "cap_list_new = \<lparr>cap_inner = mmio_bus_new\<rparr>"

definition cap_list_is_empty :: "'d pci_cap_list \<Rightarrow> bool" where
  "cap_list_is_empty l = mmio_bus_is_empty (cap_inner l)"

definition cap_list_reset :: "('d, 'w, 'c) cap_ops \<Rightarrow> 'd pci_cap_list \<Rightarrow> ('w, unit, pci_error) op" where
  "cap_list_reset ops l = sforeach (\<lambda>(_, cap). cap_reset ops cap) (addressable_iter (bus_inner (cap_inner l)))"

definition cap_list_read :: "('d, 'w, 'c) cap_ops \<Rightarrow> 'd pci_cap_list \<Rightarrow> u64 \<Rightarrow> u8 \<Rightarrow> ('w, u64, mem_error) op" where
  "cap_list_read ops l offset sz = mmio_bus_read ops (cap_inner l) offset sz"

definition cap_list_write :: "('d, 'w, 'c) cap_ops \<Rightarrow> 'd pci_cap_list \<Rightarrow> u64 \<Rightarrow> u8 \<Rightarrow> u64
    \<Rightarrow> ('w, 'c action, mem_error) op" where
  "cap_list_write ops l offset sz val = mmio_bus_write ops (cap_inner l) offset sz val"

definition cap_list_size :: u64 where "cap_list_size = 4096"

text \<open>The loop of \<^verbatim>\<open>try_from\<close>: each capability is told where the next one is, 0 at the end.\<close>

fun cap_list_loop :: "('d, 'w, 'c) cap_ops \<Rightarrow> u64 \<Rightarrow> 'd list \<Rightarrow> 'd mmio_bus \<Rightarrow> ('w, 'd mmio_bus, pci_error) op" where
  "cap_list_loop ops ptr [] bus w = (Ok bus, w)"
| "cap_list_loop ops ptr (cap # caps) bus w =
     (let next = (if caps = [] then 0 else align_up (ptr + mmio_size ops cap) 2);
          w' = cap_set_next ops cap (ucast next) w
      in case mmio_bus_add ops bus ptr cap of
           Ok bus' \<Rightarrow> cap_list_loop ops next caps bus' w'
         | Err e \<Rightarrow> (Err (PciMemory e), w')
         | Panic \<Rightarrow> (Panic, w'))"

definition cap_list_try_from :: "('d, 'w, 'c) cap_ops \<Rightarrow> 'd list \<Rightarrow> ('w, 'd pci_cap_list, pci_error) op" where
  "cap_list_try_from ops caps =
     sbind (cap_list_loop ops 0x40 caps mmio_bus_new) (\<lambda>bus. sret \<lparr>cap_inner = bus\<rparr>)"

section \<open>Capabilities as one type\<close>

text \<open>
  The implementors of \<^verbatim>\<open>PciCap\<close> in this file behind one handle type. A handle is the number of
  the boxed capability and its size, which no method changes.
\<close>

datatype 'f std_cap = StdMsi "'f msi_cap" | StdMsix msix_cap | StdNull null_cap

type_synonym cap_ref = "nat \<times> u64"
type_synonym ('f, 'w) cap_world = "(nat \<Rightarrow> 'f std_cap) \<times> 'w"

definition std_size :: "'f std_cap \<Rightarrow> u64" where
  "std_size c = (case c of StdMsi m \<Rightarrow> msi_size m | StdMsix m \<Rightarrow> msix_size | StdNull n \<Rightarrow> ucast (null_size n))"

definition std_read :: "'f std_cap \<Rightarrow> u64 \<Rightarrow> u8 \<Rightarrow> u64" where
  "std_read c offset sz = (case c of StdMsi m \<Rightarrow> msi_read m offset sz
     | StdMsix m \<Rightarrow> msix_read m offset sz | StdNull n \<Rightarrow> null_read n offset sz)"

definition std_write :: "('f, 'w) irqfd_ops \<Rightarrow> u64 \<Rightarrow> u8 \<Rightarrow> u64 \<Rightarrow> ('f std_cap \<times> 'w, 'c action, mem_error) op" where
  "std_write irq offset sz val s = (case fst s of
       StdMsi m \<Rightarrow> (case msi_write irq offset sz val (m, snd s) of (r, (m', w)) \<Rightarrow> (r, (StdMsi m', w)))
     | StdMsix m \<Rightarrow> (Ok ActNone, (StdMsix (msix_write offset sz val m), snd s))
     | StdNull n \<Rightarrow> (Ok ActNone, s))"

definition std_set_next :: "u8 \<Rightarrow> 'f std_cap \<Rightarrow> 'f std_cap" where
  "std_set_next v c = (case c of StdMsi m \<Rightarrow> StdMsi (msi_set_next v m)
     | StdMsix m \<Rightarrow> StdMsix (msix_set_next v m) | StdNull n \<Rightarrow> StdNull (null_set_next v n))"

definition std_reset :: "('f, 'w) irqfd_ops \<Rightarrow> ('f std_cap \<times> 'w, unit, pci_error) op" where
  "std_reset irq s = (case fst s of
       StdMsi m \<Rightarrow> (case msi_reset irq (m, snd s) of (r, (m', w)) \<Rightarrow> (r, (StdMsi m', w)))
     | StdMsix m \<Rightarrow> (Ok (), (StdMsix (msix_reset m), snd s))
     | StdNull n \<Rightarrow> (Ok (), s))"

definition on_cap :: "nat \<Rightarrow> ('f std_cap \<times> 'w, 'a, 'e) op \<Rightarrow> (('f, 'w) cap_world, 'a, 'e) op" where
  "on_cap n f s = (case f (fst s n, snd s) of (r, (c, w)) \<Rightarrow> (r, ((fst s)(n := c), w)))"

definition std_cap_ops :: "('f, 'w) irqfd_ops \<Rightarrow> (cap_ref, ('f, 'w) cap_world, 'c) cap_ops" where
  "std_cap_ops irq = \<lparr>mmio_size = snd,
     mmio_read = (\<lambda>d offset sz s. (Ok (std_read (fst s (fst d)) offset sz), s)),
     mmio_write = (\<lambda>d offset sz val. on_cap (fst d) (std_write irq offset sz val)),
     cap_set_next = (\<lambda>d v s. ((fst s)(fst d := std_set_next v (fst s (fst d))), snd s)),
     cap_reset = (\<lambda>d. on_cap (fst d) (std_reset irq))\<rparr>"

section \<open>Walking the list\<close>

text \<open>Where \<^verbatim>\<open>try_from\<close> puts the capabilities, and how a driver walks them: byte 1 links to the next.\<close>

fun cap_offsets :: "('d \<Rightarrow> u64) \<Rightarrow> u64 \<Rightarrow> 'd list \<Rightarrow> u64 list" where
  "cap_offsets sz ptr [] = []"
| "cap_offsets sz ptr (c # cs) = ptr # cap_offsets sz (align_up (ptr + sz c) 2) cs"

fun cap_room :: "('d \<Rightarrow> u64) \<Rightarrow> 'd list \<Rightarrow> nat" where
  "cap_room sz [] = 0"
| "cap_room sz (c # cs) = unat (sz c) + 3 + cap_room sz cs"

definition next_link :: "('d, 'w, 'c) cap_ops \<Rightarrow> 'd pci_cap_list \<Rightarrow> 'w \<Rightarrow> u64 \<Rightarrow> u64 option" where
  "next_link ops l w ptr = (case fst (cap_list_read ops l (ptr + 1) 1 w) of Ok v \<Rightarrow> Some v | _ \<Rightarrow> None)"

fun cap_walk :: "(u64 \<Rightarrow> u64 option) \<Rightarrow> nat \<Rightarrow> u64 \<Rightarrow> u64 list option" where
  "cap_walk link 0 ptr = None"
| "cap_walk link (Suc n) ptr = (if ptr = 0 then Some []
     else case link ptr of None \<Rightarrow> None | Some p \<Rightarrow> map_option ((#) ptr) (cap_walk link n p))"

lemma length_cap_offsets [simp]: "length (cap_offsets sz ptr cs) = length cs"
  by (induction cs arbitrary: ptr) auto

lemma cap_walk_links:
  assumes "\<And>i. i < length ps \<Longrightarrow> ps ! i \<noteq> 0"
    and "\<And>i. i < length ps \<Longrightarrow> link (ps ! i) = Some (if Suc i < length ps then ps ! Suc i else 0)"
  shows "cap_walk link (Suc (length ps)) (if ps = [] then 0 else ps ! 0) = Some ps"
  using assms
proof (induction ps)
  case (Cons p ps)
  have "cap_walk link (Suc (length ps)) (if ps = [] then 0 else ps ! 0) = Some ps"
  proof (rule Cons.IH)
    show "ps ! i \<noteq> 0" if "i < length ps" for i using Cons.prems(1)[of "Suc i"] that by simp
    show "link (ps ! i) = Some (if Suc i < length ps then ps ! Suc i else 0)" if "i < length ps" for i
      using Cons.prems(2)[of "Suc i"] that by simp
  qed
  then show ?case using Cons.prems(1)[of 0] Cons.prems(2)[of 0] by (cases ps) auto
qed simp

lemma next_offset:
  fixes ptr n :: u64
  assumes "unat ptr + unat n + 3 \<le> 256"
  shows "unat ptr + unat n \<le> unat (align_up (ptr + n) 2)" "unat (align_up (ptr + n) 2) \<le> unat ptr + unat n + 3"
proof -
  have e: "unat (ptr + n) = unat ptr + unat n" using assms by (intro unat_plus_no_wrap) simp
  show "unat ptr + unat n \<le> unat (align_up (ptr + n) 2)" "unat (align_up (ptr + n) 2) \<le> unat ptr + unat n + 3"
    using align_up_ge[of 2 "ptr + n"] assms e by auto
qed

lemma cap_offsets_bounds:
  assumes "unat ptr + cap_room sz cs \<le> 256" "i < length cs"
  shows "unat ptr \<le> unat (cap_offsets sz ptr cs ! i) \<and>
    unat (cap_offsets sz ptr cs ! i) + unat (sz (cs ! i)) + 3 \<le> 256"
  using assms
proof (induction cs arbitrary: ptr i)
  case (Cons c cs)
  show ?case
  proof (cases i)
    case (Suc j)
    have n: "unat ptr + unat (sz c) \<le> unat (align_up (ptr + sz c) 2)"
      "unat (align_up (ptr + sz c) 2) \<le> unat ptr + unat (sz c) + 3"
      using next_offset[of ptr "sz c"] Cons.prems(1) by auto
    then show ?thesis using Cons.IH[of "align_up (ptr + sz c) 2" j] Cons.prems Suc by auto
  qed (use Cons.prems in simp)
qed simp

text \<open>
  What the list relies on: every capability links through its byte 1, which \<^verbatim>\<open>set_next\<close> writes
  for that capability only.
\<close>

locale linked_cap =
  fixes ops :: "('d, 'w, 'c) cap_ops" and apart :: "'d \<Rightarrow> 'd \<Rightarrow> bool"
  assumes link_set: "fst (mmio_read ops d 1 1 (cap_set_next ops d v w)) = Ok (ucast v)"
    and link_other: "apart d e \<Longrightarrow>
      fst (mmio_read ops d 1 1 (cap_set_next ops e v w)) = fst (mmio_read ops d 1 1 w)"
    and apart_sym: "apart d e \<Longrightarrow> apart e d"
begin

abbreviation link_of :: "'w \<Rightarrow> 'd \<Rightarrow> (u64, mem_error) outcome" where
  "link_of w d \<equiv> fst (mmio_read ops d 1 1 w)"

lemma loop_links:
  assumes "sorted_wrt apart cs" "\<forall>c \<in> set cs. 2 \<le> unat (mmio_size ops c)"
    and "bus_inv ops bus" "\<forall>(a, d) \<in> bus_devices bus. unat a + unat (mmio_size ops d) \<le> unat ptr"
    and "unat ptr + cap_room (mmio_size ops) cs \<le> 256"
  shows "\<exists>bus' w'. cap_list_loop ops ptr cs bus w = (Ok bus', w') \<and> bus_inv ops bus' \<and>
    bus_devices bus' = bus_devices bus \<union> set (zip (cap_offsets (mmio_size ops) ptr cs) cs) \<and>
    (\<forall>e. (\<forall>c \<in> set cs. apart e c) \<longrightarrow> link_of w' e = link_of w e) \<and>
    (\<forall>i < length cs. link_of w' (cs ! i) =
      Ok (if Suc i < length cs then cap_offsets (mmio_size ops) ptr cs ! Suc i else 0))"
  using assms
proof (induction cs arbitrary: ptr bus w)
  case (Cons c cs)
  let ?sz = "mmio_size ops"
  let ?n = "align_up (ptr + ?sz c) 2"
  let ?next = "if cs = [] then 0 else ?n"
  let ?w = "cap_set_next ops c (ucast ?next) w"
  have n: "unat ptr + unat (?sz c) \<le> unat ?n" "unat ?n \<le> unat ptr + unat (?sz c) + 3"
    using next_offset[of ptr "?sz c"] Cons.prems(5) by auto
  have c2: "2 \<le> unat (?sz c)" using Cons.prems(2) by simp
  have "\<exists>bus1. mmio_bus_add ops bus ptr c = Ok bus1"
    unfolding bus.add_accepts[OF Cons.prems(3)]
  proof (intro conjI ballI)
    show "slot_ok ?sz ptr c" using Cons.prems(5) c2 by (auto simp: slot_ok_def)
    fix e assume "e \<in> bus_devices bus"
    then have "unat (fst e) + unat (?sz (snd e)) \<le> unat ptr" using Cons.prems(4) by (cases e) auto
    then show "\<not> overlaps ?sz (ptr, c) e" by (auto simp: overlaps_def covers_def)
  qed
  then obtain bus1 where add: "mmio_bus_add ops bus ptr c = Ok bus1" ..
  have bus1: "bus_inv ops bus1" "bus_devices bus1 = insert (ptr, c) (bus_devices bus)"
    using bus.add_keeps[OF Cons.prems(3) add] bus.add_entries[OF Cons.prems(3) add] by auto
  have below: "\<forall>(a, d) \<in> bus_devices bus1. unat a + unat (?sz d) \<le> unat ?n"
    using Cons.prems(4) bus1(2) n(1) by fastforce
  have room: "unat ?n + cap_room ?sz cs \<le> 256" using Cons.prems(5) n(2) by simp
  have head: "cap_list_loop ops ptr (c # cs) bus w = cap_list_loop ops ?next cs bus1 ?w"
    using add by (simp add: Let_def)
  have link: "link_of ?w c = Ok ?next"
  proof -
    have "unat ?next < 256" using room c2 Cons.prems(5) n by (cases cs) auto
    then have "ucast (ucast ?next :: u8) = ?next"
      by (intro ucast_ucast_small) simp
    then show ?thesis using link_set[of c "ucast ?next" w] by simp
  qed
  show ?case
  proof (cases "cs = []")
    case True
    then show ?thesis using head bus1 link link_other by auto
  next
    case False
    obtain bus2 w2 where rest: "cap_list_loop ops ?n cs bus1 ?w = (Ok bus2, w2)" "bus_inv ops bus2"
      "bus_devices bus2 = bus_devices bus1 \<union> set (zip (cap_offsets ?sz ?n cs) cs)"
      and keep: "\<And>e. \<forall>c \<in> set cs. apart e c \<Longrightarrow> link_of w2 e = link_of ?w e"
      and links: "\<forall>i < length cs. link_of w2 (cs ! i) =
        Ok (if Suc i < length cs then cap_offsets ?sz ?n cs ! Suc i else 0)"
      using Cons.IH[OF _ _ bus1(1) below room, of ?w] Cons.prems(1,2) by auto
    have "link_of w2 c = Ok ?n" using keep[of c] link Cons.prems(1) False by simp
    moreover have "cap_offsets ?sz ?n cs ! 0 = ?n" using False by (cases cs) auto
    ultimately have all: "\<forall>i < length (c # cs). link_of w2 ((c # cs) ! i) =
        Ok (if Suc i < length (c # cs) then cap_offsets ?sz ptr (c # cs) ! Suc i else 0)"
      using links False by (auto simp: nth_Cons' less_Suc_eq_0_disj)
    have other: "link_of w2 e = link_of w e" if "\<forall>d \<in> set (c # cs). apart e d" for e
      using keep[of e] link_other[of e c] that by simp
    show ?thesis
      using head rest bus1(2) all other False by (intro exI[of _ bus2] exI[of _ w2]) auto
  qed
qed simp

lemma walk_visits_all:
  assumes "sorted_wrt apart cs" "\<forall>c \<in> set cs. 2 \<le> unat (mmio_size ops c)"
    and "0x40 + cap_room (mmio_size ops) cs \<le> 256" "cs \<noteq> []"
  shows "\<exists>l w'. cap_list_try_from ops cs w = (Ok l, w') \<and>
    bus_devices (cap_inner l) = set (zip (cap_offsets (mmio_size ops) 0x40 cs) cs) \<and>
    cap_walk (next_link ops l w') (Suc (length cs)) 0x40 = Some (cap_offsets (mmio_size ops) 0x40 cs)"
proof -
  let ?sz = "mmio_size ops" and ?ps = "cap_offsets (mmio_size ops) 0x40 cs"
  obtain bus w' where loop: "cap_list_loop ops 0x40 cs mmio_bus_new w = (Ok bus, w')" and inv: "bus_inv ops bus"
    and devs: "bus_devices bus = set (zip ?ps cs)"
    and links: "\<forall>i < length cs. link_of w' (cs ! i) = Ok (if Suc i < length cs then ?ps ! Suc i else 0)"
    using loop_links[OF assms(1,2) bus.empty_inv[of ops], of "0x40" w] assms(3) by (auto simp: bus.empty_entries)
  have bounds: "0x40 \<le> unat (?ps ! i)" "unat (?ps ! i) + unat (?sz (cs ! i)) + 3 \<le> 256" if "i < length cs" for i
    using cap_offsets_bounds[of "0x40" ?sz cs i] assms(3) that by auto
  have link: "next_link ops \<lparr>cap_inner = bus\<rparr> w' (?ps ! i) = Some (if Suc i < length ?ps then ?ps ! Suc i else 0)"
    if i: "i < length ?ps" for i
  proof -
    have one: "unat (?ps ! i + 1) = unat (?ps ! i) + 1"
      using bounds[of i] i unat_plus_no_wrap[of "?ps ! i" 1] by simp
    have "2 \<le> unat (?sz (cs ! i))" using assms(2) i by simp
    then have "covers ?sz (?ps ! i, cs ! i) (?ps ! i + 1)" using one by (simp add: covers_def)
    moreover have "(?ps ! i, cs ! i) \<in> bus_devices bus" using devs i by (auto simp: set_zip)
    ultimately have "addressable_search ?sz (bus_inner bus) (?ps ! i + 1) = Some (?ps ! i, cs ! i)"
      using bus.search_entries[OF inv] by blast
    then show ?thesis using links i by (simp add: next_link_def cap_list_read_def mmio_bus_read_def)
  qed
  have "cap_walk (next_link ops \<lparr>cap_inner = bus\<rparr> w') (Suc (length ?ps)) (if ?ps = [] then 0 else ?ps ! 0) = Some ?ps"
  proof (rule cap_walk_links[OF _ link])
    fix i assume "i < length ?ps"
    then show "?ps ! i \<noteq> 0" using bounds(1)[of i] by (auto simp: unat_eq_zero)
  qed
  moreover have "?ps \<noteq> []" "?ps ! 0 = 0x40" using assms(4) by (cases cs; simp)+
  ultimately show ?thesis using loop devs by (auto simp: cap_list_try_from_def)
qed

end

lemma std_read_link: "std_read (std_set_next v c) 1 1 = ucast v"
proof (cases c)
  case (StdNull n)
  have "null_read (null_set_next v n) 1 1 = ucast v"
    by (rule bit_word_eqI) (auto simp: null_read_def null_set_next_def truncate_u64_def shl_def shr_def bit_simps
        dest: bit_imp_le_length)
  then show ?thesis using StdNull by (simp add: std_read_def std_set_next_def)
qed (simp_all add: std_read_def std_set_next_def msi_read_def msi_set_next_def msi_hdr_bytes_def
    msix_read_def msix_set_next_def msix_cap_bytes_def zerocopy_read_def)

interpretation std: linked_cap "std_cap_ops irq" "\<lambda>d e. fst d \<noteq> fst e"
  for irq :: "('f, 'w) irqfd_ops"
  by unfold_locales (auto simp: std_cap_ops_def std_read_link)


declare cap_walk.simps [simp del]

lemma std_mmio_size: "mmio_size (std_cap_ops irq) = snd"
  by (simp add: std_cap_ops_def)

section \<open>Vectors\<close>

text \<open>When a vector is on, and the registers its descriptor gets.\<close>

definition vector_on :: "'f msi_cap \<Rightarrow> nat \<Rightarrow> bool" where
  "vector_on cap i \<longleftrightarrow> msi_enable (msi_control cap) \<and> i < 2 ^ unat (multi_msg (msi_control cap)) \<and>
     \<not> bit (msi_mask cap) (i mod 32)"

definition vector_regs :: "'f msi_cap \<Rightarrow> nat \<Rightarrow> irq_regs \<Rightarrow> irq_regs" where
  "vector_regs cap i r = (if vector_on cap i
     then \<lparr>r_addr_lo = ucast (fst (msi_addr_msg cap)), r_addr_hi = ucast (shr (fst (msi_addr_msg cap)) 32),
           r_data = snd (msi_addr_msg cap) OR of_nat i, r_masked = False\<rparr>
     else r\<lparr>r_masked := True\<rparr>)"

lemma multi_msg_le: "unat (multi_msg c) < 8"
  unfolding multi_msg_def get_field_def
  by (simp add: unsigned_take_bit_eq take_bit_nat_less_exp[of 3, simplified])

lemma shl_multi_msg: "unat (shl 1 (unat (multi_msg c)) :: u64) = 2 ^ unat (multi_msg c)"
  using multi_msg_le[of c] by (simp add: shl_def unat_two_power)

lemma and_shl_1: "0 < (m :: u32) AND shl 1 i \<longleftrightarrow> bit m (i mod 32)"
proof -
  have "shl 1 i = (2 :: u32) ^ (i mod 32)" by (simp add: shl_def)
  then have "m AND shl 1 i = 0 \<longleftrightarrow> \<not> bit m (i mod 32)" by (simp only: and_exp_eq_0_iff_not_bit)
  then show ?thesis using word_gt_0[of "m AND shl 1 i"] by auto
qed

context irqfd
begin

lemma update_vector_regs:
  assumes "live w f"
  shows "\<exists>w'. update_vector irq cap (i, f) w = (Ok (), w') \<and> live w' = live w \<and>
    regs w' = (regs w)(f := vector_regs cap i (regs w f))"
proof (cases "vector_on cap i")
  case True
  then have "update_vector irq cap (i, f) w =
      sbind (irq_set_masked irq f True) (\<lambda>_. sbind (irq_set_addr_hi irq f (ucast (shr (fst (msi_addr_msg cap)) 32))) (\<lambda>_.
      sbind (irq_set_addr_lo irq f (ucast (fst (msi_addr_msg cap)))) (\<lambda>_.
      sbind (irq_set_data irq f (snd (msi_addr_msg cap) OR of_nat i)) (\<lambda>_.
      sbind (irq_set_masked irq f False) (\<lambda>_. sret ()))))) w"
    by (simp add: update_vector_def vector_on_def shl_multi_msg and_shl_1 case_prod_beta Let_def)
  then show ?thesis using program_vector[OF assms] True by (simp add: vector_regs_def)
next
  case False
  obtain w' b where "irq_set_masked irq f True w = (Ok b, w')" "live w' = live w"
    "regs w' = (regs w)(f := (regs w f)\<lparr>r_masked := True\<rparr>)" using set_masked[OF assms, of True] by blast
  then show ?thesis
    using False by (auto simp: update_vector_def vector_on_def shl_multi_msg and_shl_1 case_prod_beta Let_def
        vector_regs_def)
qed

lemma update_vectors_regs:
  assumes "\<forall>f \<in> set fs. live w f" "distinct fs"
  shows "\<exists>w'. sforeach (update_vector irq cap) (enumerate n fs) w = (Ok (), w') \<and> live w' = live w \<and>
    (\<forall>i < length fs. regs w' (fs ! i) = vector_regs cap (n + i) (regs w (fs ! i))) \<and>
    (\<forall>f. f \<notin> set fs \<longrightarrow> regs w' f = regs w f)"
  using assms
proof (induction fs arbitrary: n w)
  case (Cons f fs)
  obtain w1 where w1: "update_vector irq cap (n, f) w = (Ok (), w1)" "live w1 = live w"
    "regs w1 = (regs w)(f := vector_regs cap n (regs w f))" using update_vector_regs[of w f cap n] Cons.prems by (meson list.set_intros(1))
  obtain w2 where w2: "sforeach (update_vector irq cap) (enumerate (Suc n) fs) w1 = (Ok (), w2)" "live w2 = live w1"
    "\<forall>i < length fs. regs w2 (fs ! i) = vector_regs cap (Suc n + i) (regs w1 (fs ! i))"
    "\<forall>g. g \<notin> set fs \<longrightarrow> regs w2 g = regs w1 g"
    using Cons.IH[of w1 "Suc n"] Cons.prems w1(2) by auto
  have "regs w1 (fs ! i) = regs w (fs ! i)" if "i < length fs" for i
    using w1(3) that Cons.prems(2) nth_mem[OF that] by auto
  then have "regs w2 ((f # fs) ! i) = vector_regs cap (n + i) (regs w ((f # fs) ! i))" if "i < length (f # fs)" for i
    using w2(3,4) w1(3) Cons.prems(2) that by (cases i) auto
  then show ?case using w1 w2 by (intro exI[of _ w2]) auto
qed simp

lemmas update_msi_regs = update_vectors_regs[where n = 0, folded update_msi_def]

end

text \<open>No write changes the capability bits, so the size that a handle carries stays true.\<close>

lemma write_msi_control_caps: "cap_size (msi_control (fst (write_msi_control c cap))) = cap_size (msi_control cap)"
proof -
  have "bit (msi_control (fst (write_msi_control c cap))) n = bit (msi_control cap) n" if "n = 7 \<or> n = 8" for n
    using that by (auto simp: write_msi_control_def Let_def bit_set_field)
  then show ?thesis by (simp add: cap_size_def addr_64_cap_def per_vector_masking_cap_def)
qed

lemma write_msi_caps: "msi_size (fst (write_msi off sz val cap)) = msi_size cap"
proof -
  have all: "f x = v \<Longrightarrow> f y = v \<Longrightarrow> f z = v \<Longrightarrow> f u = v \<Longrightarrow>
      f (if P then x else if Q then y else if R then z else u) = v"
    for f :: "'f msi_cap \<times> bool \<Rightarrow> u64" and x y z u v P Q R by simp
  show ?thesis
    unfolding write_msi_def Let_def
    by (rule all[of "\<lambda>p. msi_size (fst p)"]) (simp_all add: msi_size_def write_msi_control_caps write_msi_reg_def)
qed

lemma msi_write_registers:
  assumes "msi_write irq off sz val (cap, w) = (r, (cap', w'))"
  shows "cap' = fst (write_msi off sz val cap)"
proof -
  let ?f = "sbind (world_op (if snd (write_msi off sz val cap)
      then map_err (\<lambda>e. MmioError (BoxHv e)) (update_msi irq (fst (write_msi off sz val cap))) else sret ()))
      (\<lambda>_. sret ActNone)"
  have "keeps fst ?f" by (intro keeps_sbind keeps_world keeps_sret)
  moreover have "?f (fst (write_msi off sz val cap), w) = (r, (cap', w'))"
    using assms by (simp add: msi_write_def case_prod_beta Let_def)
  ultimately show ?thesis using keepsD by fastforce
qed

lemma std_write_size:
  assumes "std_write irq off sz val (c, w) = (r, (c', w'))"
  shows "std_size c' = std_size c"
proof (cases c)
  case (StdMsi m)
  with assms obtain m1 where "c' = StdMsi m1" "msi_write irq off sz val (m, w) = (r, (m1, w'))"
    by (auto simp: std_write_def split: prod.splits)
  then show ?thesis using StdMsi msi_write_registers[of irq off sz val m w r m1 w'] by (simp add: std_size_def write_msi_caps)
qed (use assms in \<open>auto simp: std_write_def std_size_def\<close>)


lemma aligned_mod: "off AND 3 = 0 \<longleftrightarrow> unat off mod 4 = 0" for off :: u64
proof -
  have "(3 :: u64) = mask 2" by (simp add: mask_eq_exp_minus_1)
  then have "unat (off AND 3) = unat off mod 4"
    by (simp only: flip: take_bit_eq_mask) (simp only: unsigned_take_bit_eq take_bit_eq_mod[of 2 "unat off"], simp)
  then show ?thesis by (metis unat_eq_zero)
qed

lemma aligned_cases:
  fixes off :: u64
  assumes "off AND 3 = 0"
  obtains "unat off mod 16 = 0" | "unat off mod 16 = 4" | "unat off mod 16 = 8" | "unat off mod 16 = 12"
proof -
  have "unat off mod 4 = 0" using assms by (simp only: aligned_mod)
  then have "unat off mod 16 \<in> {0, 4, 8, 12}" by (simp, presburger)
  then show thesis using that by auto
qed

text \<open>The words of a table entry as the driver reads them.\<close>

definition entry_word :: "msix_table_entry \<Rightarrow> nat \<Rightarrow> u64" where
  "entry_word t r = (if r = 0 then ucast (te_addr_lo t) else if r = 4 then ucast (te_addr_hi t)
     else if r = 8 then ucast (te_data t) else if bit (te_control t) 0 then 1 else 0)"

lemma table_read_word:
  assumes "off AND 3 = 0" "unat off div 16 < length es" "es ! (unat off div 16) = Entry t"
  shows "msix_table_read irq es off 4 w = (Ok (entry_word t (unat off mod 16)), w)"
  by (rule aligned_cases[OF assms(1)]) (use assms in \<open>simp_all add: msix_table_read_def Let_def entry_word_def
      entry_get_addr_lo_def entry_get_addr_hi_def entry_get_data_def entry_get_masked_def\<close>)

lemma table_write_word:
  assumes "off AND 3 = 0" "unat off div 16 < length es" "es ! (unat off div 16) = Entry t"
  obtains flipped t' where
    "table_write_val irq off 4 val (es, w) = (Ok flipped, (es[unat off div 16 := Entry t'], w))"
    "entry_word t' (unat off mod 16) = (if unat off mod 16 = 12 then val AND 1 else val AND 0xffffffff)"
    "\<And>r. r \<in> {0, 4, 8, 12} \<Longrightarrow> r \<noteq> unat off mod 16 \<Longrightarrow> entry_word t' r = entry_word t r"
    "flipped \<longleftrightarrow> unat off mod 16 = 12 \<and> bit (te_control t) 0 \<noteq> bit val 0"
proof -
  have low: "ucast (ucast val :: u32) = val AND 0xffffffff" for val :: u64
    unfolding low_word_mask by (rule bit_word_eqI) (auto simp: bit_simps)
  have one: "(if bit val 0 then 1 else 0) = val AND 1" for val :: u64
    by (simp add: and_one_eq bit_0 mod_2_eq_odd)
  note defs = table_write_val_def Let_def on_entry_def entry_set_addr_lo_def entry_set_addr_hi_def
    entry_set_data_def entry_set_masked_def sbind_def entry_word_def low one
  show thesis
  proof (rule aligned_cases[OF assms(1)])
    assume "unat off mod 16 = 0"
    then show thesis using assms by (intro that[of False "t\<lparr>te_addr_lo := ucast val\<rparr>"]) (auto simp: defs)
  next
    assume "unat off mod 16 = 4"
    then show thesis using assms by (intro that[of False "t\<lparr>te_addr_hi := ucast val\<rparr>"]) (auto simp: defs)
  next
    assume "unat off mod 16 = 8"
    then show thesis using assms by (intro that[of False "t\<lparr>te_data := ucast val\<rparr>"]) (auto simp: defs)
  next
    assume "unat off mod 16 = 12"
    moreover have "bit (ucast val :: u32) 0 = bit val 0" by (simp add: bit_simps)
    ultimately show thesis using assms
      by (intro that[of "bit (te_control t) 0 \<noteq> bit val 0" "t\<lparr>te_control := set_bit_to 0 (bit val 0) (te_control t)\<rparr>"])
        (auto simp: defs)
  qed
qed

section \<open>Properties\<close>

text \<open>
  C20. A driver that walks the capability list from offset 0x40 and follows the link in each
  capability's second byte visits every capability once, at the offset where the function
  decodes it, in order, and then finds the end of the list.
\<close>

theorem cap_list_walk_complete:
  fixes irq :: "('f, 'w) irqfd_ops" and cs :: "cap_ref list"
  assumes "cs \<noteq> []" and "distinct (map fst cs)" and "\<forall>c \<in> set cs. 2 \<le> unat (snd c)"
    and "0x40 + cap_room snd cs \<le> 256"
  shows "\<exists>l w'. cap_list_try_from (std_cap_ops irq :: (cap_ref, ('f, 'w) cap_world, 'c) cap_ops) cs w = (Ok l, w') \<and>
    bus_devices (cap_inner l) = set (zip (cap_offsets snd 0x40 cs) cs) \<and>
    cap_walk (next_link (std_cap_ops irq :: (cap_ref, ('f, 'w) cap_world, 'c) cap_ops) l w') (Suc (length cs)) 0x40 = Some (cap_offsets snd 0x40 cs)"
proof -
  have "sorted_wrt (\<lambda>d e. fst d \<noteq> fst e) cs" using assms(2) by (induction cs) auto
  then show ?thesis
    using std.walk_visits_all[of cs irq w] assms unfolding std_mmio_size by blast
qed

definition no_irq :: "(unit, unit) irqfd_ops" where
  "no_irq = \<lparr>irq_set_addr_lo = (\<lambda>_ _. sret ()), irq_get_addr_lo = (\<lambda>_. sret 0), irq_set_addr_hi = (\<lambda>_ _. sret ()),
     irq_get_addr_hi = (\<lambda>_. sret 0), irq_set_data = (\<lambda>_ _. sret ()), irq_get_data = (\<lambda>_. sret 0),
     irq_set_masked = (\<lambda>_ _. sret False), irq_get_masked = (\<lambda>_. sret True)\<rparr>"

definition two_caps :: "(unit, unit) cap_world" where
  "two_caps = ((\<lambda>n. if n = 0 then StdMsi (msi_new 0x80 [()]) else StdNull \<lparr>null_next = 0, null_size = 6\<rparr>), ())"

theorem cap_list_walk_complete_witness:
  "\<exists>l w'. cap_list_try_from (std_cap_ops no_irq :: (cap_ref, (unit, unit) cap_world, unit) cap_ops)
       [(0, 16), (1, 6), (2, 6)] two_caps = (Ok l, w') \<and>
     bus_devices (cap_inner l) = {(0x40, (0, 16)), (0x50, (1, 6)), (0x58, (2, 6))} \<and>
     cap_walk (next_link (std_cap_ops no_irq :: (cap_ref, (unit, unit) cap_world, unit) cap_ops) l w')
       (Suc (Suc (Suc (Suc 0)))) 0x40 = Some [0x40, 0x50, 0x58]"
  using cap_list_walk_complete[of "[(0, 16), (1, 6), (2, 6)]" no_irq two_caps, where ?'c = unit]
  by (simp add: align_up_def shl_def)

text \<open>
  C32. The MSI-X table stores what the driver writes: an aligned word written to a plain entry
  is read back (of the control word, the mask bit), no other word of the table changes, and the
  write reports a change exactly when it flips the mask bit.
\<close>

theorem msix_table_roundtrip:
  assumes "off AND 3 = 0" and "unat off div 16 < length es" and "es ! (unat off div 16) = Entry t"
  shows "\<exists>flipped es'. table_write_val irq off 4 val (es, w) = (Ok flipped, (es', w)) \<and>
    msix_table_read irq es' off 4 w
      = (Ok (if unat off mod 16 = 12 then val AND 1 else val AND 0xffffffff), w) \<and>
    (\<forall>off'. off' \<noteq> off \<and> off' AND 3 = 0 \<longrightarrow> msix_table_read irq es' off' 4 w = msix_table_read irq es off' 4 w) \<and>
    (flipped \<longleftrightarrow> unat off mod 16 = 12 \<and> bit (te_control t) 0 \<noteq> bit val 0)"
proof -
  let ?i = "unat off div 16"
  obtain flipped t' where w: "table_write_val irq off 4 val (es, w) = (Ok flipped, (es[?i := Entry t'], w))"
    and word: "entry_word t' (unat off mod 16) = (if unat off mod 16 = 12 then val AND 1 else val AND 0xffffffff)"
    and other: "\<And>r. r \<in> {0, 4, 8, 12} \<Longrightarrow> r \<noteq> unat off mod 16 \<Longrightarrow> entry_word t' r = entry_word t r"
    and flip: "flipped \<longleftrightarrow> unat off mod 16 = 12 \<and> bit (te_control t) 0 \<noteq> bit val 0"
    by (rule table_write_word[OF assms, where irq = irq and val = val and w = w]) (rule that)
  have rest: "msix_table_read irq (es[?i := Entry t']) off' 4 w = msix_table_read irq es off' 4 w"
    if off': "off' \<noteq> off" "off' AND 3 = 0" for off'
  proof (cases "unat off' div 16 = ?i")
    case True
    have "unat off' mod 16 \<noteq> unat off mod 16"
    proof
      assume "unat off' mod 16 = unat off mod 16"
      then have "unat off' = unat off"
        using True by (metis div_mult_mod_eq)
      then have "off' = off" by (rule unsigned_word_eqI)
      then show False using off'(1) by simp
    qed
    moreover have "unat off' mod 16 \<in> {0, 4, 8, 12}" by (rule aligned_cases[OF off'(2)]) auto
    ultimately have "entry_word t' (unat off' mod 16) = entry_word t (unat off' mod 16)" by (intro other)
    then show ?thesis
      using True assms(2,3) table_read_word[OF off'(2), of "es[?i := Entry t']" t' irq w]
        table_read_word[OF off'(2), of es t irq w] by simp
  qed (simp add: msix_table_read_def Let_def)
  have reread: "msix_table_read irq (es[?i := Entry t']) off 4 w = (Ok (entry_word t' (unat off mod 16)), w)"
    using table_read_word[OF assms(1), of "es[?i := Entry t']" t' irq w] assms(2) by simp
  show ?thesis
    by (rule exI[of _ flipped], rule exI[of _ "es[?i := Entry t']"], intro conjI allI impI; (elim conjE)?)
      (use w word flip reread rest in \<open>simp_all only:\<close>)
qed

theorem msix_table_roundtrip_witness:
  "\<exists>flipped es'. table_write_val no_irq 0x1c 4 0 ([Entry msix_table_entry_default, Entry msix_table_entry_default], ())
      = (Ok flipped, (es', ())) \<and> msix_table_read no_irq es' 0x1c 4 () = (Ok 0, ()) \<and> flipped"
  using msix_table_roundtrip[of "0x1c" "[Entry msix_table_entry_default, Entry msix_table_entry_default]"
      msix_table_entry_default no_irq 0 "()"]
  by (auto simp: msix_table_entry_default_def)

end
