(* ===== verification/Pci_Segment.thy ===== *)
theory Pci_Segment
  imports Pci_Cap "HOL-Library.Product_Lexorder"
begin

text \<open>
  The rest of the PCI layer: \<^verbatim>\<open>EmulatedConfig\<close> of \<^verbatim>\<open>alioth/src/pci/config.rs\<close>, the segment with its
  devices and the assignment of BAR addresses (\<^verbatim>\<open>segment.rs\<close>), the port-based access and the bus
  (\<^verbatim>\<open>bus.rs\<close>), and the two devices of \<^verbatim>\<open>host_bridge.rs\<close> and \<^verbatim>\<open>pvpanic.rs\<close>.

  A device (\<^verbatim>\<open>Arc<dyn Pci>\<close>) is a handle \<open>'p\<close>. Its header data lives behind a lock that both the
  device and the segment hold, so resource assignment works on a store from handles to
  \<open>header_data\<close>. The iteration order of a hash map is unspecified: operations that iterate take
  the keys in some order, and what is proved holds for every order.
\<close>

section \<open>Configuration space of a function\<close>

record ('d, 'k, 'q) emulated_config =
  ec_header :: "('d, 'k) emulated_header"
  ec_caps :: "'q pci_cap_list"

definition config_read :: "('q, 'w, ('d, 'k) pci_callback) cap_ops \<Rightarrow> ('d, 'k, 'q) emulated_config \<Rightarrow> u64 \<Rightarrow> u8
    \<Rightarrow> ('w, u64, mem_error) op" where
  "config_read ops cfg offset sz =
     (if offset < 0x40 then sret (header_read (ec_header cfg) offset sz)
      else cap_list_read ops (ec_caps cfg) offset sz)"

definition config_write :: "('q, 'w, ('d, 'k) pci_callback) cap_ops \<Rightarrow> u64 \<Rightarrow> u8 \<Rightarrow> u64
    \<Rightarrow> (('d, 'k, 'q) emulated_config \<times> 'w, ('d, 'k) pci_callback action, mem_error) op" where
  "config_write ops offset sz val s =
     (if offset < 0x40
      then case header_write offset sz val (ec_header (fst s)) of
             (r, h) \<Rightarrow> (r, ((fst s)\<lparr>ec_header := h\<rparr>, snd s))
      else world_op (cap_list_write ops (ec_caps (fst s)) offset sz val) s)"

definition config_size :: u64 where "config_size = 4096"

definition config_new_device :: "('d, 'v, 'c, 'z) mmio_ops_scheme \<Rightarrow> (u8 \<Rightarrow> 'k) \<Rightarrow> device_header
    \<Rightarrow> ('d, 'k) pci_bar list \<Rightarrow> 'q pci_cap_list \<Rightarrow> ('d, 'k, 'q) emulated_config" where
  "config_new_device env mk_cb header pci_bars caps =
     (let header' = (if cap_list_is_empty caps then header
            else header\<lparr>h_common := (h_common header)\<lparr>h_status := h_status (h_common header) OR STATUS_CAP\<rparr>,
                        h_capability_pointer := 0x40\<rparr>)
      in \<lparr>ec_header = emulated_header_new env mk_cb header' pci_bars, ec_caps = caps\<rparr>)"

definition config_reset :: "('q, 'w, ('d, 'k) pci_callback) cap_ops
    \<Rightarrow> (('d, 'k, 'q) emulated_config \<times> 'w, unit, pci_error) op" where
  "config_reset ops s =
     world_op (cap_list_reset ops (ec_caps (fst s))) ((fst s)\<lparr>ec_header := header_reset (ec_header (fst s))\<rparr>, snd s)"

section \<open>The segment\<close>

text \<open>
  The methods of a device that the segment calls. The placeholder (\<^verbatim>\<open>EmptyDevice\<close>) reserves a
  number and has no configuration space: \<^verbatim>\<open>config\<close> and \<^verbatim>\<open>reset\<close> are unreachable for it.
\<close>

record ('p, 'w, 'c) pci_ops =
  pci_config_read :: "'p \<Rightarrow> u64 \<Rightarrow> u8 \<Rightarrow> ('w, u64, mem_error) op"
  pci_config_write :: "'p \<Rightarrow> u64 \<Rightarrow> u8 \<Rightarrow> u64 \<Rightarrow> ('w, 'c action, mem_error) op"
  pci_reset :: "'p \<Rightarrow> ('w, unit, pci_error) op"
  pci_config_reset :: "'p \<Rightarrow> ('w, unit, pci_error) op"

datatype 'p seg_dev = Placeholder | Dev 'p

record 'p pci_segment =
  seg_devices :: "u16 \<Rightarrow> 'p seg_dev option"
  seg_next_bdf :: u16

definition segment_new :: "'p pci_segment" where
  "segment_new = \<lparr>seg_devices = Map.empty, seg_next_bdf = bdf_new 0 0 0\<rparr>"

definition max_bus :: "u16 list \<Rightarrow> u8 option" where
  "max_bus keys = (if keys = [] then None else Some (fold max (map bdf_bus keys) 0))"

text \<open>\<^verbatim>\<open>insert\<close> gives back what was there; a real device is put back and the new one returned.\<close>

definition segment_add :: "u16 \<Rightarrow> 'p seg_dev \<Rightarrow> 'p pci_segment \<Rightarrow> 'p seg_dev option \<times> 'p pci_segment" where
  "segment_add bdf dev seg =
     (let seg1 = seg\<lparr>seg_devices := (seg_devices seg)(bdf \<mapsto> dev)\<rparr>
      in case seg_devices seg bdf of
           Some exist_dev \<Rightarrow>
             (if exist_dev = Placeholder then (None, seg1)
              else (Some dev, seg1\<lparr>seg_devices := (seg_devices seg1)(bdf \<mapsto> exist_dev)\<rparr>))
         | None \<Rightarrow> (None, seg1))"

text \<open>The search for a free number may only end when it is back where it began.\<close>

partial_function (option) reserve_loop :: "u16 \<Rightarrow> 'p pci_segment \<Rightarrow> (u16 option \<times> 'p pci_segment) option" where
  "reserve_loop init seg =
     (let bdf = seg_next_bdf seg; (r, seg') = segment_add bdf Placeholder (seg\<lparr>seg_next_bdf := bdf + 8\<rparr>)
      in case r of
           None \<Rightarrow> Some (Some bdf, seg')
         | Some _ \<Rightarrow> if seg_next_bdf seg' = init then Some (None, seg') else reserve_loop init seg')"

definition segment_reserve :: "u16 option \<Rightarrow> 'p pci_segment \<Rightarrow> (u16 option \<times> 'p pci_segment) option" where
  "segment_reserve bdf seg = (case bdf of
       Some b \<Rightarrow> (case segment_add b Placeholder seg of
           (None, seg') \<Rightarrow> Some (Some b, seg') | (Some _, seg') \<Rightarrow> Some (None, seg'))
     | None \<Rightarrow> reserve_loop (seg_next_bdf seg) seg)"

definition reset_device :: "('p, 'w, 'c) pci_ops \<Rightarrow> 'p seg_dev \<Rightarrow> ('w, unit, pci_error) op" where
  "reset_device ops d = (case d of
       Placeholder \<Rightarrow> (\<lambda>w. (Panic, w))
     | Dev p \<Rightarrow> sbind (pci_reset ops p) (\<lambda>_. pci_config_reset ops p))"

definition segment_reset :: "('p, 'w, 'c) pci_ops \<Rightarrow> u16 list \<Rightarrow> 'p pci_segment \<Rightarrow> ('w, unit, pci_error) op" where
  "segment_reset ops keys seg =
     sforeach (\<lambda>bdf. case seg_devices seg bdf of None \<Rightarrow> sret () | Some d \<Rightarrow> reset_device ops d) keys"

definition segment_size :: u64 where "segment_size = 256 * 32 * 8 * 4096"

definition segment_read :: "('p, 'w, 'c) pci_ops \<Rightarrow> 'p pci_segment \<Rightarrow> u64 \<Rightarrow> u8 \<Rightarrow> ('w, u64, mem_error) op" where
  "segment_read ops seg offset sz w =
     (case seg_devices seg (ucast (shr offset 12)) of
        Some (Dev p) \<Rightarrow> pci_config_read ops p (offset AND 0xfff) sz w
      | Some Placeholder \<Rightarrow> (Panic, w)
      | None \<Rightarrow> (Ok (- 1), w))"

definition segment_write :: "('p, 'w, 'c) pci_ops \<Rightarrow> 'p pci_segment \<Rightarrow> u64 \<Rightarrow> u8 \<Rightarrow> u64
    \<Rightarrow> ('w, 'c action, mem_error) op" where
  "segment_write ops seg offset sz val w =
     (case seg_devices seg (ucast (shr offset 12)) of
        Some (Dev p) \<Rightarrow> pci_config_write ops p (offset AND 0xfff) sz val w
      | Some Placeholder \<Rightarrow> (Panic, w)
      | None \<Rightarrow> (Ok ActNone, w))"

section \<open>Assigning BAR addresses\<close>

text \<open>An element of a BAR list: number, device, index of the BAR, size.\<close>

record 'p bar_item =
  bi_bdf :: u16
  bi_dev :: 'p
  bi_index :: nat
  bi_size :: u64

text \<open>Which of the four lists a BAR goes to; 64-bit non-prefetchable memory is unreachable.\<close>

definition bar_kind :: "u32 \<Rightarrow> nat option" where
  "bar_kind val =
     (if val AND BAR_IO = BAR_IO then Some 0
      else if val AND (BAR_MEM64 OR BAR_PREFETCHABLE) = BAR_MEM64 OR BAR_PREFETCHABLE then Some 3
      else if val AND (BAR_MEM64 OR BAR_PREFETCHABLE) = BAR_MEM64 then None
      else if val AND BAR_PREFETCHABLE = BAR_PREFETCHABLE then Some 2
      else Some 1)"

definition push_item :: "u32 \<Rightarrow> 'p bar_item \<Rightarrow> 'p bar_item list list \<Rightarrow> ('p bar_item list list, mem_error) outcome" where
  "push_item val item bls = (case bar_kind val of
       None \<Rightarrow> Panic | Some k \<Rightarrow> Ok (bls[k := bls ! k @ [item]]))"

text \<open>The loop over the BARs of one device.\<close>

function scan_bars :: "header_data \<Rightarrow> u16 \<Rightarrow> 'p \<Rightarrow> nat \<Rightarrow> 'p bar_item list list
    \<Rightarrow> ('p bar_item list list, mem_error) outcome" where
  "scan_bars hdr bdf dev index bls =
     (if 6 \<le> index then Ok bls
      else obind (get_bar hdr index) (\<lambda>(val, m).
        let wide = (val AND BAR_MEM64 = BAR_MEM64)
        in obind (if wide then obind (get_bar hdr (Suc index)) (\<lambda>(_, hi). Ok (ucast m OR shl (ucast hi) 32))
                  else Ok (ucast m)) (\<lambda>m64 :: u64.
           obind (if m64 = 0 then Ok bls
                  else push_item val \<lparr>bi_bdf = bdf, bi_dev = dev, bi_index = index,
                         bi_size = shl 1 (trailing_zeros m64)\<rparr> bls)
             (\<lambda>bls'. scan_bars hdr bdf dev (if wide then Suc (Suc index) else Suc index) bls'))))"
  by pat_completeness auto
termination
  by (relation "measure (\<lambda>(hdr, bdf, dev, index, bls). 6 - index)") auto

declare scan_bars.simps [simp del]

text \<open>The loop over the devices.\<close>

fun scan_devices :: "('p \<Rightarrow> header_data) \<Rightarrow> 'p pci_segment \<Rightarrow> u16 list \<Rightarrow> 'p bar_item list list
    \<Rightarrow> ('p bar_item list list, mem_error) outcome" where
  "scan_devices hs seg [] bls = Ok bls"
| "scan_devices hs seg (bdf # keys) bls = (case seg_devices seg bdf of
       None \<Rightarrow> scan_devices hs seg keys bls
     | Some Placeholder \<Rightarrow> Panic
     | Some (Dev p) \<Rightarrow> obind (scan_bars (hs p) bdf p 0 bls) (scan_devices hs seg keys))"

definition item_key :: "'p bar_item \<Rightarrow> u64 \<times> u16 \<times> nat" where
  "item_key item = (- 1 - bi_size item, bi_bdf item, bi_index item)"

text \<open>The loop that places the BARs of one list into its window and writes the headers.\<close>

fun assign_list :: "u64 \<Rightarrow> u64 \<Rightarrow> 'p bar_item list \<Rightarrow> ('p \<Rightarrow> header_data, unit, mem_error) op" where
  "assign_list endv addr [] hs = (Ok (), hs)"
| "assign_list endv addr (item # items) hs =
     (let n = bi_size item; p = bi_dev item; aligned_addr = align_up addr (trailing_zeros n)
      in if endv < aligned_addr + n then assign_list endv addr items hs
         else case set_bar (bi_index item) (ucast aligned_addr) (hs p) of
             Ok (_, h1) \<Rightarrow>
               (if 0xffffffff < aligned_addr
                then case set_bar (Suc (bi_index item)) (ucast (shr aligned_addr 32)) h1 of
                       Ok (_, h2) \<Rightarrow> assign_list endv (aligned_addr + n) items (hs(p := h2))
                     | Err e \<Rightarrow> (Err e, hs(p := h1))
                     | Panic \<Rightarrow> (Panic, hs(p := h1))
                else assign_list endv (aligned_addr + n) items (hs(p := h1)))
           | Err e \<Rightarrow> (Err e, hs)
           | Panic \<Rightarrow> (Panic, hs))"

definition assign_resources :: "u16 list \<Rightarrow> 'p pci_segment \<Rightarrow> (u64 \<times> u64) list
    \<Rightarrow> ('p \<Rightarrow> header_data, unit, mem_error) op" where
  "assign_resources keys seg resources hs =
     (case scan_devices hs seg keys [[], [], [], []] of
        Ok bls \<Rightarrow>
          sforeach (\<lambda>(items, (start, endv)). assign_list endv start items)
            (zip (map (sort_key item_key) bls) resources) hs
      | Err e \<Rightarrow> (Err e, hs)
      | Panic \<Rightarrow> (Panic, hs))"

section \<open>Access through ports\<close>

definition address_enabled :: "u32 \<Rightarrow> bool" where "address_enabled a = bit a 31"

definition to_ecam_addr :: "u32 \<Rightarrow> u64" where
  "to_ecam_addr a = (let v = ucast a in shl (v AND 0xffff00) 4 OR (v AND 0xfc))"

record 'p pci_io_bus =
  iob_address :: u32
  iob_segment :: "'p pci_segment"

definition io_bus_read :: "('p, 'w, 'c) pci_ops \<Rightarrow> 'p pci_io_bus \<Rightarrow> u64 \<Rightarrow> u8 \<Rightarrow> ('w, u64, mem_error) op" where
  "io_bus_read ops b offset sz w =
     (if offset = 0 then (Ok (if sz = 4 then ucast (iob_address b) else 0), w)
      else if 4 \<le> offset \<and> offset \<le> 7
      then if address_enabled (iob_address b)
           then segment_read ops (iob_segment b) (to_ecam_addr (iob_address b) OR (offset AND 3)) sz w
           else (Ok 0, w)
      else (Ok 0, w))"

definition io_bus_write :: "('p, 'w, 'c) pci_ops \<Rightarrow> u64 \<Rightarrow> u8 \<Rightarrow> u64
    \<Rightarrow> ('p pci_io_bus \<times> 'w, 'c action, mem_error) op" where
  "io_bus_write ops offset sz val s =
     (let b = fst s
      in if offset = 0 then (Ok ActNone, (if sz = 4 then b\<lparr>iob_address := ucast val\<rparr> else b, snd s))
         else if 4 \<le> offset \<and> offset \<le> 7
         then if address_enabled (iob_address b)
              then world_op (segment_write ops (iob_segment b)
                     (to_ecam_addr (iob_address b) OR (offset AND 3)) sz val) s
              else (Ok ActNone, s)
         else (Ok ActNone, s))"

definition io_bus_size :: u64 where "io_bus_size = 8"

text \<open>\<^verbatim>\<open>PciBus::new\<close> of the x86-64 build puts the host bridge at number 0.\<close>

definition pci_bus_new :: "'p \<Rightarrow> 'p pci_io_bus" where
  "pci_bus_new host_bridge =
     \<lparr>iob_address = 0, iob_segment = snd (segment_add (bdf_new 0 0 0) (Dev host_bridge) segment_new)\<rparr>"

section \<open>Host bridge and panic device\<close>

definition host_bridge_header :: device_header where
  "host_bridge_header = device_header_default\<lparr>h_common := common_header_default\<lparr>h_vendor := 0x1022,
     h_device := 0x1480, h_class := 6, h_subclass := 0, h_header_type := HEADER_DEVICE\<rparr>\<rparr>"

definition host_bridge_new :: "('d, 'v, 'c, 'z) mmio_ops_scheme \<Rightarrow> (u8 \<Rightarrow> 'k) \<Rightarrow> ('d, 'k, 'q) emulated_config" where
  "host_bridge_new env mk_cb = config_new_device env mk_cb host_bridge_header (replicate 6 BarEmpty) cap_list_new"

definition PVPANIC_BAR_SIZE :: u64 where "PVPANIC_BAR_SIZE = 0x1000"

text \<open>The bits \<^verbatim>\<open>PANICKED\<close> and \<^verbatim>\<open>CRASH_LOADED\<close>.\<close>

definition pvpanic_bar_read :: "u64 \<Rightarrow> u8 \<Rightarrow> u64" where "pvpanic_bar_read offset sz = 1 OR 2"

definition pvpanic_bar_write :: "u64 \<Rightarrow> u8 \<Rightarrow> u64 \<Rightarrow> 'c action" where
  "pvpanic_bar_write offset sz val = ActShutdown"

definition pvpanic_header :: device_header where
  "pvpanic_header = device_header_default\<lparr>h_common := common_header_default\<lparr>h_vendor := 0x1b36,
     h_device := 0x11, h_revision := 1, h_header_type := HEADER_DEVICE, h_class := 8, h_subclass := 0x80\<rparr>,
     h_bars := [BAR_MEM64 OR BAR_PREFETCHABLE, 0, 0, 0, 0, 0]\<rparr>"

definition pvpanic_new :: "('d, 'v, 'c, 'z) mmio_ops_scheme \<Rightarrow> (u8 \<Rightarrow> 'k) \<Rightarrow> 'd \<Rightarrow> ('d, 'k, 'q) emulated_config" where
  "pvpanic_new env mk_cb bar =
     config_new_device env mk_cb pvpanic_header
       ((replicate 6 BarEmpty)[0 := BarMem (with_emulated env bar RegHidden)]) cap_list_new"

section \<open>Reserving a number\<close>

definition occupied :: "'p pci_segment \<Rightarrow> u16 \<Rightarrow> bool" where
  "occupied seg bdf = (case seg_devices seg bdf of Some (Dev _) \<Rightarrow> True | _ \<Rightarrow> False)"

lemma segment_add_cases:
  "segment_add bdf dev seg = (if occupied seg bdf then (Some dev, seg)
     else (None, seg\<lparr>seg_devices := (seg_devices seg)(bdf \<mapsto> dev)\<rparr>))"
  by (cases seg) (auto simp: segment_add_def occupied_def Let_def map_upd_triv split: option.splits seg_dev.splits)

lemma occupied_next [simp]: "occupied (seg\<lparr>seg_next_bdf := b\<rparr>) = occupied seg"
  by (rule ext) (simp add: occupied_def)

text \<open>Slot \<open>k\<close> of the search is \<open>8 * k\<close> numbers after its start; after 8192 of them it is back.\<close>

definition slot_nr :: "u16 \<Rightarrow> nat \<Rightarrow> u16" where
  "slot_nr init k = init + 8 * of_nat k"

lemma slot_nr_Suc: "slot_nr init (Suc k) = slot_nr init k + 8"
  by (simp add: slot_nr_def algebra_simps)

lemma slot_nr_start: "k \<le> 8192 \<Longrightarrow> slot_nr init k = init \<longleftrightarrow> k = 0 \<or> k = 8192"
proof -
  assume k: "k \<le> 8192"
  have "slot_nr init k = init \<longleftrightarrow> of_nat (8 * k) = (0 :: u16)" by (simp add: slot_nr_def)
  also have "\<dots> \<longleftrightarrow> 2 ^ 16 dvd 8 * k" by (simp only: word_of_nat_eq_0_iff) simp
  also have "\<dots> \<longleftrightarrow> k = 0 \<or> k = 8192"
  proof
    assume "2 ^ 16 dvd 8 * k"
    then obtain c where "8 * k = 65536 * c" by (auto elim: dvdE)
    then have "k = 8192 * c" by simp
    then show "k = 0 \<or> k = 8192" using k by (cases c) auto
  qed auto
  finally show ?thesis .
qed

lemma reserve_loop_first:
  assumes "k < 8192" "\<forall>j<k. occupied seg (slot_nr init j)" "seg_next_bdf seg = slot_nr init k"
  shows "\<exists>r seg'. reserve_loop init seg = Some (r, seg') \<and> (case r of
      Some bdf \<Rightarrow> \<exists>i<8192. bdf = slot_nr init i \<and> \<not> occupied seg bdf \<and> (\<forall>j<i. occupied seg (slot_nr init j)) \<and>
        seg_devices seg' = (seg_devices seg)(bdf \<mapsto> Placeholder) \<and> seg_next_bdf seg' = bdf + 8
    | None \<Rightarrow> (\<forall>j<8192. occupied seg (slot_nr init j)) \<and> seg_devices seg' = seg_devices seg)"
  using assms
proof (induction "8192 - k" arbitrary: k seg)
  case (Suc n)
  let ?b = "slot_nr init k" and ?seg = "seg\<lparr>seg_next_bdf := slot_nr init k + 8\<rparr>"
  show ?case
  proof (cases "occupied seg ?b")
    case False
    then have "reserve_loop init seg = Some (Some ?b, ?seg\<lparr>seg_devices := (seg_devices seg)(?b \<mapsto> Placeholder)\<rparr>)"
      using Suc.prems(3) by (subst reserve_loop.simps) (simp add: segment_add_cases Let_def)
    then show ?thesis using False Suc.prems by auto
  next
    case occ: True
    then have all: "\<forall>j<Suc k. occupied seg (slot_nr init j)" using Suc.prems(2) by (auto simp: less_Suc_eq)
    have step: "reserve_loop init seg = (if ?b + 8 = init then Some (None, ?seg) else reserve_loop init ?seg)"
      using occ Suc.prems(3) by (subst reserve_loop.simps) (simp add: segment_add_cases Let_def)
    show ?thesis
    proof (cases "Suc k = 8192")
      case True
      then have "?b + 8 = init" using slot_nr_start[of 8192 init] by (simp flip: slot_nr_Suc)
      then show ?thesis using step all True by simp
    next
      case False
      then have k: "Suc k < 8192" "n = 8192 - Suc k" using Suc.prems(1) Suc.hyps(2) by auto
      then have "?b + 8 \<noteq> init" using slot_nr_start[of "Suc k" init] by (simp add: slot_nr_Suc)
      moreover obtain r seg' where "reserve_loop init ?seg = Some (r, seg')" "(case r of
          Some bdf \<Rightarrow> \<exists>i<8192. bdf = slot_nr init i \<and> \<not> occupied ?seg bdf \<and> (\<forall>j<i. occupied ?seg (slot_nr init j)) \<and>
            seg_devices seg' = (seg_devices ?seg)(bdf \<mapsto> Placeholder) \<and> seg_next_bdf seg' = bdf + 8
        | None \<Rightarrow> (\<forall>j<8192. occupied ?seg (slot_nr init j)) \<and> seg_devices seg' = seg_devices ?seg)"
        using Suc.hyps(1)[OF k(2) k(1), of ?seg] all by (auto simp: slot_nr_Suc)
      ultimately show ?thesis using step by (intro exI[of _ r] exI[of _ seg']) (cases r; simp)
    qed
  qed
qed simp

section \<open>Placing BARs\<close>

text \<open>
  What the assignment of one list does: first the placements, then the writes to the headers.
\<close>

fun place_bars :: "u64 \<Rightarrow> u64 \<Rightarrow> 'p bar_item list \<Rightarrow> ('p bar_item \<times> u64) list" where
  "place_bars endv addr [] = []"
| "place_bars endv addr (item # items) =
     (let a = align_up addr (trailing_zeros (bi_size item))
      in if endv < a + bi_size item then place_bars endv addr items
         else (item, a) # place_bars endv (a + bi_size item) items)"

definition write_placed :: "'p bar_item \<times> u64 \<Rightarrow> ('p \<Rightarrow> header_data, unit, mem_error) op" where
  "write_placed e hs =
     (let (item, a) = e; p = bi_dev item
      in case set_bar (bi_index item) (ucast a) (hs p) of
           Ok (_, h1) \<Rightarrow>
             (if 0xffffffff < a
              then case set_bar (Suc (bi_index item)) (ucast (shr a 32)) h1 of
                     Ok (_, h2) \<Rightarrow> (Ok (), hs(p := h2))
                   | Err e \<Rightarrow> (Err e, hs(p := h1)) | Panic \<Rightarrow> (Panic, hs(p := h1))
              else (Ok (), hs(p := h1)))
         | Err e \<Rightarrow> (Err e, hs) | Panic \<Rightarrow> (Panic, hs))"

lemma assign_list_placements: "assign_list endv addr items hs = sforeach write_placed (place_bars endv addr items) hs"
proof (induction items arbitrary: addr hs)
  case (Cons item items)
  let ?a = "align_up addr (trailing_zeros (bi_size item))"
  show ?case
    by (simp add: Let_def sbind_def write_placed_def[of "(item, ?a)"] Cons.IH fun_upd_def split: outcome.split prod.split)
qed simp

definition item_ok :: "'p bar_item \<Rightarrow> bool" where
  "item_ok item \<longleftrightarrow> (\<exists>k \<le> 62. bi_size item = 2 ^ k)"

lemma trailing_zeros_power: "k < LENGTH('a) \<Longrightarrow> trailing_zeros (2 ^ k :: 'a::len word) = k"
proof -
  assume k: "k < LENGTH('a)"
  have b: "bit (2 ^ k :: 'a word) j \<longleftrightarrow> j = k" for j using k by (auto simp: bit_exp_iff)
  then have nz: "(2 ^ k :: 'a word) \<noteq> 0" by (metis bit_0_eq bot_apply bot_bool_def)
  show ?thesis using trailing_zeros_spec(2)[OF nz] b by simp
qed

lemma place_step:
  assumes "item_ok item" "unat addr \<le> 2 ^ 63"
  defines "a \<equiv> align_up addr (trailing_zeros (bi_size item))"
  shows "unat addr \<le> unat a" "unat (bi_size item) dvd unat a" "unat (a + bi_size item) = unat a + unat (bi_size item)"
proof -
  obtain k where k: "k \<le> 62" "bi_size item = 2 ^ k" using assms(1) by (auto simp: item_ok_def)
  have tz: "trailing_zeros (bi_size item) = k" using k by (simp add: trailing_zeros_power)
  have n: "unat (bi_size item) = 2 ^ k" using k by (simp add: unat_two_power)
  have "(2 :: nat) ^ k \<le> 2 ^ 62" using k(1) by (intro power_increasing) auto
  then have fit: "unat addr + (2 ^ k - 1) < 2 ^ LENGTH(64)" "2 ^ k \<le> (2 :: nat) ^ 62" using assms(2) by auto
  have ge: "unat addr \<le> unat a" "unat a < unat addr + 2 ^ k"
    using align_up_ge[of k addr] fit k(1) unfolding a_def tz by auto
  show "unat addr \<le> unat a" by (rule ge)
  show "unat (bi_size item) dvd unat a" using align_up_dvd[of k addr] k(1) unfolding a_def tz n by simp
  show "unat (a + bi_size item) = unat a + unat (bi_size item)"
    using ge fit assms(2) n by (intro unat_plus_no_wrap) simp
qed

lemma place_bars_spec:
  assumes "\<forall>i \<in> set items. item_ok i" "unat addr \<le> 2 ^ 63" "unat endv \<le> 2 ^ 63"
  shows "(\<forall>(item, a) \<in> set (place_bars endv addr items). item \<in> set items \<and> unat (bi_size item) dvd unat a \<and>
      unat addr \<le> unat a \<and> unat a + unat (bi_size item) \<le> unat endv) \<and>
    sorted_wrt (\<lambda>x y. unat (snd x) + unat (bi_size (fst x)) \<le> unat (snd y)) (place_bars endv addr items)"
  using assms
proof (induction items arbitrary: addr)
  case (Cons item items)
  let ?a = "align_up addr (trailing_zeros (bi_size item))" and ?n = "unat (bi_size item)"
  have s: "unat addr \<le> unat ?a" "?n dvd unat ?a" "unat (?a + bi_size item) = unat ?a + ?n"
    using place_step[of item addr] Cons.prems by auto
  show ?case
  proof (cases "endv < ?a + bi_size item")
    case True
    then show ?thesis using Cons.IH[of addr] Cons.prems by (auto simp: Let_def)
  next
    case False
    then have fits: "unat ?a + ?n \<le> unat endv" using s(3) by (simp add: word_less_nat_alt not_less)
    then have "unat (?a + bi_size item) \<le> 2 ^ 63" using Cons.prems(3) s(3) by simp
    note IH = Cons.IH[of "?a + bi_size item", OF _ this Cons.prems(3)]
    have rest: "\<forall>(i, b) \<in> set (place_bars endv (?a + bi_size item) items). i \<in> set items \<and> unat (bi_size i) dvd unat b \<and>
        unat ?a + ?n \<le> unat b \<and> unat b + unat (bi_size i) \<le> unat endv"
      "sorted_wrt (\<lambda>x y. unat (snd x) + unat (bi_size (fst x)) \<le> unat (snd y)) (place_bars endv (?a + bi_size item) items)"
      using IH Cons.prems(1) s(3) by auto
    show ?thesis using False rest s fits by (fastforce simp: Let_def)
  qed
qed simp


section \<open>Writing the headers\<close>

definition reg_of :: "('p \<Rightarrow> header_data) \<Rightarrow> 'p \<times> nat \<Rightarrow> u32" where
  "reg_of hs r = bars_of (hs (fst r)) ! snd r"

definition mask_of :: "('p \<Rightarrow> header_data) \<Rightarrow> 'p \<times> nat \<Rightarrow> u32" where
  "mask_of hs r = hd_bar_masks (hs (fst r)) ! snd r"

definition six_bars :: "('p \<Rightarrow> header_data) \<Rightarrow> bool" where
  "six_bars hs \<longleftrightarrow> (\<forall>p. length (bars_of (hs p)) = 6 \<and> length (hd_bar_masks (hs p)) = 6)"

text \<open>The registers that a placement writes, and what it writes to them.\<close>

fun placed_regs :: "'p bar_item \<times> u64 \<Rightarrow> ('p \<times> nat) set" where
  "placed_regs (item, a) = (if 0xffffffff < a then {(bi_dev item, bi_index item), (bi_dev item, Suc (bi_index item))}
     else {(bi_dev item, bi_index item)})"

fun placed_word :: "'p bar_item \<times> u64 \<Rightarrow> 'p \<times> nat \<Rightarrow> u32" where
  "placed_word (item, a) r = (if snd r = bi_index item then ucast a else ucast (shr a 32))"

definition holds :: "('p \<Rightarrow> header_data) \<Rightarrow> ('p \<Rightarrow> header_data) \<Rightarrow> 'p bar_item \<times> u64 \<Rightarrow> bool" where
  "holds hs hs' e \<longleftrightarrow> (\<forall>r \<in> placed_regs e. reg_of hs' r = mask_bits (reg_of hs r) (placed_word e r) (mask_of hs r))"

lemma write_placed_regs:
  assumes "six_bars hs" "\<forall>r \<in> placed_regs e. snd r < 6"
  shows "\<exists>hs'. write_placed e hs = (Ok (), hs') \<and> six_bars hs' \<and> mask_of hs' = mask_of hs \<and> holds hs hs' e \<and>
    (\<forall>r. r \<notin> placed_regs e \<longrightarrow> reg_of hs' r = reg_of hs r)"
proof -
  obtain item a where e: "e = (item, a)" by (cases e)
  let ?p = "bi_dev item" and ?i = "bi_index item"
  let ?v = "mask_bits (bars_of (hs ?p) ! ?i) (ucast a) (hd_bar_masks (hs ?p) ! ?i)"
  let ?h1 = "(hs ?p)\<lparr>hd_header := (hd_header (hs ?p))\<lparr>h_bars := (bars_of (hs ?p))[?i := ?v]\<rparr>\<rparr>"
  have len: "length (bars_of (hs ?p)) = 6" "length (hd_bar_masks (hs ?p)) = 6" using assms(1) by (auto simp: six_bars_def)
  have i: "?i < 6" using assms(2) e by (simp split: if_splits)
  have first: "set_bar ?i (ucast a) (hs ?p) = Ok ((bars_of (hs ?p) ! ?i, ?v), ?h1)"
    using len i by (simp add: set_bar_def Let_def)
  show ?thesis
  proof (cases "0xffffffff < a")
    case False
    have "write_placed e hs = (Ok (), hs(?p := ?h1))" using first False e by (simp add: write_placed_def Let_def)
    moreover have "six_bars (hs(?p := ?h1))" using assms(1) by (auto simp: six_bars_def)
    moreover have "mask_of (hs(?p := ?h1)) = mask_of hs" by (rule ext) (simp add: mask_of_def)
    ultimately show ?thesis using e False len i by (intro exI[of _ "hs(?p := ?h1)"])
        (auto simp: holds_def reg_of_def mask_of_def nth_list_update)
  next
    case True
    then have si: "Suc ?i < 6" using assms(2) e by simp
    let ?w = "mask_bits (bars_of (hs ?p) ! Suc ?i) (ucast (shr a 32)) (hd_bar_masks (hs ?p) ! Suc ?i)"
    let ?h2 = "?h1\<lparr>hd_header := (hd_header ?h1)\<lparr>h_bars := (bars_of ?h1)[Suc ?i := ?w]\<rparr>\<rparr>"
    have "set_bar (Suc ?i) (ucast (shr a 32)) ?h1 = Ok ((bars_of (hs ?p) ! Suc ?i, ?w), ?h2)"
      using len si by (simp add: set_bar_def Let_def)
    then have "write_placed e hs = (Ok (), hs(?p := ?h2))" using first True e by (simp add: write_placed_def Let_def)
    moreover have "six_bars (hs(?p := ?h2))" using assms(1) by (auto simp: six_bars_def)
    moreover have "mask_of (hs(?p := ?h2)) = mask_of hs" by (rule ext) (simp add: mask_of_def)
    ultimately show ?thesis using e True len i si by (intro exI[of _ "hs(?p := ?h2)"])
        (auto simp: holds_def reg_of_def mask_of_def nth_list_update)
  qed
qed

lemma write_all_placed:
  assumes "six_bars hs" "\<forall>e \<in> set ps. \<forall>r \<in> placed_regs e. snd r < 6"
    and "sorted_wrt (\<lambda>x y. placed_regs x \<inter> placed_regs y = {}) ps"
  shows "\<exists>hs'. sforeach write_placed ps hs = (Ok (), hs') \<and> six_bars hs' \<and> mask_of hs' = mask_of hs \<and>
    (\<forall>e \<in> set ps. holds hs hs' e) \<and> (\<forall>r. (\<forall>e \<in> set ps. r \<notin> placed_regs e) \<longrightarrow> reg_of hs' r = reg_of hs r)"
  using assms
proof (induction ps arbitrary: hs)
  case (Cons e ps)
  obtain h1 where h1: "write_placed e hs = (Ok (), h1)" "six_bars h1" "mask_of h1 = mask_of hs" "holds hs h1 e"
    "\<forall>r. r \<notin> placed_regs e \<longrightarrow> reg_of h1 r = reg_of hs r"
    using write_placed_regs[of hs e] Cons.prems by auto
  obtain h2 where h2: "sforeach write_placed ps h1 = (Ok (), h2)" "six_bars h2" "mask_of h2 = mask_of h1"
    "\<forall>e \<in> set ps. holds h1 h2 e" "\<forall>r. (\<forall>e \<in> set ps. r \<notin> placed_regs e) \<longrightarrow> reg_of h2 r = reg_of h1 r"
    using Cons.IH[of h1] Cons.prems h1(2) by auto
  have disj: "\<forall>x \<in> set ps. placed_regs e \<inter> placed_regs x = {}" using Cons.prems(3) by simp
  have "holds hs h2 e" using h1(4) h2(5) disj unfolding holds_def by (metis disjoint_iff)
  moreover have "holds hs h2 x" if "x \<in> set ps" for x
    using h2(4) h1(3,5) disj that unfolding holds_def by (metis disjoint_iff)
  moreover have "reg_of h2 r = reg_of hs r" if "\<forall>x \<in> set (e # ps). r \<notin> placed_regs x" for r
    using h1(5) h2(5) that by (cases r) simp
  ultimately show ?case using h1(1,3) h2(1,2,3) by (intro exI[of _ h2]) auto
qed simp


text \<open>The registers that a BAR of a list may need when the window ends at \<open>endv\<close>.\<close>

definition item_regs :: "u64 \<Rightarrow> 'p bar_item \<Rightarrow> ('p \<times> nat) set" where
  "item_regs endv item = (if 0xffffffff < endv then {(bi_dev item, bi_index item), (bi_dev item, Suc (bi_index item))}
     else {(bi_dev item, bi_index item)})"

lemma place_bars_items: "e \<in> set (place_bars endv addr items) \<Longrightarrow> fst e \<in> set items"
  by (induction items arbitrary: addr) (auto simp: Let_def split: if_splits)

lemma place_bars_disjoint:
  "sorted_wrt P items \<Longrightarrow> sorted_wrt (\<lambda>x y. P (fst x) (fst y)) (place_bars endv addr items)"
  by (induction items arbitrary: addr) (auto simp: Let_def dest: place_bars_items)

lemma placed_regs_subset: "snd e \<le> endv \<Longrightarrow> placed_regs e \<subseteq> item_regs endv (fst e)"
  by (cases e) (auto simp: item_regs_def)

lemma place_bars_regs:
  assumes "sorted_wrt (\<lambda>i j. item_regs endv i \<inter> item_regs endv j = {}) items"
    and "\<forall>e \<in> set (place_bars endv addr items). snd e \<le> endv"
  shows "sorted_wrt (\<lambda>x y. placed_regs x \<inter> placed_regs y = {}) (place_bars endv addr items)"
  by (rule sorted_wrt_mono_rel[OF _ place_bars_disjoint[OF assms(1)]]) (use assms(2) placed_regs_subset in blast)

text \<open>
  C33.  Assigning addresses to the BARs of one kind writes an address into the header of every BAR that fits: the
  addresses are multiples of the size of the BAR, lie inside the window and do not overlap; the address bits of the
  registers hold them, the high half of an address above 4 GiB is in the next register, and every other register
  keeps its value.
\<close>

theorem assign_list_places:
  assumes "\<forall>i \<in> set items. item_ok i \<and> (\<forall>r \<in> item_regs endv i. snd r < 6)"
    and "sorted_wrt (\<lambda>i j. item_regs endv i \<inter> item_regs endv j = {}) items"
    and "unat addr \<le> 2 ^ 63" "unat endv \<le> 2 ^ 63" "six_bars hs"
  defines "placed \<equiv> place_bars endv addr items"
  shows "\<exists>hs'. assign_list endv addr items hs = (Ok (), hs') \<and>
    (\<forall>e \<in> set placed. holds hs hs' e) \<and>
    (\<forall>(item, a) \<in> set placed. item \<in> set items \<and> unat (bi_size item) dvd unat a \<and>
       unat addr \<le> unat a \<and> unat a + unat (bi_size item) \<le> unat endv) \<and>
    sorted_wrt (\<lambda>x y. unat (snd x) + unat (bi_size (fst x)) \<le> unat (snd y)) placed \<and>
    mask_of hs' = mask_of hs \<and> (\<forall>r. (\<forall>e \<in> set placed. r \<notin> placed_regs e) \<longrightarrow> reg_of hs' r = reg_of hs r)"
proof -
  have spec: "\<forall>(item, a) \<in> set placed. item \<in> set items \<and> unat (bi_size item) dvd unat a \<and>
       unat addr \<le> unat a \<and> unat a + unat (bi_size item) \<le> unat endv"
    "sorted_wrt (\<lambda>x y. unat (snd x) + unat (bi_size (fst x)) \<le> unat (snd y)) placed"
    using place_bars_spec[of items addr endv] assms(1,3,4) unfolding placed_def by auto
  then have le: "\<forall>e \<in> set placed. snd e \<le> endv" by (fastforce simp: word_le_nat_alt)
  have six: "\<forall>e \<in> set placed. \<forall>r \<in> placed_regs e. snd r < 6"
    using le placed_regs_subset place_bars_items[of _ endv addr items] assms(1) unfolding placed_def by blast
  have "sorted_wrt (\<lambda>x y. placed_regs x \<inter> placed_regs y = {}) placed"
    using place_bars_regs[OF assms(2)] le unfolding placed_def by simp
  from write_all_placed[OF assms(5) six this] spec show ?thesis
    unfolding assign_list_placements placed_def by (elim exE conjE) (intro exI conjI, assumption+)
qed

text \<open>An I/O BAR of 32 ports and one of 16, of two devices.\<close>

definition io_items :: "nat bar_item list" where
  "io_items = [\<lparr>bi_bdf = 8, bi_dev = 0, bi_index = 0, bi_size = 32\<rparr>, \<lparr>bi_bdf = 16, bi_dev = 1, bi_index = 5, bi_size = 16\<rparr>]"

lemma io_items_placed:
  "place_bars 0x2000 0x1001 io_items = [(io_items ! 0, 0x1020), (io_items ! 1, 0x1040)]"
  by (simp add: io_items_def Let_def) code_simp

theorem assign_list_places_witness:
  "\<exists>hs'. assign_list 0x2000 0x1001 io_items (\<lambda>p. bar_header 0 1) = (Ok (), hs') \<and>
     (\<forall>e \<in> set [(io_items ! 0, 0x1020), (io_items ! 1, 0x1040)]. holds (\<lambda>p. bar_header 0 1) hs' e)"
proof -
  have ok: "\<forall>i \<in> set io_items. item_ok i \<and> (\<forall>r \<in> item_regs 0x2000 i. snd r < 6)"
    unfolding io_items_def item_ok_def
    by (auto simp: item_regs_def intro: exI[of _ 5] exI[of _ 4])
  have disj: "sorted_wrt (\<lambda>i j. item_regs 0x2000 i \<inter> item_regs 0x2000 j = {}) io_items"
    by (simp add: io_items_def item_regs_def)
  have six: "six_bars (\<lambda>p :: nat. bar_header 0 1)" by (simp add: six_bars_def bar_header_def device_header_default_def)
  show ?thesis
    using assign_list_places[OF ok disj _ _ six, of "0x1001"] unfolding io_items_placed by auto
qed

section \<open>Properties of the reservation and of the ports\<close>

text \<open>
  C34.  Asking for any free number always ends.  It returns the first slot, counted in steps of eight from the last one
  given out, that holds no real device, and puts a placeholder there; it fails only when all 8192 slots hold real
  devices.
\<close>

theorem reserve_first_free:
  "\<exists>r seg'. segment_reserve None seg = Some (r, seg') \<and> (case r of
      Some bdf \<Rightarrow> \<exists>i<8192. bdf = slot_nr (seg_next_bdf seg) i \<and> \<not> occupied seg bdf \<and>
        (\<forall>j<i. occupied seg (slot_nr (seg_next_bdf seg) j)) \<and>
        seg_devices seg' = (seg_devices seg)(bdf \<mapsto> Placeholder) \<and> seg_next_bdf seg' = bdf + 8
    | None \<Rightarrow> (\<forall>j<8192. occupied seg (slot_nr (seg_next_bdf seg) j)) \<and> seg_devices seg' = seg_devices seg)"
  using reserve_loop_first[of 0 seg "seg_next_bdf seg"]
  by (simp add: segment_reserve_def slot_nr_def)

theorem reserve_first_free_witness:
  "\<exists>r seg'. segment_reserve None (segment_new :: nat pci_segment) = Some (r, seg') \<and> r \<noteq> None"
proof -
  have free: "\<not> occupied (segment_new :: nat pci_segment) b" for b by (simp add: occupied_def segment_new_def)
  show ?thesis using reserve_first_free[of "segment_new :: nat pci_segment"] free by (auto split: option.splits dest: spec[of _ 0])
qed

definition cfg_address :: "u16 \<Rightarrow> u8 \<Rightarrow> u64" where
  "cfg_address bdf reg = 0x80000000 OR shl (ucast bdf) 8 OR ucast reg"

lemma port_constants:
  "bit (0x80000000 :: u64) i \<longleftrightarrow> i = 31" "bit (0xffff00 :: u64) i \<longleftrightarrow> 8 \<le> i \<and> i < 24"
  "bit (0xfc :: u64) i \<longleftrightarrow> 2 \<le> i \<and> i < 8" "bit (0xfc :: u8) i \<longleftrightarrow> 2 \<le> i \<and> i < 8" "bit (0xfff :: u64) i \<longleftrightarrow> i < 12"
  "bit (0xffff :: u64) i \<longleftrightarrow> i < 16"
  "bit (0xffff000 :: u64) i \<longleftrightarrow> 12 \<le> i \<and> i < 28"
proof -
  have c: "(0x80000000 :: u64) = push_bit 31 (mask 1)" "(0xffff00 :: u64) = push_bit 8 (mask 16)"
    "(0xfc :: u64) = push_bit 2 (mask 6)" "(0xfc :: u8) = push_bit 2 (mask 6)" "(0xfff :: u64) = mask 12" "(0xffff :: u64) = mask 16"
    "(0xffff000 :: u64) = push_bit 12 (mask 16)"
    by (simp_all add: mask_eq_exp_minus_1)
  show "bit (0x80000000 :: u64) i \<longleftrightarrow> i = 31" "bit (0xffff00 :: u64) i \<longleftrightarrow> 8 \<le> i \<and> i < 24"
    "bit (0xfc :: u64) i \<longleftrightarrow> 2 \<le> i \<and> i < 8" "bit (0xfc :: u8) i \<longleftrightarrow> 2 \<le> i \<and> i < 8" "bit (0xfff :: u64) i \<longleftrightarrow> i < 12"
  "bit (0xffff :: u64) i \<longleftrightarrow> i < 16"
  "bit (0xffff000 :: u64) i \<longleftrightarrow> 12 \<le> i \<and> i < 28"
    unfolding c bit_push_bit_iff bit_mask_iff by auto
qed

lemmas port_bits = to_ecam_addr_def cfg_address_def shl_def shr_def port_constants Let_def
  bit_and_iff bit_or_iff bit_push_bit_iff bit_drop_bit_eq bit_unsigned_iff

lemma port_enabled: "address_enabled (ucast (cfg_address bdf reg))"
  by (simp add: address_enabled_def port_bits del: bit_numeral_word_iff)

lemma port_offset:
  assumes "k < (4 :: u64)"
  shows "(4 + k) AND 3 = k" "4 \<le> 4 + k" "4 + k \<le> 7"
proof -
  have c: "k = 0 \<or> k = 1 \<or> k = 2 \<or> k = 3" using assms
    by (cases "unat k = 0 \<or> unat k = 1 \<or> unat k = 2 \<or> unat k = 3") (auto simp: word_unat_eq_iff word_less_nat_alt)
  then show "(4 + k) AND 3 = k" "4 \<le> 4 + k" "4 + k \<le> 7" by auto
qed

lemma port_target:
  fixes bdf :: u16 and reg :: u8
  assumes "k < 4"
  defines "e \<equiv> to_ecam_addr (ucast (cfg_address bdf reg)) OR k"
  shows "ucast (shr e 12) = bdf" "e AND 0xfff = ucast (reg AND 0xfc) OR k"
proof -
  have k: "\<not> bit k i" if "2 \<le> i" for i
  proof -
    have "k = take_bit 2 k" using assms(1)
      by (simp add: word_unat_eq_iff unsigned_take_bit_eq take_bit_nat_eq_self word_less_nat_alt)
    then show ?thesis using that by (metis bit_take_bit_iff not_less)
  qed
  have k2: "bit k i \<Longrightarrow> i < 2" for i using k[of i] by linarith
  show "ucast (shr e 12) = bdf"
    by (rule bit_word_eqI) (auto simp: e_def port_bits k simp del: bit_numeral_word_iff dest: bit_imp_le_length)
  show "e AND 0xfff = ucast (reg AND 0xfc) OR k"
    by (rule bit_word_eqI) (auto simp: e_def port_bits k simp del: bit_numeral_word_iff dest: bit_imp_le_length k2)
qed


text \<open>
  C35.  The two ports reach the same configuration registers as the memory-mapped window: after the address register is
  written with the enable bit, the number of a device and a register, a read or a write of the data port, at any of
  its four bytes, is that access to the configuration space of the device.
\<close>

theorem port_access_reaches_device:
  fixes reg :: u8
  assumes "seg_devices (iob_segment b) bdf = Some (Dev p)" "k < 4"
  defines "b' \<equiv> b\<lparr>iob_address := ucast (cfg_address bdf reg)\<rparr>" and "r \<equiv> ucast (reg AND 0xfc) OR k"
  shows "io_bus_write ops 0 4 (cfg_address bdf reg) (b, w) = (Ok ActNone, (b', w)) \<and>
    io_bus_read ops b' (4 + k) sz w = pci_config_read ops p r sz w \<and>
    io_bus_write ops (4 + k) sz val (b', w) = world_op (pci_config_write ops p r sz val) (b', w)"
proof (intro conjI)
  show "io_bus_write ops 0 4 (cfg_address bdf reg) (b, w) = (Ok ActNone, (b', w))"
    by (simp add: io_bus_write_def b'_def)
  have nz: "4 + k \<noteq> 0" using port_offset(2)[OF assms(2)] by auto
  note target = port_target[OF assms(2), of bdf reg]
  show "io_bus_read ops b' (4 + k) sz w = pci_config_read ops p r sz w"
    using assms(1) nz port_offset[OF assms(2)] target port_enabled
    by (simp add: io_bus_read_def segment_read_def b'_def r_def)
  show "io_bus_write ops (4 + k) sz val (b', w) = world_op (pci_config_write ops p r sz val) (b', w)"
    using assms(1) nz port_offset[OF assms(2)] target port_enabled
    by (simp add: io_bus_write_def segment_write_def[abs_def] b'_def r_def)
qed

text \<open>A device whose registers are the bytes of a world; the read of byte 2 of register 8 of the bridge.\<close>

definition byte_ops :: "(nat, u64 \<Rightarrow> u64, unit) pci_ops" where
  "byte_ops = \<lparr>pci_config_read = (\<lambda>p r sz w. (Ok (w r), w)), pci_config_write = (\<lambda>p r sz v w. (Ok ActNone, w(r := v))),
     pci_reset = (\<lambda>p w. (Ok (), w)), pci_config_reset = (\<lambda>p w. (Ok (), w))\<rparr>"

theorem port_access_reaches_device_witness:
  "io_bus_read byte_ops ((pci_bus_new 0)\<lparr>iob_address := ucast (cfg_address 0 0x0b)\<rparr>) 6 1 (\<lambda>r. if r = 0x0a then 7 else 0) =
     (Ok 7, \<lambda>r. if r = 0x0a then 7 else 0)"
proof -
  have bridge: "seg_devices (iob_segment (pci_bus_new (0 :: nat))) 0 = Some (Dev 0)" by code_simp
  have "ucast (0x0b AND 0xfc :: u8) OR 2 = (0x0a :: u64)" "(2 :: u64) < 4" by simp_all
  then show ?thesis
    using port_access_reaches_device[OF bridge, of 2 byte_ops "0x0b"] by (simp add: byte_ops_def)
qed

end
