(* ===== verification/Virtio_Pci.thy ===== *)
theory Virtio_Pci
  imports Virtio_Dev Pci_Segment
begin

text \<open>
  \<^verbatim>\<open>alioth/src/virtio/pci.rs\<close>: the PCI transport of a virtio device. The registers are \<open>virtio_regs\<close>; an access acts on them
  and on the world \<open>'w\<close>, which holds the channel to the worker and the interrupts. Sending a wake event, waking the
  worker, sending a message and the interrupt descriptors are parameters.

  The registers are atomics that the guest's processors share; an access is one step.
\<close>

unbundle bit_operations_syntax

section \<open>Data\<close>

definition VIRTIO_MSI_NO_VECTOR :: u16 where "VIRTIO_MSI_NO_VECTOR = 0xffff"

text \<open>\<^verbatim>\<open>Register\<close>, the MSI-X vectors and the table that the interrupt sender shares with the BAR.\<close>

record 'f virtio_regs =
  vr_device_feature :: "u32 list"
  vr_driver_feature :: "u32 list"
  vr_device_feature_sel :: u8
  vr_driver_feature_sel :: u8
  vr_queue_sel :: u16
  vr_status :: u8
  vr_queues :: "queue_reg list"
  vr_config_vector :: u16
  vr_queue_vectors :: "u16 list"
  vr_table :: "'f msix_entry list"
  vr_ioeventfds :: "u32 list option"

record ('f, 'w) transport_env =
  tp_irq :: "('f, 'w) irqfd_ops"
  tp_send_event :: "wake_event \<Rightarrow> ('w, unit, string) op"
  tp_notify :: "('w, unit, string) op"
  tp_msi_send :: "u64 \<Rightarrow> u32 \<Rightarrow> ('w, unit, hv_error) op"
  tp_create_irqfd :: "('w, 'f, hv_error) op"
  tp_drop_irqfd :: "'f \<Rightarrow> 'w \<Rightarrow> 'w"

section \<open>Interrupts\<close>

text \<open>\<^verbatim>\<open>PciIrqSender::send\<close>: failures are only logged; the getters of a descriptor panic when it is gone.\<close>

definition irq_sender_send :: "('f, 'w) transport_env \<Rightarrow> 'f virtio_regs \<Rightarrow> u16 \<Rightarrow> ('w, unit, mem_error) op" where
  "irq_sender_send env vr vector =
     (if length (vr_table vr) \<le> unat vector then sret ()
      else let e = vr_table vr ! unat vector
        in sbind (entry_get_masked (tp_irq env) e) (\<lambda>masked.
           if masked then sret ()
           else sbind (entry_get_data (tp_irq env) e) (\<lambda>data.
                sbind (entry_get_addr_hi (tp_irq env) e) (\<lambda>hi.
                sbind (entry_get_addr_lo (tp_irq env) e) (\<lambda>lo w.
                (Ok (), snd (tp_msi_send env (shl (ucast hi) 32 OR ucast lo) data w)))))))"

definition config_irq :: "('f, 'w) transport_env \<Rightarrow> 'f virtio_regs \<Rightarrow> ('w, unit, mem_error) op" where
  "config_irq env vr =
     (if vr_config_vector vr \<noteq> VIRTIO_MSI_NO_VECTOR then irq_sender_send env vr (vr_config_vector vr) else sret ())"

definition queue_irq :: "('f, 'w) transport_env \<Rightarrow> 'f virtio_regs \<Rightarrow> u16 \<Rightarrow> ('w, unit, mem_error) op" where
  "queue_irq env vr idx =
     (if length (vr_queue_vectors vr) \<le> unat idx then sret ()
      else let vector = vr_queue_vectors vr ! unat idx
        in if vector \<noteq> VIRTIO_MSI_NO_VECTOR then irq_sender_send env vr vector else sret ())"

text \<open>
  \<^verbatim>\<open>get_irqfd\<close>: a plain table entry is turned into a descriptor with the same registers; when programming it or the
  user's function fails, the new descriptor is dropped and the entry stays.
\<close>

definition program_irqfd :: "('f, 'w) transport_env \<Rightarrow> 'f \<Rightarrow> msix_table_entry \<Rightarrow> ('w, unit, hv_error) op" where
  "program_irqfd env fd t =
     sbind (irq_set_addr_hi (tp_irq env) fd (te_addr_hi t)) (\<lambda>_.
     sbind (irq_set_addr_lo (tp_irq env) fd (te_addr_lo t)) (\<lambda>_.
     sbind (irq_set_data (tp_irq env) fd (te_data t)) (\<lambda>_.
     sbind (irq_set_masked (tp_irq env) fd (bit (te_control t) 0)) (\<lambda>_. sret ()))))"

definition get_irqfd :: "('f, 'w) transport_env \<Rightarrow> u16 \<Rightarrow> ('f \<Rightarrow> ('w, 'a, virtio_error) op)
    \<Rightarrow> ('f virtio_regs \<times> 'w, 'a, virtio_error) op" where
  "get_irqfd env vector f s =
     (if length (vr_table (fst s)) \<le> unat vector then (Err (InvalidMsixVector vector), s)
      else case vr_table (fst s) ! unat vector of
             IrqFdEntry fd \<Rightarrow> world_op (f fd) s
           | Entry t \<Rightarrow> (case map_err VirtioHv (tp_create_irqfd env) (snd s) of
               (Ok fd, w1) \<Rightarrow> (case sbind (map_err VirtioHv (program_irqfd env fd t)) (\<lambda>_. f fd) w1 of
                   (Ok r, w2) \<Rightarrow> (Ok r, ((fst s)\<lparr>vr_table := (vr_table (fst s))[unat vector := IrqFdEntry fd]\<rparr>, w2))
                 | (Err e, w2) \<Rightarrow> (Err e, (fst s, tp_drop_irqfd env fd w2))
                 | (Panic, w2) \<Rightarrow> (Panic, (fst s, w2)))
             | (Err e, w1) \<Rightarrow> (Err e, (fst s, w1))
             | (Panic, w1) \<Rightarrow> (Panic, (fst s, w1))))"

definition config_irqfd :: "('f, 'w) transport_env \<Rightarrow> ('f \<Rightarrow> ('w, 'a, virtio_error) op) \<Rightarrow> ('f virtio_regs \<times> 'w, 'a, virtio_error) op" where
  "config_irqfd env f s = get_irqfd env (vr_config_vector (fst s)) f s"

definition queue_irqfd :: "('f, 'w) transport_env \<Rightarrow> u16 \<Rightarrow> ('f \<Rightarrow> ('w, 'a, virtio_error) op)
    \<Rightarrow> ('f virtio_regs \<times> 'w, 'a, virtio_error) op" where
  "queue_irqfd env idx f s =
     (if length (vr_queue_vectors (fst s)) \<le> unat idx then (Err (InvalidQueueIndex idx), s)
      else get_irqfd env (vr_queue_vectors (fst s) ! unat idx) f s)"

section \<open>Registers\<close>

text \<open>Offsets of \<^verbatim>\<open>VirtioCommonCfg\<close> (60 bytes), of the ISR word and of the doorbells.\<close>

definition COMMON_CFG_SIZE :: nat where "COMMON_CFG_SIZE = 60"

definition OFFSET_ISR_STATUS :: nat where "OFFSET_ISR_STATUS = 60"

definition OFFSET_QUEUE_NOTIFY :: nat where "OFFSET_QUEUE_NOTIFY = 64"

definition PCI_REGISTER_SIZE :: nat where "PCI_REGISTER_SIZE = 64"

text \<open>\<^verbatim>\<open>wake_up_dev\<close>: a start does not wake the worker, which waits on the channel itself.\<close>

definition wake_up_dev :: "('f, 'w) transport_env \<Rightarrow> wake_event \<Rightarrow> 'w \<Rightarrow> 'w" where
  "wake_up_dev env event w = (case tp_send_event env event w of
       (Ok _, w1) \<Rightarrow> (case event of StartEvent _ \<Rightarrow> w1 | _ \<Rightarrow> snd (tp_notify env w1))
     | (_, w1) \<Rightarrow> w1)"

text \<open>Resetting the table drops the descriptors in it.\<close>

definition drop_table :: "('f, 'w) transport_env \<Rightarrow> 'f msix_entry list \<Rightarrow> 'w \<Rightarrow> 'w" where
  "drop_table env es w = fold (\<lambda>e. case e of Entry _ \<Rightarrow> (\<lambda>w. w) | IrqFdEntry fd \<Rightarrow> tp_drop_irqfd env fd) es w"

definition transport_reset :: "('f, 'w) transport_env \<Rightarrow> 'f virtio_regs \<times> 'w \<Rightarrow> 'f virtio_regs \<times> 'w" where
  "transport_reset env s =
     (let vr = fst s
      in (vr\<lparr>vr_config_vector := VIRTIO_MSI_NO_VECTOR,
             vr_queue_vectors := map (\<lambda>_. VIRTIO_MSI_NO_VECTOR) (vr_queue_vectors vr),
             vr_table := table_reset (vr_table vr),
             vr_queues := map (\<lambda>q. q\<lparr>reg_enabled := False\<rparr>) (vr_queues vr)\<rparr>,
          drop_table env (vr_table vr) (snd s)))"

definition msix_change_allowed :: "'f virtio_regs \<Rightarrow> u16 \<Rightarrow> bool" where
  "msix_change_allowed vr old =
     (if length (vr_table vr) \<le> unat old then True
      else case vr_table vr ! unat old of IrqFdEntry _ \<Rightarrow> False | Entry _ \<Rightarrow> True)"

definition transport_size :: "'f virtio_regs \<Rightarrow> u64" where
  "transport_size vr = of_nat (PCI_REGISTER_SIZE + 4 * length (vr_queues vr))"

text \<open>Reading a field of the selected queue; 0 when there is no such queue.\<close>

definition sel_queue :: "'f virtio_regs \<Rightarrow> (queue_reg \<Rightarrow> u64) \<Rightarrow> u64" where
  "sel_queue vr f = (if unat (vr_queue_sel vr) < length (vr_queues vr) then f (vr_queues vr ! unat (vr_queue_sel vr)) else 0)"

definition transport_read :: "u64 \<Rightarrow> u8 \<Rightarrow> 'f virtio_regs \<Rightarrow> (u64, mem_error) outcome" where
  "transport_read offset sz vr =
     (let at = (offset, unat sz); sel = unat (vr_queue_sel vr)
      in if at = (0, 4) then Ok (ucast (vr_device_feature_sel vr))
         else if at = (4, 4)
         then Ok (if unat (vr_device_feature_sel vr) < length (vr_device_feature vr)
                  then ucast (vr_device_feature vr ! unat (vr_device_feature_sel vr)) else 0)
         else if at = (8, 4) then Ok (ucast (vr_driver_feature_sel vr))
         else if at = (12, 4)
         then Ok (if unat (vr_driver_feature_sel vr) < length (vr_driver_feature vr)
                  then ucast (vr_driver_feature vr ! unat (vr_driver_feature_sel vr)) else 0)
         else if at = (16, 2) then Ok (ucast (vr_config_vector vr))
         else if at = (18, 2) then Ok (of_nat (length (vr_queues vr)))
         else if at = (20, 1) then Ok (ucast (vr_status vr))
         else if at = (21, 1) then Ok 0
         else if at = (22, 2) then Ok (ucast (vr_queue_sel vr))
         else if at = (24, 2) then Ok (sel_queue vr (\<lambda>q. ucast (reg_size q)))
         else if at = (26, 2)
         then Ok (if sel < length (vr_queue_vectors vr) then ucast (vr_queue_vectors vr ! sel) else ucast VIRTIO_MSI_NO_VECTOR)
         else if at = (28, 2) then Ok (sel_queue vr (\<lambda>q. if reg_enabled q then 1 else 0))
         else if at = (30, 2) then Ok (ucast (vr_queue_sel vr))
         else if at = (32, 4) then Ok (sel_queue vr (\<lambda>q. ucast (get_low32 (reg_desc q))))
         else if at = (36, 4) then Ok (sel_queue vr (\<lambda>q. ucast (get_high32 (reg_desc q))))
         else if at = (40, 4) then Ok (sel_queue vr (\<lambda>q. ucast (get_high32 (reg_driver q))))
         else if at = (44, 4) then Ok (sel_queue vr (\<lambda>q. ucast (get_high32 (reg_driver q))))
         else if at = (48, 4) then Ok (sel_queue vr (\<lambda>q. ucast (get_high32 (reg_device q))))
         else if at = (52, 4) then Ok (sel_queue vr (\<lambda>q. ucast (get_high32 (reg_device q))))
         else if at = (56, 2) then Panic
         else if at = (58, 2) then Panic
         else Ok 0)"

text \<open>Changing the selected queue, when there is one.\<close>

definition set_queue :: "(queue_reg \<Rightarrow> queue_reg) \<Rightarrow> 'f virtio_regs \<Rightarrow> 'f virtio_regs" where
  "set_queue f vr =
     (let sel = unat (vr_queue_sel vr)
      in if sel < length (vr_queues vr) then vr\<lparr>vr_queues := (vr_queues vr)[sel := f (vr_queues vr ! sel)]\<rparr> else vr)"

definition DS_DRIVER_OK :: u8 where "DS_DRIVER_OK = 4"

definition DS_ALL :: u8 where "DS_ALL = 0xcf"

text \<open>The features that the driver accepted, as one number.\<close>

definition driver_features :: "'f virtio_regs \<Rightarrow> u128" where
  "driver_features vr = fold (\<lambda>(i, v) feature. feature OR shl (ucast v) (32 * i)) (enumerate 0 (vr_driver_feature vr)) 0"

definition write_dev_status :: "('f, 'w) transport_env \<Rightarrow> u64 \<Rightarrow> 'f virtio_regs \<times> 'w \<Rightarrow> 'f virtio_regs \<times> 'w" where
  "write_dev_status env val s =
     (let status = ucast val AND DS_ALL; old = vr_status (fst s); s1 = ((fst s)\<lparr>vr_status := status\<rparr>, snd s)
      in if flag_contains (old XOR status) DS_DRIVER_OK
         then if flag_contains status DS_DRIVER_OK
              then (fst s1, wake_up_dev env (StartEvent (driver_features (fst s1))) (snd s1))
              else let s2 = transport_reset env s1 in (fst s2, wake_up_dev env ResetEvent (snd s2))
         else s1)"

definition transport_write :: "('f, 'w) transport_env \<Rightarrow> u64 \<Rightarrow> u8 \<Rightarrow> u64 \<Rightarrow> ('f virtio_regs \<times> 'w, 'c action, mem_error) op" where
  "transport_write env offset sz val s =
     (let at = (offset, unat sz); vr = fst s; sel = unat (vr_queue_sel vr); set = (\<lambda>vr'. (Ok ActNone, (vr', snd s)))
      in if at = (0, 4) then set (vr\<lparr>vr_device_feature_sel := ucast val\<rparr>)
         else if at = (8, 4) then set (vr\<lparr>vr_driver_feature_sel := ucast val\<rparr>)
         else if at = (12, 4)
         then set (if unat (vr_driver_feature_sel vr) < length (vr_driver_feature vr)
                   then vr\<lparr>vr_driver_feature := (vr_driver_feature vr)[unat (vr_driver_feature_sel vr) := ucast val]\<rparr> else vr)
         else if at = (16, 2)
         then set (if msix_change_allowed vr (vr_config_vector vr) then vr\<lparr>vr_config_vector := ucast val\<rparr> else vr)
         else if at = (20, 1) then (Ok ActNone, write_dev_status env val s)
         else if at = (22, 2) then set (vr\<lparr>vr_queue_sel := ucast val\<rparr>)
         else if at = (24, 2) then set (set_queue (\<lambda>q. q\<lparr>reg_size := ucast val\<rparr>) vr)
         else if at = (26, 2)
         then set (if sel < length (vr_queue_vectors vr) \<and> msix_change_allowed vr (vr_queue_vectors vr ! sel)
                   then vr\<lparr>vr_queue_vectors := (vr_queue_vectors vr)[sel := ucast val]\<rparr> else vr)
         else if at = (28, 2) then set (set_queue (\<lambda>q. q\<lparr>reg_enabled := (val \<noteq> 0)\<rparr>) vr)
         else if at = (32, 4) then set (set_queue (\<lambda>q. q\<lparr>reg_desc := set_low32 (reg_desc q) (ucast val)\<rparr>) vr)
         else if at = (36, 4) then set (set_queue (\<lambda>q. q\<lparr>reg_desc := set_high32 (reg_desc q) (ucast val)\<rparr>) vr)
         else if at = (40, 4) then set (set_queue (\<lambda>q. q\<lparr>reg_driver := set_low32 (reg_driver q) (ucast val)\<rparr>) vr)
         else if at = (44, 4) then set (set_queue (\<lambda>q. q\<lparr>reg_driver := set_high32 (reg_driver q) (ucast val)\<rparr>) vr)
         else if at = (48, 4) then set (set_queue (\<lambda>q. q\<lparr>reg_device := set_low32 (reg_device q) (ucast val)\<rparr>) vr)
         else if at = (52, 4) then set (set_queue (\<lambda>q. q\<lparr>reg_device := set_high32 (reg_device q) (ucast val)\<rparr>) vr)
         else if at = (58, 2) then (Panic, s)
         else if OFFSET_QUEUE_NOTIFY \<le> unat offset \<and> unat offset < OFFSET_QUEUE_NOTIFY + 4 * length (vr_queues vr)
         then (Ok ActNone, (vr, wake_up_dev env (Notify (ucast (offset - 64) div 4)) (snd s)))
         else (Ok ActNone, s))"

text \<open>\<^verbatim>\<open>Pci::reset\<close> of the device: the event is sent first, then the registers are cleared.\<close>

definition virtio_pci_reset :: "('f, 'w) transport_env \<Rightarrow> ('f virtio_regs \<times> 'w, unit, pci_error) op" where
  "virtio_pci_reset env s =
     (let s1 = transport_reset env (fst s, wake_up_dev env ResetEvent (snd s))
      in (Ok (), ((fst s1)\<lparr>vr_status := 0\<rparr>, snd s1)))"


section \<open>Doorbells that the kernel watches\<close>

definition register_doorbell :: "(u32 \<Rightarrow> u64 \<Rightarrow> u8 \<Rightarrow> u64 option \<Rightarrow> ('w, unit, hv_error) op) \<Rightarrow> u64 \<Rightarrow> nat \<times> u32 \<Rightarrow> ('w, unit, mem_error) op" where
  "register_doorbell reg addr qfd =
     (let base_addr = addr + shl 12 10 + of_nat OFFSET_QUEUE_NOTIFY; notify_addr = base_addr + of_nat (fst qfd * 4)
      in map_err HvError (reg (snd qfd) notify_addr 0 None))"

definition ioeventfd_mapped :: "(u32 \<Rightarrow> u64 \<Rightarrow> u8 \<Rightarrow> u64 option \<Rightarrow> ('w, unit, hv_error) op) \<Rightarrow> u32 list \<Rightarrow> u64 \<Rightarrow> ('w, unit, mem_error) op" where
  "ioeventfd_mapped reg fds addr = sforeach (register_doorbell reg addr) (enumerate 0 fds)"

definition ioeventfd_unmapped :: "(u32 \<Rightarrow> ('w, unit, hv_error) op) \<Rightarrow> u32 list \<Rightarrow> ('w, unit, mem_error) op" where
  "ioeventfd_unmapped dereg fds = sforeach (\<lambda>fd. map_err HvError (dereg fd)) fds"

section \<open>The PCI function\<close>

definition VIRTIO_VENDOR_ID :: u16 where "VIRTIO_VENDOR_ID = 0x1af4"

definition VIRTIO_DEVICE_ID_BASE :: u16 where "VIRTIO_DEVICE_ID_BASE = 0x1040"

definition get_class :: "device_id \<Rightarrow> u8 \<times> u8" where
  "get_class d = (case d of IdNET \<Rightarrow> (0x02, 0x00) | IdFILE_SYSTEM \<Rightarrow> (0x01, 0x80) | IdBLOCK \<Rightarrow> (0x01, 0x00)
     | IdSOCKET \<Rightarrow> (0x02, 0x80) | _ \<Rightarrow> (0xff, 0x00))"

definition CFG_COMMON :: u8 where "CFG_COMMON = 1"

definition CFG_NOTIFY :: u8 where "CFG_NOTIFY = 2"

definition CFG_ISR :: u8 where "CFG_ISR = 3"

definition CFG_DEVICE :: u8 where "CFG_DEVICE = 4"

definition CFG_SHARED_MEMORY :: u8 where "CFG_SHARED_MEMORY = 8"

record virtio_pci_cap =
  vc_header :: pci_cap_hdr
  vc_cap_len :: u8
  vc_cfg_type :: u8
  vc_bar :: u8
  vc_id :: u8
  vc_offset :: u32
  vc_length :: u32

text \<open>The three capability structures: plain, with 64-bit fields, and with the doorbell multiplier.\<close>

datatype virtio_cap = VirtioCap virtio_pci_cap | VirtioCap64 virtio_pci_cap u32 u32 | VirtioNotifyCap virtio_pci_cap u32

definition virtio_pci_cap_bytes :: "virtio_pci_cap \<Rightarrow> u8 list" where
  "virtio_pci_cap_bytes c = [cap_id (vc_header c), cap_next (vc_header c), vc_cap_len c, vc_cfg_type c, vc_bar c, vc_id c, 0, 0]
     @ le_encode 4 (vc_offset c) @ le_encode 4 (vc_length c)"

definition virtio_cap_bytes :: "virtio_cap \<Rightarrow> u8 list" where
  "virtio_cap_bytes c = (case c of
       VirtioCap p \<Rightarrow> virtio_pci_cap_bytes p
     | VirtioCap64 p offset_hi length_hi \<Rightarrow> virtio_pci_cap_bytes p @ le_encode 4 offset_hi @ le_encode 4 length_hi
     | VirtioNotifyCap p multiplier \<Rightarrow> virtio_pci_cap_bytes p @ le_encode 4 multiplier)"

definition virtio_cap_read :: "virtio_cap \<Rightarrow> u64 \<Rightarrow> u8 \<Rightarrow> u64" where
  "virtio_cap_read c offset sz = zerocopy_read (virtio_cap_bytes c) offset sz"

definition virtio_cap_set_next :: "u8 \<Rightarrow> virtio_cap \<Rightarrow> virtio_cap" where
  "virtio_cap_set_next val c =
     (let f = (\<lambda>p. p\<lparr>vc_header := (vc_header p)\<lparr>cap_next := val\<rparr>\<rparr>)
      in case c of VirtioCap p \<Rightarrow> VirtioCap (f p) | VirtioCap64 p a b \<Rightarrow> VirtioCap64 (f p) a b
         | VirtioNotifyCap p m \<Rightarrow> VirtioNotifyCap (f p) m)"

definition vendor_cap :: "u8 \<Rightarrow> u8 \<Rightarrow> u8 \<Rightarrow> u8 \<Rightarrow> u32 \<Rightarrow> u32 \<Rightarrow> virtio_pci_cap" where
  "vendor_cap len cfg_type bar idx offset length' = \<lparr>vc_header = \<lparr>cap_id = CAP_VENDOR, cap_next = 0\<rparr>, vc_cap_len = len,
     vc_cfg_type = cfg_type, vc_bar = bar, vc_id = idx, vc_offset = offset, vc_length = length'\<rparr>"

definition REGISTER_OFFSET :: nat where "REGISTER_OFFSET = 12 * 1024"

definition device_config_offset :: "nat \<Rightarrow> nat" where
  "device_config_offset num_queues = REGISTER_OFFSET + PCI_REGISTER_SIZE + 4 * num_queues"

definition virtio_msix_cap :: "nat \<Rightarrow> msix_cap" where
  "virtio_msix_cap num_queues = \<lparr>msix_header = \<lparr>cap_id = CAP_MSIX, cap_next = 0\<rparr>,
     msix_control = msix_ctrl_new (of_nat (num_queues + 1)), msix_table_offset = msix_cap_offset_new 0 0,
     msix_pba_offset = msix_cap_offset_new (shl 8 10) 0\<rparr>"

text \<open>The capabilities of shared memory: one for each entry of the region, at increasing offsets.\<close>

fun shared_caps :: "nat \<Rightarrow> u64 \<Rightarrow> mem_region_entry list \<Rightarrow> virtio_cap list" where
  "shared_caps i offset [] = []"
| "shared_caps i offset (e # es) =
     VirtioCap64 (vendor_cap 24 CFG_SHARED_MEMORY 2 (of_nat i) (ucast offset) (ucast (entry_size e)))
       (ucast (shr offset 32)) (ucast (shr (entry_size e) 32)) # shared_caps (Suc i) (offset + entry_size e) es"

definition virtio_caps :: "nat \<Rightarrow> u64 \<Rightarrow> mem_region_entry list \<Rightarrow> virtio_cap list" where
  "virtio_caps num_queues cfg_size shared =
     [VirtioCap (vendor_cap 16 CFG_COMMON 0 0 (of_nat REGISTER_OFFSET) (of_nat COMMON_CFG_SIZE)),
      VirtioCap (vendor_cap 16 CFG_ISR 0 0 (of_nat (REGISTER_OFFSET + OFFSET_ISR_STATUS)) 4),
      VirtioNotifyCap (vendor_cap 20 CFG_NOTIFY 0 0 (of_nat (REGISTER_OFFSET + OFFSET_QUEUE_NOTIFY)) (of_nat (4 * num_queues))) 4] @
     (if 0 < cfg_size
      then [VirtioCap (vendor_cap 16 CFG_DEVICE 0 0 (of_nat (device_config_offset num_queues)) (ucast cfg_size))] else []) @
     shared_caps 0 0 shared"

definition virtio_bar0 :: "'d \<Rightarrow> 'd \<Rightarrow> 'd \<Rightarrow> nat \<Rightarrow> u64 \<Rightarrow> 'k list \<Rightarrow> ('d, 'k) mem_region" where
  "virtio_bar0 table registers config num_queues cfg_size callbacks =
     \<lparr>ranges = [Emulated table, Span (shl 12 10 - of_nat (16 * (num_queues + 1))), Emulated registers] @
        (if 0 < cfg_size then [Emulated config] else []),
      entries = [\<lparr>entry_size = shl 16 10, entry_type = RegHidden\<rparr>], region_callbacks = callbacks\<rparr>"

text \<open>BAR 2 holds the shared memory; a region with emulated ranges must fit 32 bits.\<close>

definition prefetchable :: "('d, 'k) mem_region \<Rightarrow> bool" where
  "prefetchable region = list_all (\<lambda>r. case r of Emulated _ \<Rightarrow> False | _ \<Rightarrow> True) (ranges region)"

definition virtio_bars :: "('d, 'k) mem_region \<Rightarrow> ('d, 'k) mem_region option
    \<Rightarrow> (('d, 'k) pci_bar list \<times> u32 list, virtio_error) outcome" where
  "virtio_bars bar0 shared = (case shared of
       None \<Rightarrow> Ok ((replicate 6 BarEmpty)[0 := BarMem bar0], (replicate 6 0)[0 := BAR_MEM32])
     | Some region \<Rightarrow>
         (if \<not> prefetchable region \<and> 0xffffffff < region_size region then Panic
          else Ok ((replicate 6 BarEmpty)[0 := BarMem bar0, 2 := BarMem region],
                   (replicate 6 0)[0 := BAR_MEM32,
                     2 := if prefetchable region then BAR_MEM64 OR BAR_PREFETCHABLE else BAR_MEM32])))"

definition virtio_header :: "device_id \<Rightarrow> u32 list \<Rightarrow> device_header" where
  "virtio_header dev_id bars =
     (let (class', subclass) = get_class dev_id; nr = VIRTIO_DEVICE_ID_BASE + device_id_raw dev_id
      in device_header_default\<lparr>h_common := common_header_default\<lparr>h_vendor := VIRTIO_VENDOR_ID, h_device := nr, h_revision := 1,
           h_header_type := HEADER_DEVICE, h_class := class', h_subclass := subclass\<rparr>, h_subsystem := nr, h_bars := bars\<rparr>)"

definition feature_words :: "u128 \<Rightarrow> u32 list" where
  "feature_words feature = map (\<lambda>i. ucast (shr feature (32 * i))) [0..<4]"

definition virtio_regs_new :: "u128 \<Rightarrow> queue_reg list \<Rightarrow> u32 list option \<Rightarrow> 'f virtio_regs" where
  "virtio_regs_new feature queues fds =
     \<lparr>vr_device_feature = feature_words feature, vr_driver_feature = replicate 4 0, vr_device_feature_sel = 0,
      vr_driver_feature_sel = 0, vr_queue_sel = 0, vr_status = 0, vr_queues = queues, vr_config_vector = VIRTIO_MSI_NO_VECTOR,
      vr_queue_vectors = replicate (length queues) VIRTIO_MSI_NO_VECTOR,
      vr_table = replicate (length queues + 1) (Entry msix_table_entry_default), vr_ioeventfds = fds\<rparr>"

text \<open>One event descriptor for each queue; when one cannot be created there are none, and the others are closed.\<close>

fun create_doorbells :: "('w, u32, hv_error) op \<Rightarrow> (u32 \<Rightarrow> 'w \<Rightarrow> 'w) \<Rightarrow> nat \<Rightarrow> u32 list \<Rightarrow> 'w \<Rightarrow> u32 list option \<times> 'w" where
  "create_doorbells create close 0 fds w = (Some fds, w)"
| "create_doorbells create close (Suc n) fds w = (case create w of
       (Ok fd, w1) \<Rightarrow> create_doorbells create close n (fds @ [fd]) w1
     | (_, w1) \<Rightarrow> (None, fold close fds w1))"

text \<open>
  \<^verbatim>\<open>VirtioPciDevice::new\<close>. The handles \<open>table\<close>, \<open>registers\<close> and \<open>config\<close> are those of the emulated ranges, \<open>cap_handles\<close> those
  of the boxed capabilities (the MSI-X capability and \<open>virtio_caps\<close>), \<open>mk_callback\<close> makes the doorbell callback.
\<close>

definition virtio_pci_new :: "('d, 'w2, 'c2, 'z) mmio_ops_scheme \<Rightarrow> (u8 \<Rightarrow> 'k) \<Rightarrow> ('q, 'w, 'c) cap_ops \<Rightarrow> (u32 list \<Rightarrow> 'k)
    \<Rightarrow> ('w, u32, hv_error) op \<Rightarrow> (u32 \<Rightarrow> 'w \<Rightarrow> 'w) \<Rightarrow> device_id \<Rightarrow> u128 \<Rightarrow> queue_reg list \<Rightarrow> ('d, 'k) mem_region option
    \<Rightarrow> 'd \<times> 'd \<times> 'd \<Rightarrow> u64 \<Rightarrow> 'q list \<Rightarrow> ('w, ('d, 'k, 'q) emulated_config \<times> 'f virtio_regs, virtio_error) op" where
  "virtio_pci_new env mk_bar_cb ops mk_callback create close dev_id feature queues shared handles cfg_size cap_handles =
     sbind (map_err (\<lambda>_. VirtioPciBus []) (cap_list_try_from ops cap_handles)) (\<lambda>cap_list w.
       let (table, registers, config) = handles; (fds, w1) = create_doorbells create close (length queues) [] w;
           callbacks = (case fds of Some l \<Rightarrow> [mk_callback l] | None \<Rightarrow> []);
           bar0 = virtio_bar0 table registers config (length queues) cfg_size callbacks
       in case virtio_bars bar0 shared of
            Ok (bars, bar_regs) \<Rightarrow>
              (Ok (config_new_device env mk_bar_cb (virtio_header dev_id bar_regs) bars cap_list,
                   virtio_regs_new feature queues fds), w1)
          | Err e \<Rightarrow> (Err e, w1)
          | Panic \<Rightarrow> (Panic, w1))"

section \<open>Setting up a queue\<close>

text \<open>The writes of a driver that sets up a queue, each of the width of its register.\<close>

definition queue_writes :: "u16 \<Rightarrow> u64 \<Rightarrow> u64 \<Rightarrow> u64 \<Rightarrow> u16 \<Rightarrow> (u64 \<times> u8 \<times> u64) list" where
  "queue_writes q desc driver device n =
     [(22, 2, ucast q), (24, 2, ucast n), (32, 4, desc AND 0xffffffff), (36, 4, shr desc 32),
      (40, 4, driver AND 0xffffffff), (44, 4, shr driver 32), (48, 4, device AND 0xffffffff), (52, 4, shr device 32), (28, 2, 1)]"

definition write_all :: "('f, 'w) transport_env \<Rightarrow> (u64 \<times> u8 \<times> u64) list \<Rightarrow> ('f virtio_regs \<times> 'w, unit, mem_error) op" where
  "write_all env = sforeach (\<lambda>(off, sz, val). sbind (transport_write env off sz val) (\<lambda>_ :: unit action. sret ()))"

lemma mask32: "(0xffffffff :: u64) = mask 32"
  by (simp add: mask_eq_exp_minus_1)

lemma halves_of: "ucast (v AND 0xffffffff) = get_low32 v" "ucast (shr v 32) = get_high32 v"
  unfolding mask32 by (simp_all add: get_low32_def get_high32_def) (rule bit_word_eqI, simp add: bit_simps)

lemma set_halves: "set_high32 (set_low32 n (get_low32 v)) (get_high32 v) = v"
proof -
  have sum: "m < 32 \<or> bit v (32 + (m - 32)) = bit v m" for m by (cases "m < 32") auto
  show ?thesis unfolding set_high32_def set_low32_def get_low32_def get_high32_def mask32
    using sum by (intro bit_word_eqI) (auto simp: shl_def shr_def bit_simps)
qed

text \<open>The effect of each of these writes on the registers.\<close>

lemma queue_write_effects:
  "transport_write env 22 2 val (vr, w) = (Ok ActNone, (vr\<lparr>vr_queue_sel := ucast val\<rparr>, w))"
  "transport_write env 24 2 val (vr, w) = (Ok ActNone, (set_queue (\<lambda>q. q\<lparr>reg_size := ucast val\<rparr>) vr, w))"
  "transport_write env 32 4 val (vr, w) = (Ok ActNone, (set_queue (\<lambda>q. q\<lparr>reg_desc := set_low32 (reg_desc q) (ucast val)\<rparr>) vr, w))"
  "transport_write env 36 4 val (vr, w) = (Ok ActNone, (set_queue (\<lambda>q. q\<lparr>reg_desc := set_high32 (reg_desc q) (ucast val)\<rparr>) vr, w))"
  "transport_write env 40 4 val (vr, w) = (Ok ActNone, (set_queue (\<lambda>q. q\<lparr>reg_driver := set_low32 (reg_driver q) (ucast val)\<rparr>) vr, w))"
  "transport_write env 44 4 val (vr, w) = (Ok ActNone, (set_queue (\<lambda>q. q\<lparr>reg_driver := set_high32 (reg_driver q) (ucast val)\<rparr>) vr, w))"
  "transport_write env 48 4 val (vr, w) = (Ok ActNone, (set_queue (\<lambda>q. q\<lparr>reg_device := set_low32 (reg_device q) (ucast val)\<rparr>) vr, w))"
  "transport_write env 52 4 val (vr, w) = (Ok ActNone, (set_queue (\<lambda>q. q\<lparr>reg_device := set_high32 (reg_device q) (ucast val)\<rparr>) vr, w))"
  "transport_write env 28 2 val (vr, w) = (Ok ActNone, (set_queue (\<lambda>q. q\<lparr>reg_enabled := (val \<noteq> 0)\<rparr>) vr, w))"
  by (simp_all add: transport_write_def Let_def)

lemma set_queue_twice: "set_queue g (set_queue f vr) = set_queue (\<lambda>q. g (f q)) vr"
  by (simp add: set_queue_def Let_def)

lemma u16_via_u64: "ucast (ucast (q :: u16) :: u64) = q"
  by (rule bit_word_eqI) (simp add: bit_simps)

text \<open>
  C14.  A driver that selects a queue, writes its size, the halves of its three addresses and the enable flag leaves
  exactly that queue set up with these values, and the world untouched.  The descriptor address can be read back; a
  read of the low half of the driver or the device address, however, returns the high half.
\<close>

theorem queue_setup:
  fixes desc driver device :: u64 and n :: u16
  assumes "unat q < length (vr_queues vr)"
  defines "vr' \<equiv> vr\<lparr>vr_queue_sel := q, vr_queues := (vr_queues vr)[unat q :=
      \<lparr>reg_size = n, reg_desc = desc, reg_driver = driver, reg_device = device, reg_enabled = True\<rparr>]\<rparr>"
  shows "write_all env (queue_writes q desc driver device n) (vr, w) = (Ok (), (vr', w)) \<and>
    transport_read 32 4 vr' = Ok (ucast (get_low32 desc)) \<and> transport_read 36 4 vr' = Ok (ucast (get_high32 desc)) \<and>
    transport_read 40 4 vr' = Ok (ucast (get_high32 driver)) \<and> transport_read 44 4 vr' = Ok (ucast (get_high32 driver)) \<and>
    transport_read 48 4 vr' = Ok (ucast (get_high32 device)) \<and> transport_read 52 4 vr' = Ok (ucast (get_high32 device))"
proof (intro conjI)
  show "write_all env (queue_writes q desc driver device n) (vr, w) = (Ok (), (vr', w))"
    using assms by (simp add: write_all_def queue_writes_def sbind_def queue_write_effects set_queue_twice halves_of set_halves
        u16_via_u64) (cases "vr_queues vr ! unat q", simp add: set_queue_def Let_def)
qed (use assms in \<open>simp_all add: transport_read_def sel_queue_def Let_def\<close>)


text \<open>A transport whose world is the channel to the worker; every call succeeds.\<close>

definition chan_env :: "(unit, wake_event list) transport_env" where
  "chan_env = \<lparr>tp_irq = \<lparr>irq_set_addr_lo = (\<lambda>_ _ w. (Ok (), w)), irq_get_addr_lo = (\<lambda>_ w. (Ok 0, w)),
       irq_set_addr_hi = (\<lambda>_ _ w. (Ok (), w)), irq_get_addr_hi = (\<lambda>_ w. (Ok 0, w)), irq_set_data = (\<lambda>_ _ w. (Ok (), w)),
       irq_get_data = (\<lambda>_ w. (Ok 0, w)), irq_set_masked = (\<lambda>_ _ w. (Ok True, w)), irq_get_masked = (\<lambda>_ w. (Ok True, w))\<rparr>,
     tp_send_event = (\<lambda>e w. (Ok (), w @ [e])), tp_notify = (\<lambda>w. (Ok (), w)), tp_msi_send = (\<lambda>_ _ w. (Ok (), w)),
     tp_create_irqfd = (\<lambda>w. (Ok (), w)), tp_drop_irqfd = (\<lambda>_ w. w)\<rparr>"

theorem queue_setup_witness:
  "\<exists>vr' w. write_all chan_env (queue_writes 1 0x100001000 0x100002000 0x100003000 128)
       (virtio_regs_new 0 (device_queue_regs 2) None, []) = (Ok (), (vr', w)) \<and> transport_read 32 4 vr' = Ok 0x1000"
proof -
  have q: "unat (1 :: u16) < length (vr_queues (virtio_regs_new 0 (device_queue_regs 2) None))"
    by (simp add: virtio_regs_new_def device_queue_regs_def)
  show ?thesis using queue_setup[OF q, of chan_env "0x100001000" "0x100002000" "0x100003000" 128 "[]"]
    by (auto simp: get_low32_def)
qed

section \<open>The worker follows the driver\<close>

text \<open>
  The channel as part of the world: \<open>sent w\<close> are the events sent so far. What the transport relies on: sending an event
  succeeds and appends it, and no other call touches the channel.
\<close>

definition channel_ok :: "('f, 'w) transport_env \<Rightarrow> ('w \<Rightarrow> wake_event list) \<Rightarrow> bool" where
  "channel_ok env sent \<longleftrightarrow> (\<forall>e w. \<exists>w'. tp_send_event env e w = (Ok (), w') \<and> sent w' = sent w @ [e]) \<and>
     (\<forall>w. sent (snd (tp_notify env w)) = sent w) \<and> (\<forall>f w. sent (tp_drop_irqfd env f w) = sent w)"

text \<open>
  The accesses of the guest and the reset of the function, in any order; \<open>other\<close> is whatever else happens and leaves the
  status register and the channel alone.
\<close>

inductive transport_reachable :: "('f, 'w) transport_env \<Rightarrow> ('w \<Rightarrow> wake_event list) \<Rightarrow> 'f virtio_regs \<times> 'w \<Rightarrow> bool" for env sent where
  start: "sent w = [] \<Longrightarrow> transport_reachable env sent (virtio_regs_new feature queues fds, w)"
| access: "transport_reachable env sent s \<Longrightarrow> transport_reachable env sent (snd (transport_write env offset sz val s :: (unit action, mem_error) outcome \<times> _))"
| pci_reset: "transport_reachable env sent s \<Longrightarrow> transport_reachable env sent (snd (virtio_pci_reset env s))"
| other: "transport_reachable env sent (vr, w) \<Longrightarrow> vr_status vr' = vr_status vr \<Longrightarrow> sent w' = sent w \<Longrightarrow>
    transport_reachable env sent (vr', w')"

definition driver_ok :: "'f virtio_regs \<Rightarrow> bool" where
  "driver_ok vr = flag_contains (vr_status vr) DS_DRIVER_OK"

lemma driver_ok_bit: "flag_contains x DS_DRIVER_OK \<longleftrightarrow> bit x 2" for x :: u8
proof -
  have four: "(4 :: u8) = 2 ^ 2" by simp
  have "x AND 2 ^ 2 = 2 ^ 2 \<longleftrightarrow> bit x 2"
  proof
    assume "x AND 2 ^ 2 = 2 ^ 2"
    then have "bit (x AND 2 ^ 2) 2 = bit (2 ^ 2 :: u8) 2" by (rule arg_cong)
    then show "bit x 2" by (simp only: bit_and_iff bit_exp_iff) simp
  next
    assume "bit x 2"
    then show "x AND 2 ^ 2 = 2 ^ 2" by (intro bit_word_eqI) (auto simp only: bit_and_iff bit_exp_iff)
  qed
  then show ?thesis unfolding flag_contains_def DS_DRIVER_OK_def four .
qed

lemma wake_up_sent:
  assumes "channel_ok env sent"
  shows "sent (wake_up_dev env e w) = sent w @ [e]"
proof -
  obtain w' where "tp_send_event env e w = (Ok (), w')" "sent w' = sent w @ [e]" using assms unfolding channel_ok_def by blast
  moreover have "sent (snd (tp_notify env w')) = sent w'" using assms by (simp add: channel_ok_def)
  ultimately show ?thesis by (simp add: wake_up_dev_def split: wake_event.split)
qed

lemma drop_table_sent: "channel_ok env sent \<Longrightarrow> sent (drop_table env es w) = sent w"
  unfolding drop_table_def by (induction es arbitrary: w) (auto simp: channel_ok_def split: msix_entry.split)

lemma transport_reset_sent: "channel_ok env sent \<Longrightarrow> sent (snd (transport_reset env s)) = sent (snd s)"
  "vr_status (fst (transport_reset env s)) = vr_status (fst s)"
  by (simp_all add: transport_reset_def Let_def drop_table_sent)

lemma write_dev_status_life:
  assumes "channel_ok env sent" "life False (sent w) = driver_ok vr" "no_shutdown (sent w)"
  shows "life False (sent (snd (write_dev_status env val (vr, w)))) = driver_ok (fst (write_dev_status env val (vr, w))) \<and>
    no_shutdown (sent (snd (write_dev_status env val (vr, w))))"
  using assms
  by (auto simp: write_dev_status_def Let_def driver_ok_def driver_ok_bit wake_up_sent transport_reset_sent life_append no_shutdown_def bit_simps)

text \<open>A write is one of the status register, or rings at most a doorbell.\<close>

definition harmless :: "('w \<Rightarrow> wake_event list) \<Rightarrow> 'f virtio_regs \<times> 'w \<Rightarrow> 'r \<times> 'f virtio_regs \<times> 'w \<Rightarrow> bool" where
  "harmless sent s r \<longleftrightarrow> vr_status (fst (snd r)) = vr_status (fst s) \<and>
     (sent (snd (snd r)) = sent (snd s) \<or> (\<exists>q. sent (snd (snd r)) = sent (snd s) @ [Notify q]))"

lemma harmless_if: "harmless sent s x \<Longrightarrow> harmless sent s y \<Longrightarrow> harmless sent s (if c then x else y)"
  by simp

lemma status_set_queue [simp]: "vr_status (set_queue f vr) = vr_status vr"
  by (simp add: set_queue_def Let_def)

lemma transport_write_status: "transport_write env 20 1 val s = (Ok ActNone, write_dev_status env val s)"
  by (simp add: transport_write_def Let_def)

lemma transport_write_harmless:
  assumes "channel_ok env sent" "(offset, unat sz) \<noteq> (20, 1)"
  shows "harmless sent s (transport_write env offset sz val s)"
  unfolding transport_write_def Let_def if_not_P[OF assms(2)]
  by (intro harmless_if) (simp_all add: harmless_def wake_up_sent[OF assms(1)])

lemma transport_life:
  assumes "transport_reachable env sent s" "channel_ok env sent"
  shows "life False (sent (snd s)) = driver_ok (fst s) \<and> no_shutdown (sent (snd s))"
  using assms(1)
proof (induction rule: transport_reachable.induct)
  case (start w feature queues fds)
  then show ?case by (simp add: virtio_regs_new_def driver_ok_def driver_ok_bit no_shutdown_def)
next
  case (access s offset sz val)
  show ?case
  proof (cases "(offset, unat sz) = (20, 1)")
    case True
    then have "offset = 20" "sz = 1" by (auto simp: word_unat_eq_iff)
    then show ?thesis using access.IH write_dev_status_life[OF assms(2), of "snd s" "fst s" val] by (simp add: transport_write_status)
  next
    case False
    have "harmless sent s (transport_write env offset sz val s :: (unit action, mem_error) outcome \<times> _)"
      by (rule transport_write_harmless[OF assms(2) False])
    then show ?thesis using access.IH unfolding harmless_def driver_ok_def by (auto simp: life_append no_shutdown_def)
  qed
next
  case (pci_reset s)
  then show ?case using wake_up_sent[OF assms(2)] transport_reset_sent(1)[OF assms(2)] transport_reset_sent(2)
    by (simp add: virtio_pci_reset_def Let_def life_append driver_ok_def driver_ok_bit no_shutdown_def)
next
  case (other vr w vr' w')
  then show ?case by (simp add: driver_ok_def)
qed



definition idle_backend :: "(unit, unit) backend" where
  "idle_backend = \<lparr>be_handle_queue = (\<lambda>_ s. (Ok (), s)), be_reset = (\<lambda>s. (Ok (), s)), be_event_loop_split = (\<lambda>_ _ _ s. (Ok (), s)),
     be_event_loop_packed = (\<lambda>_ _ _ s. (Ok (), s)), be_set_vu_channel = (\<lambda>_ d. d)\<rparr>"


section \<open>The layout that the capabilities announce\<close>

text \<open>Where the ranges of a region begin.\<close>

fun range_starts :: "('d \<Rightarrow> u64) \<Rightarrow> u64 \<Rightarrow> 'd mem_range list \<Rightarrow> ('d \<times> u64) list" where
  "range_starts sz off [] = []"
| "range_starts sz off (Emulated d # rs) = (d, off) # range_starts sz (off + sz d) rs"
| "range_starts sz off (Span n # rs) = range_starts sz (off + n) rs"
| "range_starts sz off (RamRange p # rs) = range_starts sz (off + p_size p) rs"
| "range_starts sz off (DevMem p # rs) = range_starts sz (off + p_size p) rs"

text \<open>What a driver takes from the capabilities of BAR 0: the place of a structure.\<close>

fun cap_place :: "u8 \<Rightarrow> virtio_cap list \<Rightarrow> u64 option" where
  "cap_place ty [] = None"
| "cap_place ty (c # cs) =
     (let p = (case c of VirtioCap p \<Rightarrow> p | VirtioCap64 p _ _ \<Rightarrow> p | VirtioNotifyCap p _ \<Rightarrow> p)
      in if vc_cfg_type p = ty then Some (ucast (vc_offset p)) else cap_place ty cs)"

lemma ucast_of_nat_u32: "m < 2 ^ 32 \<Longrightarrow> ucast (of_nat m :: u32) = (of_nat m :: u64)"
  by (simp add: word_unat_eq_iff unsigned_ucast_eq unat_of_nat take_bit_eq_mod)

lemma doorbell_offset:
  assumes "q < n" "16 * (n + 1) \<le> 12 * 1024"
  shows "unat (64 + 4 * of_nat q :: u64) = 64 + 4 * q" "ucast (4 * of_nat q :: u64) div 4 = (of_nat q :: u16)"
proof -
  have q: "q < 768" using assms by simp
  then have u: "unat (4 * of_nat q :: u64) = 4 * q" by (simp add: unat_word_ariths unat_of_nat)
  show "unat (64 + 4 * of_nat q :: u64) = 64 + 4 * q" using q u by (simp add: unat_word_ariths)
  have "unat (ucast (4 * of_nat q :: u64) :: u16) = 4 * q" using q u by (simp add: unsigned_ucast_eq take_bit_eq_mod)
  then show "ucast (4 * of_nat q :: u64) div 4 = (of_nat q :: u16)" using q
    by (simp add: word_unat_eq_iff unat_div unat_of_nat)
qed

lemma notify_write:
  assumes "OFFSET_QUEUE_NOTIFY \<le> unat off" "unat off < OFFSET_QUEUE_NOTIFY + 4 * length (vr_queues vr)"
  shows "transport_write env off len val (vr, w) = (Ok ActNone, (vr, wake_up_dev env (Notify (ucast (off - 64) div 4)) w))"
proof -
  have "off \<noteq> k" if "unat k < 64" for k using assms(1) that by (auto simp: OFFSET_QUEUE_NOTIFY_def)
  from this[of 0] this[of 8] this[of 12] this[of 16] this[of 20] this[of 22] this[of 24] this[of 26] this[of 28] this[of 32]
    this[of 36] this[of 40] this[of 44] this[of 48] this[of 52] this[of 58]
  show ?thesis using assms by (simp add: transport_write_def Let_def)
qed

lemma doorbell_write:
  assumes "q < length (vr_queues vr)" "16 * (length (vr_queues vr) + 1) \<le> 12 * 1024"
  shows "transport_write env (64 + 4 * of_nat q) len val (vr, w) = (Ok ActNone, (vr, wake_up_dev env (Notify (of_nat q)) w))"
proof -
  have "(64 + 4 * of_nat q :: u64) - 64 = 4 * of_nat q" by simp
  then show ?thesis using notify_write[of "64 + 4 * of_nat q" vr env len val w] assms(1) doorbell_offset[OF assms]
    by (simp only: OFFSET_QUEUE_NOTIFY_def) simp
qed

text \<open>
  C38.  The structures of a device are where its capabilities say: the common registers begin where BAR 0 puts the
  register block, the device configuration where BAR 0 puts it; the doorbell of a queue, at the announced place plus four
  times its number, is the address that the kernel is told to watch when BAR 0 is mapped, and a write there that reaches
  the register block wakes the worker for that queue.
\<close>

theorem announced_layout:
  assumes "16 * (length (vr_queues vr) + 1) \<le> 12 * 1024" "0 < cfg_size" "q < length (vr_queues vr)"
    and "sz table = table_size (vr_table vr)" "length (vr_table vr) = length (vr_queues vr) + 1" "sz regs = transport_size vr"
    and "distinct [table, regs, cfg]"
  shows "\<exists>r d. cap_place CFG_COMMON (virtio_caps (length (vr_queues vr)) cfg_size shared) = Some r \<and>
    cap_place CFG_NOTIFY (virtio_caps (length (vr_queues vr)) cfg_size shared) = Some d \<and>
    map_of (range_starts sz 0 (ranges (virtio_bar0 table regs cfg (length (vr_queues vr)) cfg_size callbacks))) regs = Some r \<and>
    map_of (range_starts sz 0 (ranges (virtio_bar0 table regs cfg (length (vr_queues vr)) cfg_size callbacks))) cfg =
      cap_place CFG_DEVICE (virtio_caps (length (vr_queues vr)) cfg_size shared) \<and>
    register_doorbell reg addr (q, fd) = map_err HvError (reg fd (addr + d + 4 * of_nat q) 0 None) \<and>
    transport_write env (d + 4 * of_nat q - r) len val (vr, w) = (Ok ActNone, (vr, wake_up_dev env (Notify (of_nat q)) w))"
proof (intro exI conjI)
  let ?n = "length (vr_queues vr)"
  have n: "?n < 768" using assms(1) by simp
  have cfg: "ucast (of_nat (device_config_offset ?n) :: u32) = (of_nat (device_config_offset ?n) :: u64)"
    by (rule ucast_of_nat_u32) (use n in \<open>simp add: device_config_offset_def REGISTER_OFFSET_def PCI_REGISTER_SIZE_def\<close>)
  have starts: "range_starts sz 0 (ranges (virtio_bar0 table regs cfg ?n cfg_size callbacks)) =
      [(table, 0), (regs, 12288), (cfg, of_nat (device_config_offset ?n))]"
    using assms(2,4,5,6) by (simp add: virtio_bar0_def table_size_def transport_size_def shl_def device_config_offset_def
        REGISTER_OFFSET_def PCI_REGISTER_SIZE_def)
  show "cap_place CFG_COMMON (virtio_caps ?n cfg_size shared) = Some 12288"
    by (simp add: virtio_caps_def vendor_cap_def CFG_COMMON_def REGISTER_OFFSET_def)
  show "cap_place CFG_NOTIFY (virtio_caps ?n cfg_size shared) = Some 12352"
    by (simp add: virtio_caps_def vendor_cap_def CFG_COMMON_def CFG_NOTIFY_def CFG_ISR_def REGISTER_OFFSET_def OFFSET_QUEUE_NOTIFY_def)
  show "map_of (range_starts sz 0 (ranges (virtio_bar0 table regs cfg ?n cfg_size callbacks))) regs = Some 12288"
    using assms(7) by (auto simp: starts)
  show "map_of (range_starts sz 0 (ranges (virtio_bar0 table regs cfg ?n cfg_size callbacks))) cfg =
      cap_place CFG_DEVICE (virtio_caps ?n cfg_size shared)"
    using assms(2,7) cfg by (auto simp: starts virtio_caps_def vendor_cap_def CFG_COMMON_def CFG_NOTIFY_def CFG_ISR_def CFG_DEVICE_def)
  show "register_doorbell reg addr (q, fd) = map_err HvError (reg fd (addr + 12352 + 4 * of_nat q) 0 None)"
    by (simp add: register_doorbell_def Let_def shl_def OFFSET_QUEUE_NOTIFY_def algebra_simps)
  show "transport_write env (12352 + 4 * of_nat q - 12288) len val (vr, w) = (Ok ActNone, (vr, wake_up_dev env (Notify (of_nat q)) w))"
    using doorbell_write[OF assms(3,1)] by simp
qed

theorem announced_layout_witness:
  "\<exists>r d. cap_place CFG_COMMON (virtio_caps 2 8 []) = Some r \<and> cap_place CFG_NOTIFY (virtio_caps 2 8 []) = Some d \<and>
     transport_write chan_env (d + 4 - r) 2 0 (virtio_regs_new 0 (device_queue_regs 2) None, []) =
       (Ok (ActNone :: unit action), (virtio_regs_new 0 (device_queue_regs 2) None, [Notify 1]))"
proof -
  let ?vr = "virtio_regs_new 0 (device_queue_regs 2) None :: unit virtio_regs"
  let ?sz = "\<lambda>d :: nat. if d = 0 then table_size (vr_table ?vr) else if d = 1 then transport_size ?vr else 8"
  have l: "length (vr_queues ?vr) = 2" "length (vr_table ?vr) = 3" by (simp_all add: virtio_regs_new_def device_queue_regs_def)
  have wake: "wake_up_dev chan_env (Notify 1) [] = [Notify 1]" by (simp add: wake_up_dev_def chan_env_def)
  have fits: "16 * (length (vr_queues ?vr) + 1) \<le> 12 * 1024" "1 < length (vr_queues ?vr)"
    "length (vr_table ?vr) = length (vr_queues ?vr) + 1" by (simp_all add: l)
  have sizes: "?sz 0 = table_size (vr_table ?vr)" "?sz 1 = transport_size ?vr" "distinct [0, 1, 2 :: nat]" "0 < (8 :: u64)"
    by (simp_all only: if_True refl) simp_all
  obtain r d where "cap_place CFG_COMMON (virtio_caps 2 8 []) = Some r" "cap_place CFG_NOTIFY (virtio_caps 2 8 []) = Some d"
    "transport_write chan_env (d + 4 - r) 2 0 (?vr, []) = (Ok (ActNone :: unit action), (?vr, [Notify 1]))"
    using announced_layout[OF fits(1) sizes(4) fits(2) sizes(1) fits(3) sizes(2,3), where shared = "[]"
      and callbacks = "[] :: unit list" and reg = "\<lambda>_ _ _ _ w. (Ok (), w :: unit)" and addr = 0 and fd = 0 and env = chan_env
      and len = 2 and val = 0 and w = "[]", unfolded l of_nat_1 mult_1_right wake]
    by (elim exE conjE)
  then show ?thesis by blast
qed

end
