(* ===== verification/Virtio_Blk.thy ===== *)
theory Virtio_Blk
  imports Virtio_Dev Mmio_Bus
begin

text \<open>
  \<^verbatim>\<open>alioth/src/virtio/dev/blk.rs\<close>: the block device. A request is a chain of a header, data and a status byte in guest
  memory; the state is host memory and the disk. The disk is a file of the operating system: its methods are the record
  \<open>disk_ops\<close>.
\<close>

unbundle bit_operations_syntax

section \<open>Data\<close>

definition RT_IN :: u32 where "RT_IN = 0"

definition RT_OUT :: u32 where "RT_OUT = 1"

definition RT_FLUSH :: u32 where "RT_FLUSH = 4"

definition RT_GET_ID :: u32 where "RT_GET_ID = 8"

definition BLK_OK :: u8 where "BLK_OK = 0"

definition BLK_IOERR :: u8 where "BLK_IOERR = 1"

definition BLK_UNSUPP :: u8 where "BLK_UNSUPP = 2"

definition BF_RO :: u128 where "BF_RO = shl 1 5"

definition BF_FLUSH :: u128 where "BF_FLUSH = shl 1 9"

definition SECTOR_SIZE :: u64 where "SECTOR_SIZE = 512"

text \<open>\<^verbatim>\<open>Request\<close>: sixteen bytes, of which the device reads the type and the sector.\<close>

record blk_header =
  rq_type :: u32
  rq_sector :: u64

definition request_of_bytes :: "u8 list \<Rightarrow> blk_header option" where
  "request_of_bytes bs =
     (if length bs = 16 then Some \<lparr>rq_type = le_decode (take 4 bs), rq_sector = le_decode (drop 8 bs)\<rparr> else None)"

text \<open>The fields of \<^verbatim>\<open>BlockConfig\<close> that are not zero, and the 72 bytes the guest reads.\<close>

record block_config =
  bc_capacity :: u64
  bc_num_queues :: u16

definition block_config_bytes :: "block_config \<Rightarrow> u8 list" where
  "block_config_bytes c = le_encode 8 (bc_capacity c) @ replicate 26 0 @ le_encode 2 (bc_num_queues c) @ replicate 36 0"

definition block_config_read :: "block_config \<Rightarrow> u64 \<Rightarrow> u8 \<Rightarrow> u64" where
  "block_config_read c offset sz = zerocopy_read (block_config_bytes c) offset sz"

datatype worker_api = ApiMio | ApiIoUring

record block =
  blk_name :: "u8 list"
  blk_config :: block_config
  blk_feature :: u128
  blk_api :: worker_api

text \<open>\<^verbatim>\<open>BlkRequest\<close>: a status byte is its address, data a slice.\<close>

datatype blk_request = BlkDone u32 | BlkIn slice u64 u64 | BlkOut slice u64 u64 | BlkFlush u64

section \<open>Construction\<close>

text \<open>
  Opening (for writing or not), locking (shared or not) and the length of the file are system calls; a file that has been
  opened is closed again when a later step fails.
\<close>

definition block_new :: "(bool \<Rightarrow> ('w, unit, string) op) \<Rightarrow> (bool \<Rightarrow> ('w, unit, string) op) \<Rightarrow> ('w, u64, string) op \<Rightarrow> ('w \<Rightarrow> 'w)
    \<Rightarrow> u8 list \<Rightarrow> bool \<Rightarrow> worker_api \<Rightarrow> ('w, block, virtio_error) op" where
  "block_new open_file try_lock file_len close name readonly api =
     sbind (map_err AccessFile (open_file (\<not> readonly))) (\<lambda>_ w.
       case sbind (map_err LockFile (try_lock readonly)) (\<lambda>_. map_err AccessFile file_len) w of
         (Ok len, w1) \<Rightarrow>
           (Ok \<lparr>blk_name = name, blk_config = \<lparr>bc_capacity = len div SECTOR_SIZE, bc_num_queues = 1\<rparr>,
                blk_feature = (if readonly then BF_FLUSH OR BF_RO else BF_FLUSH), blk_api = api\<rparr>, w1)
       | (Err e, w1) \<Rightarrow> (Err e, close w1)
       | (Panic, w1) \<Rightarrow> (Panic, w1))"

definition block_feature :: "block \<Rightarrow> u128" where
  "block_feature blk = blk_feature blk OR FEATURE_BUILT_IN"

section \<open>Requests\<close>

text \<open>\<^verbatim>\<open>read_vectored\<close> of a byte slice: the buffers are filled one after the other until the bytes run out.\<close>

fun fill_vectored :: "u8 list \<Rightarrow> slice list \<Rightarrow> hmem \<Rightarrow> nat \<times> u8 list \<times> hmem" where
  "fill_vectored src [] h = (0, src, h)"
| "fill_vectored src (buf # bufs) h =
     (let n = min (unat (snd buf)) (length src); h1 = h_write h (fst buf) (take n src); src1 = drop n src
      in if src1 = [] then (n, src1, h1)
         else case fill_vectored src1 bufs h1 of (m, src2, h2) \<Rightarrow> (n + m, src2, h2))"

text \<open>The offset of the first byte is the sector times 512, and wraps.\<close>

definition blk_handle_desc :: "block \<Rightarrow> desc_chain \<Rightarrow> (hmem, blk_request, virtio_error) op" where
  "blk_handle_desc blk chain h = (case readable chain of
       [] \<Rightarrow> (Err InvalidBuffer, h)
     | hdr # data_out \<Rightarrow> (case request_of_bytes (h_read h hdr) of
         None \<Rightarrow> (Err InvalidBuffer, h)
       | Some request \<Rightarrow>
           (if writable chain = [] then (Err InvalidBuffer, h)
            else if snd (last (writable chain)) \<noteq> 1 then (Err InvalidBuffer, h)
            else let data_in = butlast (writable chain); status = fst (last (writable chain));
                   offset = rq_sector request * SECTOR_SIZE
              in if rq_type request = RT_IN
                 then (case data_in of [data] \<Rightarrow> (Ok (BlkIn data offset status), h) | _ \<Rightarrow> (Err InvalidBuffer, h))
                 else if rq_type request = RT_OUT
                 then if flag_contains (blk_feature blk) BF_RO
                      then (Ok (BlkDone 1), h_write h status [BLK_IOERR])
                      else (case data_out of [data] \<Rightarrow> (Ok (BlkOut data offset status), h) | _ \<Rightarrow> (Err InvalidBuffer, h))
                 else if rq_type request = RT_FLUSH then (Ok (BlkFlush status), h)
                 else if rq_type request = RT_GET_ID
                 then (case fill_vectored (blk_name blk) data_in h of
                         (count, _, h1) \<Rightarrow> (Ok (BlkDone (1 + of_nat count)), h_write h1 status [BLK_OK]))
                 else (Ok (BlkDone 1), h_write h status [BLK_UNSUPP]))))"

section \<open>Serving requests in turn\<close>

text \<open>
  The methods of the file: \<open>dk_read_exact_at\<close> gives the bytes that have arrived in the buffer, also when it fails.
  Flushing a file is a method of the standard library that does nothing.
\<close>

record 'd disk_ops =
  dk_read_exact_at :: "nat \<Rightarrow> u64 \<Rightarrow> 'd \<Rightarrow> (unit, string) outcome \<times> u8 list \<times> 'd"
  dk_write_all_at :: "u8 list \<Rightarrow> u64 \<Rightarrow> ('d, unit, string) op"

definition file_flush :: "('d, unit, string) op" where
  "file_flush d = (Ok (), d)"

text \<open>What the status byte becomes when a call of the file ends.\<close>

definition put_status :: "u64 \<Rightarrow> (unit, string) outcome \<Rightarrow> hmem \<Rightarrow> hmem" where
  "put_status status r h = h_write h status [if r = Ok () then BLK_OK else BLK_IOERR]"

definition blk_serve :: "block \<Rightarrow> 'd disk_ops \<Rightarrow> desc_chain \<Rightarrow> hmem \<times> 'd
    \<Rightarrow> (status \<times> desc_chain, virtio_error) outcome \<times> hmem \<times> 'd" where
  "blk_serve blk ops chain s = (case blk_handle_desc blk chain (fst s) of
       (Err e, h) \<Rightarrow> (Ok (Done 0, chain), (h, snd s))
     | (Panic, h) \<Rightarrow> (Panic, (h, snd s))
     | (Ok request, h) \<Rightarrow> (case request of
         BlkDone n \<Rightarrow> (Ok (Done n, chain), (h, snd s))
       | BlkIn data offset status \<Rightarrow> (case dk_read_exact_at ops (unat (snd data)) offset (snd s) of
             (r, bs, d) \<Rightarrow> let h1 = put_status status r (h_write h (fst data) (take (unat (snd data)) bs))
               in if r = Panic then (Panic, (h, d))
                  else (Ok (Done (if r = Ok () then ucast (snd data) + 1 else 1), chain), (h1, d)))
       | BlkOut data offset status \<Rightarrow> (case dk_write_all_at ops (h_read h data) offset (snd s) of
             (r, d) \<Rightarrow> if r = Panic then (Panic, (h, d)) else (Ok (Done 1, chain), (put_status status r h, d)))
       | BlkFlush status \<Rightarrow> (case file_flush (snd s) of
             (r, d) \<Rightarrow> (Ok (Done 1, chain), (put_status status r h, d)))))"

text \<open>A queue is its format's methods and its state; \<^verbatim>\<open>handle_queue\<close> ignores a queue that does not exist.\<close>

type_synonym ('i, 's) active_queue = "('i, 's) vq_ops \<times> 'i queue"

definition on_queue :: "u16 \<Rightarrow> ('i, 's) active_queue option list \<Rightarrow> 's
    \<Rightarrow> (('i, 's) vq_ops \<Rightarrow> 'i queue \<times> 's \<Rightarrow> ((unit, virtio_error) outcome \<times> 'i queue \<times> 's) option)
    \<Rightarrow> ((unit, virtio_error) outcome \<times> ('i, 's) active_queue option list \<times> 's) option" where
  "on_queue index queues s f =
     (if length queues \<le> unat index then Some (Ok (), queues, s)
      else case queues ! unat index of
             None \<Rightarrow> Some (Ok (), queues, s)
           | Some (vq, q) \<Rightarrow> (case f vq (q, s) of
               None \<Rightarrow> None
             | Some (r, q', s') \<Rightarrow> Some (r, queues[unat index := Some (vq, q')], s')))"

definition blk_handle_queue :: "block \<Rightarrow> 'd disk_ops \<Rightarrow> (u16 \<Rightarrow> hmem \<times> 'd \<Rightarrow> hmem \<times> 'd) \<Rightarrow> u16
    \<Rightarrow> ('i, hmem \<times> 'd) active_queue option list \<times> hmem \<times> 'd
    \<Rightarrow> ((unit, virtio_error) outcome \<times> ('i, hmem \<times> 'd) active_queue option list \<times> hmem \<times> 'd) option" where
  "blk_handle_queue blk ops irq index qs =
     on_queue index (fst qs) (snd qs) (\<lambda>vq. handle_desc vq irq index (blk_serve blk ops))"

section \<open>Serving requests through a submission ring\<close>

datatype sqe = SqRead slice u64 | SqWrite slice u64 | SqFsync

datatype buffer_action = Submit sqe | Written u32

definition blk_uring_handle_desc :: "block \<Rightarrow> u16 \<Rightarrow> desc_chain \<Rightarrow> (hmem, buffer_action, virtio_error) op" where
  "blk_uring_handle_desc blk q_index chain = sbind (blk_handle_desc blk chain) (\<lambda>request. sret (case request of
       BlkDone n \<Rightarrow> Written n
     | BlkIn data offset _ \<Rightarrow> Submit (SqRead data offset)
     | BlkOut data offset _ \<Rightarrow> Submit (SqWrite data offset)
     | BlkFlush _ \<Rightarrow> Submit SqFsync))"

text \<open>The result of the completed call is a signed number; the request is read from guest memory again.\<close>

definition blk_complete_desc :: "block \<Rightarrow> u16 \<Rightarrow> int \<Rightarrow> desc_chain \<Rightarrow> (hmem, u32, virtio_error) op" where
  "blk_complete_desc blk q_index result chain =
     (let status_code = if 0 \<le> result then BLK_OK else BLK_IOERR
      in sbind (blk_handle_desc blk chain) (\<lambda>request h. case request of
           BlkDone _ \<Rightarrow> (Panic, h)
         | BlkFlush status \<Rightarrow> (Ok 1, h_write h status [status_code])
         | BlkIn data _ status \<Rightarrow> (Ok (ucast (snd data) + 1), h_write h status [status_code])
         | BlkOut _ _ status \<Rightarrow> (Ok 1, h_write h status [status_code])))"

section \<open>A read-only disk stays as it is\<close>

lemma handle_desc_readonly:
  "flag_contains (blk_feature blk) BF_RO \<Longrightarrow> fst (blk_handle_desc blk c h) \<noteq> Ok (BlkOut data offset st)"
  by (auto simp: blk_handle_desc_def Let_def split: list.split option.split prod.split)

lemma blk_serve_readonly:
  assumes "flag_contains (blk_feature blk) BF_RO" "\<forall>n off d. content (snd (snd (dk_read_exact_at ops n off d))) = content d"
  shows "content (snd (snd (blk_serve blk ops c s))) = content (snd s)"
proof (cases "blk_handle_desc blk c (fst s)")
  case (Pair x h)
  then have "x \<noteq> Ok (BlkOut data offset st)" for data offset st using handle_desc_readonly[OF assms(1), of c "fst s"] by auto
  moreover have "content d' = content d" if "dk_read_exact_at ops n off d = (r, bs, d')" for n off d r bs d'
    using assms(2) that by (metis snd_conv)
  ultimately show ?thesis using Pair
    by (auto simp: blk_serve_def file_flush_def Let_def split: outcome.splits blk_request.splits prod.splits)
qed

text \<open>Both ring formats leave the device alone.\<close>

definition ring_format :: "(u16, hmem \<times> 'd) vq_ops \<Rightarrow> bool" where
  "ring_format vq \<longleftrightarrow> (\<exists>guest q r. vq = split_ops guest q r) \<or> (\<exists>q r. vq = packed_ops q r)"

lemma ring_format_keeps:
  assumes "ring_format vq" "\<And>c s. content (snd (snd (op c s))) = content (snd s)"
  shows "steps_keep (\<lambda>s. content (snd s) = v) vq op"
  using assms by (auto simp: ring_format_def steps_keep_def split_ops_def packed_ops_def)

text \<open>
  C15.  A device made read-only never changes its disk: whatever the driver puts into its memory and its queues, of
  either format, serving a queue leaves the contents as they were.
\<close>

theorem readonly_disk_unchanged:
  assumes "block_new open_file try_lock file_len close name True api w = (Ok blk, w')"
    and "\<forall>n off d. content (snd (snd (dk_read_exact_at ops n off d))) = content d"
    and "\<forall>i s. content (snd (irq i s)) = content (snd s)" "\<forall>vq q. Some (vq, q) \<in> set queues \<longrightarrow> ring_format vq"
    and "blk_handle_queue blk ops irq index (queues, h, d) = Some (r, queues', h', d')"
  shows "content d' = content d"
proof -
  have "blk_feature blk = BF_FLUSH OR BF_RO"
    using assms(1) by (auto simp: block_new_def sbind_def map_err_def split: prod.splits outcome.splits)
  then have "flag_contains (blk_feature blk) BF_RO" by (simp add: flag_contains_def bit_eq_iff bit_simps) blast
  note serve = blk_serve_readonly[OF this assms(2)]
  have "content d' = content d" if vq: "ring_format vq" and run: "handle_desc vq irq index (blk_serve blk ops) (q, h, d) = Some (r, q', h', d')" for vq q q'
    using handle_desc_keeps[OF run ring_format_keeps[OF vq serve, of "content d"]] assms(3) by simp
  then show ?thesis using assms(4,5) unfolding blk_handle_queue_def on_queue_def
    by (auto split: if_splits option.splits prod.splits) (metis linorder_not_le nth_mem)
qed

section \<open>What is written can be read\<close>

text \<open>What is relied on of a file: a successful write changes exactly the range written, a successful read gives the range.\<close>

definition file_like :: "'d disk_ops \<Rightarrow> ('d \<Rightarrow> nat \<Rightarrow> u8) \<Rightarrow> bool" where
  "file_like ops content \<longleftrightarrow>
     (\<forall>n off d bs d'. dk_read_exact_at ops n off d = (Ok (), bs, d') \<longrightarrow> bs = map (\<lambda>i. content d (unat off + i)) [0..<n]) \<and>
     (\<forall>bs off d d'. dk_write_all_at ops bs off d = (Ok (), d') \<longrightarrow>
        content d' = (\<lambda>i. if unat off \<le> i \<and> i < unat off + length bs then bs ! (i - unat off) else content d i))"

lemma h_read_put_status:
  assumes "st \<notin> set (slice_addrs buf)"
  shows "h_read (put_status st r h) buf = h_read h buf"
proof -
  have "fst buf + of_nat i \<noteq> st" if "i < unat (snd buf)" for i using assms that by (auto simp: slice_addrs_def)
  then show ?thesis by (auto simp: h_read_def put_status_def h_write_def unat_eq_zero)
qed

lemma h_read_h_write:
  assumes "length bs = unat (snd buf)"
  shows "h_read (h_write h (fst buf) bs) buf = bs"
proof (rule nth_equalityI)
  fix i assume "i < length (h_read (h_write h (fst buf) bs) buf)"
  then have i: "i < unat (snd buf)" by (simp add: h_read_def)
  moreover have "unat (snd buf) < 2 ^ 64" using unsigned_less[of "snd buf"] by simp
  ultimately have "i < 2 ^ 64" by linarith
  then have "unat (of_nat i :: u64) = i" by (simp add: unat_of_nat)
  then show "h_read (h_write h (fst buf) bs) buf ! i = bs ! i" using i assms by (simp add: h_read_def h_write_def)
qed (use assms in \<open>simp add: h_read_def\<close>)

lemma blk_serve_out:
  assumes "readable c = [hdr, data]" "writable c = ws @ [(st, 1)]" "\<not> flag_contains (blk_feature blk) BF_RO"
    and "request_of_bytes (h_read h hdr) = Some \<lparr>rq_type = RT_OUT, rq_sector = sector\<rparr>"
    and "dk_write_all_at ops (h_read h data) (sector * SECTOR_SIZE) d = (r, d1)" "r \<noteq> Panic"
  shows "blk_serve blk ops c (h, d) = (Ok (Done 1, c), (put_status st r h, d1))"
  using assms by (simp add: blk_serve_def blk_handle_desc_def RT_IN_def RT_OUT_def)

lemma blk_serve_in:
  assumes "readable c = hdr # rs" "writable c = [buf, (st, 1)]"
    and "request_of_bytes (h_read h hdr) = Some \<lparr>rq_type = RT_IN, rq_sector = sector\<rparr>"
    and "dk_read_exact_at ops (unat (snd buf)) (sector * SECTOR_SIZE) d = (r, bs, d1)" "r \<noteq> Panic"
  shows "blk_serve blk ops c (h, d) = (Ok (Done (if r = Ok () then ucast (snd buf) + 1 else 1), c),
    (put_status st r (h_write h (fst buf) (take (unat (snd buf)) bs)), d1))"
  using assms by (simp add: blk_serve_def blk_handle_desc_def)

lemma put_status_OK: "put_status st r h st = BLK_OK \<longleftrightarrow> r = Ok ()"
  by (simp add: put_status_def h_write_def BLK_OK_def BLK_IOERR_def)

text \<open>
  C18.  What a driver writes to a sector it reads back: when a write request has ended with status OK and later, with
  guest memory in any state, a read request of the same sector and length ends with status OK, the buffer holds the
  bytes of the write. The status byte of the read must not lie in its buffer.
\<close>

theorem write_request_read_back:
  assumes "file_like ops content" "\<not> flag_contains (blk_feature blk) BF_RO"
    and "readable c = [hdr, data]" "writable c = ws @ [(st, 1)]"
    and "request_of_bytes (h_read h hdr) = Some \<lparr>rq_type = RT_OUT, rq_sector = sector\<rparr>"
    and "blk_serve blk ops c (h, d) = (Ok x, (h1, d1))" "h1 st = BLK_OK"
    and "readable c' = hdr' # rs" "writable c' = [buf, (st', 1)]" "snd buf = snd data" "st' \<notin> set (slice_addrs buf)"
    and "request_of_bytes (h_read h2 hdr') = Some \<lparr>rq_type = RT_IN, rq_sector = sector\<rparr>"
    and "blk_serve blk ops c' (h2, d1) = (Ok y, (h3, d3))" "h3 st' = BLK_OK"
  shows "h_read h3 buf = h_read h data \<and> fst x = Done 1 \<and> fst y = Done (ucast (snd data) + 1)"
proof -
  let ?off = "sector * SECTOR_SIZE"
  obtain r d1' where w: "dk_write_all_at ops (h_read h data) ?off d = (r, d1')" by fastforce
  have "r \<noteq> Panic" using assms(2-6) w by (auto simp: blk_serve_def blk_handle_desc_def RT_IN_def RT_OUT_def)
  from blk_serve_out[OF assms(3,4,2,5) w this] assms(6,7) have x: "x = (Done 1, c)" "d1' = d1" "r = Ok ()"
    by (auto simp: put_status_OK)
  obtain r' bs d' where rd: "dk_read_exact_at ops (unat (snd buf)) ?off d1 = (r', bs, d')" by (metis prod_cases3)
  have "r' \<noteq> Panic" using assms(8,9,12,13) rd by (auto simp: blk_serve_def blk_handle_desc_def)
  from blk_serve_in[OF assms(8,9,12) rd this] assms(13,14) have r': "r' = Ok ()"
    and y: "y = (Done (ucast (snd buf) + 1), c')" and h3: "h3 = put_status st' r' (h_write h2 (fst buf) (take (unat (snd buf)) bs))"
    by (auto simp: put_status_OK split: if_splits)
  have bs: "bs = map (\<lambda>i. content d1 (unat ?off + i)) [0..<unat (snd buf)]"
    using assms(1) rd r' by (simp add: file_like_def)
  have "content d1 (unat ?off + i) = h_read h data ! i" if "i < unat (snd buf)" for i
    using assms(1,10) w x that by (simp add: file_like_def h_read_def)
  then have bs: "bs = h_read h data" using bs assms(10) by (simp add: h_read_def)
  moreover have "length bs = unat (snd buf)" using bs assms(10) by (simp add: h_read_def)
  ultimately have "h_read h3 buf = h_read h data" by (simp add: h3 h_read_put_status[OF assms(11)] h_read_h_write)
  then show ?thesis using x y assms(10) by simp
qed

text \<open>A disk of bytes, and the memory of a driver: a header at 0, data at 32, a buffer at 48 and status bytes at 64 and 65.\<close>

definition byte_disk :: "(nat \<Rightarrow> u8) disk_ops" where
  "byte_disk = \<lparr>dk_read_exact_at = (\<lambda>n off d. (Ok (), map (\<lambda>i. d (unat off + i)) [0..<n], d)),
     dk_write_all_at = (\<lambda>bs off d. (Ok (), \<lambda>i. if unat off \<le> i \<and> i < unat off + length bs then bs ! (i - unat off) else d i))\<rparr>"

definition plain_block :: block where
  "plain_block = \<lparr>blk_name = [], blk_config = \<lparr>bc_capacity = 8, bc_num_queues = 1\<rparr>, blk_feature = BF_FLUSH, blk_api = ApiMio\<rparr>"

definition driver_mem :: "u8 \<Rightarrow> hmem" where
  "driver_mem ty a = (if a = 0 then ty else if a = 8 then 1 else if a = 32 then 7 else if a = 33 then 9 else if 64 \<le> a then 0xff else 0)"

lemma page_chain_finishes:
  "finishes (split_settled page_queue page_ram) (blk_serve blk (ops :: 'd disk_ops)) (set [page_chain])"
  by (simp add: finishes_def blk_serve_def blk_handle_desc_def page_chain_def)

theorem readonly_disk_unchanged_witness:
  "\<exists>blk r qs h d. block_new (\<lambda>_ w. (Ok (), w)) (\<lambda>_ w. (Ok (), w)) (\<lambda>w. (Ok 4096, w)) (\<lambda>w. w) [] True ApiMio () = (Ok blk, ()) \<and>
     blk_handle_queue blk byte_disk (\<lambda>_ s. s) 0 ([Some (split_ops id page_queue page_ram, queue_new 0)], page_mem, \<lambda>_. 5)
       = Some (r, qs, h, d) \<and> d = (\<lambda>_. 5)"
proof -
  let ?new = "block_new (\<lambda>_ w. (Ok (), w)) (\<lambda>_ w. (Ok (), w)) (\<lambda>w. (Ok 4096, w)) (\<lambda>w. w) [] True ApiMio ()"
  let ?vq = "split_ops id page_queue page_ram :: (u16, hmem \<times> (nat \<Rightarrow> u8)) vq_ops"
  let ?run = "\<lambda>blk. blk_handle_queue blk byte_disk (\<lambda>_ s. s) 0 ([Some (?vq, queue_new 0)], page_mem, \<lambda>_. 5)"
  obtain blk where blk: "?new = (Ok blk, ())" by (simp add: block_new_def sbind_def map_err_def)
  have "split_settled page_queue page_ram (q_used (queue_new 0)) (q_avail (queue_new 0)) (page_mem, \<lambda>_ :: nat. 5 :: u8) [page_chain]"
    using page_settled by (simp add: queue_new_def)
  from split.handle_desc_all[OF page_chain_finishes this, of blk byte_disk "\<lambda>_ s. s" 0]
  obtain r qs h d where run: "?run blk = Some (r, qs, h, d)"
    by (auto simp: blk_handle_queue_def on_queue_def)
  have rd: "\<forall>n off d. snd (snd (dk_read_exact_at byte_disk n off d)) = d" by (simp add: byte_disk_def)
  have "\<forall>vq q. Some (vq, q) \<in> set [Some (?vq, queue_new 0)] \<longrightarrow> ring_format vq" by (auto simp: ring_format_def)
  from readonly_disk_unchanged[OF blk, of "\<lambda>d. d", OF rd _ this run] have "d = (\<lambda>_. 5)" by simp
  then show ?thesis using blk run by blast
qed

lemma driver_header:
  "request_of_bytes (h_read (driver_mem ty) (0, 16)) = Some \<lparr>rq_type = ucast ty, rq_sector = 1\<rparr>"
proof -
  have "h_read (driver_mem ty) (0, 16) = [ty, 0, 0, 0, 0, 0, 0, 0, 1, 0, 0, 0, 0, 0, 0, 0]"
    by (simp add: h_read_def driver_mem_def upt_conv_Cons word_le_nat_alt)
  then show ?thesis by (simp add: request_of_bytes_def)
qed

theorem write_request_read_back_witness:
  "\<exists>h3 d3 y. blk_serve plain_block byte_disk \<lparr>chain_id = 1, chain_delta = 1, readable = [(0, 16)], writable = [(48, 2), (65, 1)]\<rparr>
     (driver_mem 0, snd (snd (blk_serve plain_block byte_disk
        \<lparr>chain_id = 0, chain_delta = 1, readable = [(0, 16), (32, 2)], writable = [(64, 1)]\<rparr> (driver_mem 1, \<lambda>_. 0))))
     = (Ok y, (h3, d3)) \<and> h_read h3 (48, 2) = h_read (driver_mem 1) (32, 2)"
proof -
  let ?c = "\<lparr>chain_id = 0, chain_delta = 1, readable = [(0, 16), (32, 2)], writable = [(64, 1)]\<rparr>"
  let ?c' = "\<lparr>chain_id = 1, chain_delta = 1, readable = [(0, 16)], writable = [(48, 2), (65, 1)]\<rparr>"
  have ro: "\<not> flag_contains (blk_feature plain_block) BF_RO"
    by (simp add: plain_block_def flag_contains_def BF_RO_def BF_FLUSH_def shl_def)
  have f: "file_like byte_disk (\<lambda>d. d)" by (simp add: file_like_def byte_disk_def)
  obtain d1 where wr: "dk_write_all_at byte_disk (h_read (driver_mem 1) (32, 2)) (1 * SECTOR_SIZE) (\<lambda>_. 0) = (Ok (), d1)"
    by (simp add: byte_disk_def)
  have o: "request_of_bytes (h_read (driver_mem 1) (0, 16)) = Some \<lparr>rq_type = RT_OUT, rq_sector = 1\<rparr>"
    and i: "request_of_bytes (h_read (driver_mem 0) (0, 16)) = Some \<lparr>rq_type = RT_IN, rq_sector = 1\<rparr>"
    by (simp_all add: driver_header RT_OUT_def RT_IN_def)
  have out: "blk_serve plain_block byte_disk ?c (driver_mem 1, \<lambda>_. 0) = (Ok (Done 1, ?c), (put_status 64 (Ok ()) (driver_mem 1), d1))"
    by (rule blk_serve_out[where ws = "[]", OF _ _ ro o wr]) simp_all
  obtain bs where rd: "dk_read_exact_at byte_disk (unat (snd (48 :: u64, 2 :: u64))) (1 * SECTOR_SIZE) d1 = (Ok (), bs, d1)"
    by (simp add: byte_disk_def)
  obtain y h3 where in': "blk_serve plain_block byte_disk ?c' (driver_mem 0, d1) = (Ok y, (h3, d1))" "h3 65 = BLK_OK"
    using blk_serve_in[OF _ _ i rd, of ?c' "[]" 65 plain_block] by (auto simp: put_status_OK)
  have "h_read h3 (48, 2) = h_read (driver_mem 1) (32, 2)"
    using write_request_read_back[OF f ro _ _ o out _ _ _ _ _ i in'(1) in'(2), of "(32, 2)" "[]" 64 "[]" "(48, 2)"]
    by (simp add: put_status_OK slice_addrs_def upt_conv_Cons)
  then show ?thesis using in'(1) out by auto
qed

section \<open>Completions read the request again\<close>

text \<open>
  C39.  With the submission ring a driver can stop the device: when it turns the header of a request that is under way
  into one that needs no disk access, the completion finds no request to complete and panics.
\<close>

theorem completion_of_changed_request_panics:
  assumes "readable c = hdr # rs" "writable c = [buf, (st, 1)]"
    and "request_of_bytes (h_read h hdr) = Some \<lparr>rq_type = RT_IN, rq_sector = sector\<rparr>"
    and "request_of_bytes (h_read h' hdr) = Some \<lparr>rq_type = RT_GET_ID, rq_sector = sector'\<rparr>"
  shows "blk_uring_handle_desc blk q_index c h = (Ok (Submit (SqRead buf (sector * SECTOR_SIZE))), h) \<and>
    fst (blk_complete_desc blk q_index result c h') = Panic"
  using assms by (auto simp: blk_uring_handle_desc_def blk_complete_desc_def blk_handle_desc_def sbind_def Let_def
      RT_GET_ID_def RT_IN_def RT_OUT_def RT_FLUSH_def split: prod.split)

theorem completion_of_changed_request_panics_witness:
  "blk_uring_handle_desc plain_block 0 \<lparr>chain_id = 1, chain_delta = 1, readable = [(0, 16)], writable = [(48, 2), (65, 1)]\<rparr> (driver_mem 0)
     = (Ok (Submit (SqRead (48, 2) 512)), driver_mem 0) \<and>
   fst (blk_complete_desc plain_block 0 2 \<lparr>chain_id = 1, chain_delta = 1, readable = [(0, 16)], writable = [(48, 2), (65, 1)]\<rparr> (driver_mem 8)) = Panic"
proof -
  have i: "request_of_bytes (h_read (driver_mem 0) (0, 16)) = Some \<lparr>rq_type = RT_IN, rq_sector = 1\<rparr>"
    and g: "request_of_bytes (h_read (driver_mem 8) (0, 16)) = Some \<lparr>rq_type = RT_GET_ID, rq_sector = 1\<rparr>"
    by (simp_all add: driver_header RT_IN_def RT_GET_ID_def)
  show ?thesis using completion_of_changed_request_panics[OF _ _ i g, of _ "[]" "(48, 2)" 65 plain_block 0 2]
    by (simp add: SECTOR_SIZE_def)
qed

end
