(* ===== verification/Virtio_Worker.thy ===== *)
theory Virtio_Worker
  imports Virtio_Blk
begin

text \<open>
  \<^verbatim>\<open>alioth/src/virtio/worker\<close>: the backends of a worker. With the submission ring (\<^verbatim>\<open>io_uring.rs\<close>) a chain is submitted to the
  kernel and completed later; the entries of the ring are counted. The methods of a device are the record \<open>uring_dev\<close> on
  a state \<open>'s\<close> that holds host memory, the device and the ring; \<open>push\<close> puts an entry with its token into the ring and says
  whether there was room.
\<close>

unbundle bit_operations_syntax

section \<open>Tokens\<close>

definition TOKEN_WARKER :: u64 where "TOKEN_WARKER = shl 1 63"

definition TOKEN_QUEUE :: u64 where "TOKEN_QUEUE = shl 1 62"

definition TOKEN_DESCRIPTOR :: u64 where "TOKEN_DESCRIPTOR = shl 1 62 OR shl 1 61"

text \<open>\<^verbatim>\<open>mio.rs\<close>: an event is that of a queue or one of the device's own.\<close>

definition mio_handle_event :: "(u16 \<Rightarrow> 's \<Rightarrow> 'r) \<Rightarrow> (u64 \<Rightarrow> 's \<Rightarrow> 'r) \<Rightarrow> u64 \<Rightarrow> 's \<Rightarrow> 'r" where
  "mio_handle_event handle_queue handle_event token =
     (if token AND TOKEN_QUEUE = TOKEN_QUEUE then handle_queue (ucast token) else handle_event token)"

section \<open>The submission ring\<close>

definition RING_SIZE :: u16 where "RING_SIZE = 256"

definition QUEUE_RESERVE_SIZE :: u16 where "QUEUE_RESERVE_SIZE = 1"

record 's uring_dev =
  ud_handle_desc :: "u16 \<Rightarrow> desc_chain \<Rightarrow> 's \<Rightarrow> (buffer_action \<times> desc_chain, virtio_error) outcome \<times> 's"
  ud_complete_desc :: "u16 \<Rightarrow> int \<Rightarrow> desc_chain \<Rightarrow> 's \<Rightarrow> (u32 \<times> desc_chain, virtio_error) outcome \<times> 's"

record ('i, 's) active_ring =
  ar_queues :: "('i, 's) active_queue option list"
  ar_shared :: u16
  ar_counts :: "u16 list"

text \<open>The ring keeps one entry for the notifier and two for each queue whose event descriptor it polls.\<close>

fun poll_queues :: "(u16 \<Rightarrow> ('s, bool, virtio_error) op) \<Rightarrow> (u64 \<Rightarrow> 's \<Rightarrow> bool \<times> 's) \<Rightarrow> nat list \<Rightarrow> u16 \<Rightarrow> ('s, u16, virtio_error) op" where
  "poll_queues offloaded push_poll [] shared s = (Ok shared, s)"
| "poll_queues offloaded push_poll (i # is) shared s = sbind (offloaded (of_nat i)) (\<lambda>off s1.
     if off then poll_queues offloaded push_poll is shared s1
     else case push_poll (of_nat i OR TOKEN_QUEUE) s1 of
            (True, s2) \<Rightarrow> poll_queues offloaded push_poll is (shared - (QUEUE_RESERVE_SIZE + 1)) s2
          | (False, s2) \<Rightarrow> (Panic, s2)) s"

text \<open>
  The beginning of \<^verbatim>\<open>event_loop\<close>: the kernel makes a ring, the notifier is polled, the device is activated and may use the
  queues, and the event descriptors are polled.
\<close>

definition uring_activate :: "('s, unit, virtio_error) op \<Rightarrow> (('i, 's) active_queue option list \<times> 's, unit, virtio_error) op
    \<Rightarrow> (u16 \<Rightarrow> ('s, bool, virtio_error) op) \<Rightarrow> (u64 \<Rightarrow> 's \<Rightarrow> bool \<times> 's) \<Rightarrow> u64
    \<Rightarrow> ('i, 's) active_queue option list \<Rightarrow> nat \<Rightarrow> ('s, ('i, 's) active_ring, virtio_error) op" where
  "uring_activate create activate offloaded push_poll notifier queues num_fds =
     sbind create (\<lambda>_ s. case push_poll notifier s of
       (False, s1) \<Rightarrow> (Panic, s1)
     | (True, s1) \<Rightarrow> (case activate (queues, s1) of
         (Err e, (_, s2)) \<Rightarrow> (Err e, s2)
       | (Panic, (_, s2)) \<Rightarrow> (Panic, s2)
       | (Ok _, (queues', s2)) \<Rightarrow> sbind (poll_queues offloaded push_poll [0..<num_fds] (RING_SIZE - 1)) (\<lambda>shared.
           sret \<lparr>ar_queues = queues', ar_shared = shared, ar_counts = replicate (length queues) 0\<rparr>) s2))"

text \<open>A queue's methods on a state with a further component, the counters that the handler captures.\<close>

definition lift_vq :: "('i, 's) vq_ops \<Rightarrow> ('i, 'a \<times> 's) vq_ops" where
  "lift_vq vq = \<lparr>
     desc_avail = (\<lambda>i s. desc_avail vq i (snd s)),
     get_avail = (\<lambda>i s. get_avail vq i (snd s)),
     set_used = (\<lambda>i did len s. (fst s, set_used vq i did len (snd s))),
     enable_notification = (\<lambda>on s. map_option (Pair (fst s)) (enable_notification vq on (snd s))),
     interrupt_enabled = (\<lambda>i delta s. interrupt_enabled vq i delta (snd s)),
     index_add = index_add vq\<rparr>"

text \<open>The handler of \<^verbatim>\<open>submit_buffers\<close>: the counters are the shared entries left and the queue's entries under way.\<close>

definition submit_chain :: "'s uring_dev \<Rightarrow> (sqe \<Rightarrow> u64 \<Rightarrow> 's \<Rightarrow> bool \<times> 's) \<Rightarrow> u16 \<Rightarrow> desc_chain \<Rightarrow> (u16 \<times> u16) \<times> 's
    \<Rightarrow> (status \<times> desc_chain, virtio_error) outcome \<times> (u16 \<times> u16) \<times> 's" where
  "submit_chain dev push q_index chain cs =
     (let ((shared, count), s) = cs
      in if QUEUE_RESERVE_SIZE \<le> count \<and> shared = 0 then (Ok (Break, chain), cs)
         else case ud_handle_desc dev q_index chain s of
             (Err e, s1) \<Rightarrow> (Err e, ((shared, count), s1))
           | (Panic, s1) \<Rightarrow> (Panic, ((shared, count), s1))
           | (Ok (Written len, chain'), s1) \<Rightarrow> (Ok (Done len, chain'), ((shared, count), s1))
           | (Ok (Submit e, chain'), s1) \<Rightarrow>
               (let buffer_key = shl (ucast (chain_id chain')) 16 OR ucast q_index
                in case push e (buffer_key OR TOKEN_DESCRIPTOR) s1 of
                     (False, s2) \<Rightarrow> (Ok (Break, chain'), ((shared, count), s2))
                   | (True, s2) \<Rightarrow>
                       (Ok (Deferred, chain'),
                        ((if QUEUE_RESERVE_SIZE < count + 1 then shared - 1 else shared, count + 1), s2))))"

definition submit_buffers :: "'s uring_dev \<Rightarrow> (sqe \<Rightarrow> u64 \<Rightarrow> 's \<Rightarrow> bool \<times> 's) \<Rightarrow> (u16 \<Rightarrow> 's \<Rightarrow> 's) \<Rightarrow> u16
    \<Rightarrow> ('i, 's) active_ring \<times> 's \<Rightarrow> ((unit, virtio_error) outcome \<times> ('i, 's) active_ring \<times> 's) option" where
  "submit_buffers dev push irq q_index ars =
     (let (ar, s) = ars; i = unat q_index
      in if length (ar_queues ar) \<le> i then Some (Ok (), ar, s)
         else case ar_queues ar ! i of
             None \<Rightarrow> Some (Ok (), ar, s)
           | Some (vq, q) \<Rightarrow>
               (if length (ar_counts ar) \<le> i then Some (Panic, ar, s)
                else case handle_desc (lift_vq vq) (\<lambda>i cs. (fst cs, irq i (snd cs))) q_index (submit_chain dev push q_index)
                            (q, ((ar_shared ar, ar_counts ar ! i), s)) of
                       None \<Rightarrow> None
                     | Some (r, q', ((shared, count), s')) \<Rightarrow>
                         Some (r, ar\<lparr>ar_queues := (ar_queues ar)[i := Some (vq, q')], ar_shared := shared,
                                     ar_counts := (ar_counts ar)[i := count]\<rparr>, s')))"

text \<open>
  \<^verbatim>\<open>ActiveIoUring::handle_event\<close>: a completion frees its entry, completes the parked chain and submits more; \<open>result\<close> is what
  the kernel returned.
\<close>

definition uring_handle_event :: "'s uring_dev \<Rightarrow> (sqe \<Rightarrow> u64 \<Rightarrow> 's \<Rightarrow> bool \<times> 's) \<Rightarrow> (u16 \<Rightarrow> 's \<Rightarrow> 's) \<Rightarrow> u64 \<Rightarrow> int
    \<Rightarrow> ('i, 's) active_ring \<times> 's \<Rightarrow> ((unit, virtio_error) outcome \<times> ('i, 's) active_ring \<times> 's) option" where
  "uring_handle_event dev push irq token result ars =
     (let (ar, s) = ars
      in if token AND TOKEN_DESCRIPTOR = TOKEN_DESCRIPTOR
         then let buffer_key = (ucast token :: u32); q_index = (ucast buffer_key :: u16); chain_id = ucast (shr buffer_key 16);
                i = unat q_index
           in if length (ar_queues ar) \<le> i then Some (Ok (), ar, s)
              else case ar_queues ar ! i of
                  None \<Rightarrow> Some (Ok (), ar, s)
                | Some (vq, q) \<Rightarrow>
                    (if length (ar_counts ar) \<le> i then Some (Panic, ar, s)
                     else let count = ar_counts ar ! i;
                            ar1 = ar\<lparr>ar_shared := (if QUEUE_RESERVE_SIZE < count then ar_shared ar + 1 else ar_shared ar),
                                     ar_counts := (ar_counts ar)[i := count - 1]\<rparr>
                       in case handle_deferred vq irq chain_id q_index (ud_complete_desc dev q_index result) (q, s) of
                            (r, (q', s')) \<Rightarrow>
                              (let ar2 = ar1\<lparr>ar_queues := (ar_queues ar)[i := Some (vq, q')]\<rparr>
                               in case r of Ok _ \<Rightarrow> submit_buffers dev push irq q_index (ar2, s')
                                  | Err e \<Rightarrow> Some (Err e, ar2, s') | Panic \<Rightarrow> Some (Panic, ar2, s')))
         else if token AND TOKEN_QUEUE = TOKEN_QUEUE then submit_buffers dev push irq (ucast token) (ar, s)
         else Some (Panic, ar, s))"

text \<open>The block device on the ring.\<close>

definition blk_uring :: "block \<Rightarrow> (hmem \<times> 'w) uring_dev" where
  "blk_uring blk = \<lparr>
     ud_handle_desc = (\<lambda>q_index chain s. case blk_uring_handle_desc blk q_index chain (fst s) of
        (r, h) \<Rightarrow> (obind r (\<lambda>a. Ok (a, chain)), (h, snd s))),
     ud_complete_desc = (\<lambda>q_index result chain s. case blk_complete_desc blk q_index result chain (fst s) of
        (r, h) \<Rightarrow> (obind r (\<lambda>n. Ok (n, chain)), (h, snd s)))\<rparr>"

section \<open>Counting the entries under way\<close>

text \<open>The shared entries that are left and those that the queues have taken beyond their own.\<close>

definition ring_total :: "('i, 's) active_ring \<Rightarrow> nat" where
  "ring_total ar = unat (ar_shared ar) + sum_list (map (\<lambda>c. unat c - 1) (ar_counts ar))"

lemma ring_total_queues [simp]: "ring_total (ar\<lparr>ar_queues := qs\<rparr>) = ring_total ar"
  by (simp add: ring_total_def)

lemma sum_list_update_nat:
  fixes xs :: "nat list"
  assumes "i < length xs"
  shows "sum_list (xs[i := x]) + xs ! i = sum_list xs + x"
  using assms by (induction xs arbitrary: i) (auto split: nat.split)

lemma ring_total_update:
  assumes "i < length (ar_counts ar)" "unat shared + (unat count - 1) = unat (ar_shared ar) + (unat (ar_counts ar ! i) - 1)"
  shows "ring_total (ar\<lparr>ar_shared := shared, ar_counts := (ar_counts ar)[i := count]\<rparr>) = ring_total ar"
  using sum_list_update_nat[of i "map (\<lambda>c. unat c - 1) (ar_counts ar)" "unat count - 1"] assms
  by (simp add: ring_total_def map_update)

lemma submit_chain_counts:
  assumes "unat (fst (fst cs)) + (unat (snd (fst cs)) - 1) = S" "S \<le> 255"
  shows "unat (fst (fst (snd (submit_chain dev push q c cs)))) + (unat (snd (fst (snd (submit_chain dev push q c cs)))) - 1) = S"
proof -
  obtain shared count s where cs: "cs = ((shared, count), s)" by (metis prod.exhaust)
  have c: "unat (count + 1) = unat count + 1" using assms cs by (simp add: unat_word_ariths)
  have sh: "unat (shared - 1) = unat shared - 1" if "shared \<noteq> 0" using that by (simp add: unat_minus_one)
  have gt: "QUEUE_RESERVE_SIZE < count + 1 \<longleftrightarrow> count \<noteq> 0" "QUEUE_RESERVE_SIZE \<le> count \<longleftrightarrow> count \<noteq> 0"
    using c by (auto simp: QUEUE_RESERVE_SIZE_def word_less_nat_alt word_le_nat_alt unat_eq_zero Suc_le_eq unat_gt_0)
  have pos: "0 < unat count" if "count \<noteq> 0" using that by (simp add: unat_gt_0)
  have spos: "0 < unat shared" if "shared \<noteq> 0" using that by (simp add: unat_gt_0)
  show ?thesis using assms(1) c sh pos spos
    by (auto simp: cs submit_chain_def gt Let_def split: prod.split outcome.split buffer_action.split bool.split)
qed

lemma submit_buffers_total:
  assumes "submit_buffers dev push irq q_index (ar, s) = Some (r, ar', s')" "ring_total ar \<le> 255"
  shows "ring_total ar' = ring_total ar \<and> length (ar_counts ar') = length (ar_counts ar)"
proof -
  let ?i = "unat q_index"
  show ?thesis
  proof (cases "\<exists>vq q. ?i < length (ar_queues ar) \<and> ar_queues ar ! ?i = Some (vq, q) \<and> ?i < length (ar_counts ar)")
    case False
    then show ?thesis using assms(1) by (auto simp: submit_buffers_def Let_def split: if_splits option.splits prod.splits)
  next
    case True
    then obtain vq q where q: "?i < length (ar_queues ar)" "ar_queues ar ! ?i = Some (vq, q)" "?i < length (ar_counts ar)" by blast
    let ?S = "unat (ar_shared ar) + (unat (ar_counts ar ! ?i) - 1)"
    let ?P = "\<lambda>cs :: (u16 \<times> u16) \<times> _. unat (fst (fst cs)) + (unat (snd (fst cs)) - 1) = ?S"
    have "unat (ar_counts ar ! ?i) - 1 \<le> sum_list (map (\<lambda>c. unat c - 1) (ar_counts ar))"
      using q(3) by (intro member_le_sum_list) auto
    then have S: "?S \<le> 255" using assms(2) by (simp add: ring_total_def)
    obtain q' shared count where run: "handle_desc (lift_vq vq) (\<lambda>i cs. (fst cs, irq i (snd cs))) q_index
          (submit_chain dev push q_index) (q, ((ar_shared ar, ar_counts ar ! ?i), s)) = Some (r, q', ((shared, count), s'))"
      and ar': "ar' = ar\<lparr>ar_queues := (ar_queues ar)[?i := Some (vq, q')], ar_shared := shared,
          ar_counts := (ar_counts ar)[?i := count]\<rparr>"
      using assms(1) q by (auto simp: submit_buffers_def Let_def split: option.splits)
    have "steps_keep ?P (lift_vq vq) (submit_chain dev push q_index)"
      using submit_chain_counts[OF _ S] by (auto simp: steps_keep_def lift_vq_def)
    from handle_desc_keeps[OF run this] have "?P ((shared, count), s')" by simp
    then show ?thesis using ring_total_update[of ?i "ar\<lparr>ar_queues := (ar_queues ar)[?i := Some (vq, q')]\<rparr>" shared count] q(3) by (simp add: ar')
  qed
qed

lemma free_entry_total:
  assumes "i < length (ar_counts ar)" "ar_counts ar ! i \<noteq> 0" "ring_total ar \<le> 255"
  shows "ring_total (ar\<lparr>ar_shared := (if QUEUE_RESERVE_SIZE < ar_counts ar ! i then ar_shared ar + 1 else ar_shared ar),
    ar_counts := (ar_counts ar)[i := ar_counts ar ! i - 1]\<rparr>) = ring_total ar"
proof (rule ring_total_update[OF assms(1)])
  let ?c = "ar_counts ar ! i"
  have "unat (ar_shared ar) \<le> 255" using assms(3) by (simp add: ring_total_def)
  then have "unat (ar_shared ar + 1) = unat (ar_shared ar) + 1" by (simp add: unat_word_ariths)
  moreover have "unat (?c - 1) = unat ?c - 1" "0 < unat ?c" using assms(2) by (simp_all add: unat_minus_one unat_gt_0)
  ultimately show "unat (if QUEUE_RESERVE_SIZE < ?c then ar_shared ar + 1 else ar_shared ar) + (unat (?c - 1) - 1) =
      unat (ar_shared ar) + (unat ?c - 1)"
    by (auto simp: QUEUE_RESERVE_SIZE_def word_less_nat_alt)
qed

text \<open>
  The steps of a worker on the ring: notifications and completions, and whatever the driver and the kernel do between
  them. Of the kernel is relied on that a completion belongs to an entry under way.
\<close>

inductive ring_reachable :: "'s uring_dev \<Rightarrow> (sqe \<Rightarrow> u64 \<Rightarrow> 's \<Rightarrow> bool \<times> 's) \<Rightarrow> (u16 \<Rightarrow> 's \<Rightarrow> 's)
    \<Rightarrow> ('i, 's) active_ring \<Rightarrow> ('i, 's) active_ring \<times> 's \<Rightarrow> bool" for dev push irq ar0 where
  start: "ring_reachable dev push irq ar0 (ar0, s)"
| environment: "ring_reachable dev push irq ar0 (ar, s) \<Longrightarrow> ring_reachable dev push irq ar0 (ar, s')"
| notified: "ring_reachable dev push irq ar0 (ar, s) \<Longrightarrow> submit_buffers dev push irq q_index (ar, s) = Some (r, ar', s')
    \<Longrightarrow> ring_reachable dev push irq ar0 (ar', s')"
| event: "ring_reachable dev push irq ar0 (ar, s) \<Longrightarrow> uring_handle_event dev push irq token result (ar, s) = Some (r, ar', s')
    \<Longrightarrow> token AND TOKEN_DESCRIPTOR = TOKEN_DESCRIPTOR \<longrightarrow>
        unat (ucast (ucast token :: u32) :: u16) < length (ar_counts ar) \<longrightarrow>
        ar_counts ar ! unat (ucast (ucast token :: u32) :: u16) \<noteq> 0
    \<Longrightarrow> ring_reachable dev push irq ar0 (ar', s')"

lemma handle_event_total:
  assumes "uring_handle_event dev push irq token result (ar, s) = Some (r, ar', s')" "ring_total ar \<le> 255"
    and "token AND TOKEN_DESCRIPTOR = TOKEN_DESCRIPTOR \<longrightarrow>
        unat (ucast (ucast token :: u32) :: u16) < length (ar_counts ar) \<longrightarrow>
        ar_counts ar ! unat (ucast (ucast token :: u32) :: u16) \<noteq> 0"
  shows "ring_total ar' = ring_total ar \<and> length (ar_counts ar') = length (ar_counts ar)"
proof -
  let ?qi = "ucast (ucast token :: u32) :: u16" let ?i = "unat ?qi"
  consider (completion) vq q where "token AND TOKEN_DESCRIPTOR = TOKEN_DESCRIPTOR" "?i < length (ar_queues ar)"
      "ar_queues ar ! ?i = Some (vq, q)" "?i < length (ar_counts ar)"
    | (queue) "\<not> token AND TOKEN_DESCRIPTOR = TOKEN_DESCRIPTOR" "submit_buffers dev push irq (ucast token) (ar, s) = Some (r, ar', s')"
    | (nothing) "ar' = ar"
    using assms(1) by (auto simp: uring_handle_event_def Let_def split: if_splits option.splits prod.splits)
  then show ?thesis
  proof cases
    case completion
    let ?c = "ar_counts ar ! ?i"
    obtain r1 q' s2 where d: "handle_deferred vq irq (ucast (shr (ucast token :: u32) 16)) ?qi (ud_complete_desc dev ?qi result) (q, s)
      = (r1, (q', s2))" by (metis prod_cases3)
    let ?ar = "ar\<lparr>ar_shared := (if QUEUE_RESERVE_SIZE < ?c then ar_shared ar + 1 else ar_shared ar),
      ar_counts := (ar_counts ar)[?i := ?c - 1], ar_queues := (ar_queues ar)[?i := Some (vq, q')]\<rparr>"
    have free: "ring_total ?ar = ring_total ar"
      using free_entry_total[OF completion(4) _ assms(2)] assms(3) completion by simp
    have "ar' = ?ar \<or> submit_buffers dev push irq ?qi (?ar, s2) = Some (r, ar', s')"
      using assms(1) completion d by (cases r1) (auto simp: uring_handle_event_def Let_def)
    then show ?thesis using free assms(2) submit_buffers_total[of dev push irq ?qi ?ar s2 r ar' s'] by auto
  next
    case queue
    then show ?thesis using submit_buffers_total[OF queue(2) assms(2)] by simp
  qed simp
qed

lemma ring_reachable_total:
  assumes "ring_reachable dev push irq ar0 as" "ring_total ar0 \<le> 255"
  shows "ring_total (fst as) = ring_total ar0 \<and> length (ar_counts (fst as)) = length (ar_counts ar0)"
  using assms
proof (induction rule: ring_reachable.induct)
  case (notified ar s q_index r ar' s')
  then show ?case using submit_buffers_total[OF notified.hyps(2)] by simp
next
  case (event ar s token result r ar' s')
  then show ?case using handle_event_total[OF event.hyps(2) _ event.hyps(3)] by simp
qed simp_all

lemma uring_activate_Ok:
  assumes "uring_activate create activate offloaded push_poll notifier queues n s0 = (Ok ar0, s1)"
  shows "\<exists>s2 shared queues'. poll_queues offloaded push_poll [0..<n] (RING_SIZE - 1) s2 = (Ok shared, s1) \<and>
    ar0 = \<lparr>ar_queues = queues', ar_shared = shared, ar_counts = replicate (length queues) 0\<rparr>"
proof -
  obtain s where s: "create s0 = (Ok (), s)" using assms by (auto simp: uring_activate_def sbind_eq_Ok)
  obtain b s' where p: "push_poll notifier s = (b, s')" by fastforce
  obtain r queues' s2 where a: "activate (queues, s') = (r, queues', s2)" by (metis prod_cases3)
  show ?thesis using assms s p a
    by (cases b; cases r) (auto simp: uring_activate_def sbind_eq_Ok)
qed

lemma poll_queues_count:
  assumes "poll_queues offloaded push_poll is shared s = (Ok shared', s')" "\<forall>i s s'. offloaded i s \<noteq> (Ok True, s')"
    and "2 * length is \<le> unat shared"
  shows "unat shared' + 2 * length is = unat shared"
  using assms
proof (induction "is" arbitrary: shared s)
  case (Cons i "is")
  obtain s1 s2 where s: "offloaded (of_nat i) s = (Ok False, s1)" "push_poll (of_nat i OR TOKEN_QUEUE) s1 = (True, s2)"
    "poll_queues offloaded push_poll is (shared - (QUEUE_RESERVE_SIZE + 1)) s2 = (Ok shared', s')"
    using Cons.prems(1,2) by (auto simp: sbind_def split: prod.splits outcome.splits if_splits bool.splits)
  have "unat (shared - (QUEUE_RESERVE_SIZE + 1)) = unat shared - 2"
    using Cons.prems(3) by (subst unat_sub) (auto simp: QUEUE_RESERVE_SIZE_def word_le_nat_alt)
  then show ?case using Cons.IH[OF s(3) Cons.prems(2)] Cons.prems(3) by simp
qed simp

text \<open>
  C16.  The submission ring is never overfull: when the worker polls an event descriptor for each of its queues, then
  after any notifications and completions, in any order and with any device and any contents of guest memory, the
  requests under way together with the polled descriptors and the notifier fit the 256 entries of the ring, and the
  counter of shared entries does not wrap.
\<close>

theorem ring_never_overfull:
  assumes "uring_activate create activate offloaded push_poll notifier queues (length queues) s0 = (Ok ar0, s1)"
    and "\<forall>i s s'. offloaded i s \<noteq> (Ok True, s')" "length queues \<le> 127"
    and "ring_reachable dev push irq ar0 (ar, s)"
  shows "sum_list (map unat (ar_counts ar)) + length queues + 1 \<le> unat RING_SIZE \<and> unat (ar_shared ar) + 2 * length queues \<le> 255"
proof -
  have sz: "unat (RING_SIZE - 1) = 255" by (simp add: RING_SIZE_def)
  from uring_activate_Ok[OF assms(1)] obtain s2 shared queues' where
    p: "poll_queues offloaded push_poll [0..<length queues] (RING_SIZE - 1) s2 = (Ok shared, s1)"
    and ar0: "ar0 = \<lparr>ar_queues = queues', ar_shared = shared, ar_counts = replicate (length queues) 0\<rparr>" by blast
  from poll_queues_count[OF p assms(2)] assms(3) have "unat shared + 2 * length queues = 255" by (simp add: sz)
  then have t: "ring_total ar0 + 2 * length queues = 255" by (simp add: ring_total_def ar0 sum_list_replicate)
  then have r: "ring_total ar + 2 * length queues = 255" "length (ar_counts ar) = length queues"
    using ring_reachable_total[OF assms(4)] by (simp_all add: ar0)
  have "sum_list (map unat cs) \<le> sum_list (map (\<lambda>c. unat c - 1) cs) + length cs" for cs :: "u16 list"
    by (induction cs) auto
  from this[of "ar_counts ar"] show ?thesis using r by (simp add: ring_total_def RING_SIZE_def)
qed

theorem ring_never_overfull_witness:
  "\<exists>ar0 ar s. uring_activate (sret ()) (sret ()) (\<lambda>_ s. (Ok False, s)) (\<lambda>_ s. (True, s)) TOKEN_WARKER
       [Some (split_ops id page_queue page_ram, queue_new 0)] 1 (page_mem, ()) = (Ok ar0, (page_mem, ())) \<and>
     uring_handle_event (blk_uring plain_block) (\<lambda>_ _ s. (True, s)) (\<lambda>_ s. s) (TOKEN_QUEUE OR 5) 0 (ar0, (page_mem, ())) = Some (Ok (), ar, s) \<and>
     sum_list (map unat (ar_counts ar)) + 2 \<le> 256 \<and> unat (ar_shared ar) \<le> 253"
proof -
  let ?qs = "[Some (split_ops id page_queue page_ram, queue_new 0)] :: (u16, hmem \<times> unit) active_queue option list"
  let ?ar = "\<lparr>ar_queues = ?qs, ar_shared = 253, ar_counts = [0]\<rparr>"
  let ?s = "(page_mem, ())"
  have act: "uring_activate (sret ()) (sret ()) (\<lambda>_ s. (Ok False, s)) (\<lambda>_ s. (True, s)) TOKEN_WARKER ?qs (length ?qs) ?s = (Ok ?ar, ?s)"
    by (simp add: uring_activate_def sbind_def RING_SIZE_def QUEUE_RESERVE_SIZE_def)
  have ev: "uring_handle_event (blk_uring plain_block) (\<lambda>_ _ s. (True, s)) (\<lambda>_ s. s) (TOKEN_QUEUE OR 5) 0 (?ar, ?s) = Some (Ok (), ?ar, ?s)"
    by (simp add: uring_handle_event_def submit_buffers_def TOKEN_QUEUE_def TOKEN_DESCRIPTOR_def shl_def)
  have "ring_reachable (blk_uring plain_block) (\<lambda>_ _ s. (True, s)) (\<lambda>_ s. s) ?ar (?ar, ?s)"
    by (rule ring_reachable.event[OF ring_reachable.start ev]) (simp add: TOKEN_QUEUE_def TOKEN_DESCRIPTOR_def shl_def)
  from ring_never_overfull[OF act _ _ this] have "sum_list (map unat (ar_counts ?ar)) + 2 \<le> 256 \<and> unat (ar_shared ?ar) \<le> 253"
    by (simp add: RING_SIZE_def)
  then show ?thesis using act ev by (intro exI[of _ ?ar] exI[of _ ?s]) simp
qed

end
