(* ===== verification/Virtio_Devices.thy ===== *)
theory Virtio_Devices
  imports Virtio_Blk
begin

text \<open>
  \<^verbatim>\<open>alioth/src/virtio/dev/entropy.rs\<close> and \<^verbatim>\<open>balloon.rs\<close>. The state is host memory and the rest of the host; reading the source
  of entropy and advising the kernel about memory are parameters.
\<close>

unbundle bit_operations_syntax

section \<open>The entropy device\<close>

definition entropy_config_size :: u64 where "entropy_config_size = 0"

definition entropy_config_read :: "u64 \<Rightarrow> u8 \<Rightarrow> u64" where "entropy_config_read offset sz = 0"

definition entropy_feature :: u128 where "entropy_feature = FEATURE_BUILT_IN"

definition entropy_handle_queue :: "(slice list \<Rightarrow> 's \<Rightarrow> (u64, io_error) outcome \<times> 's) \<Rightarrow> (u16 \<Rightarrow> 's \<Rightarrow> 's) \<Rightarrow> u16
    \<Rightarrow> ('i, 's) active_queue option list \<times> 's \<Rightarrow> ((unit, virtio_error) outcome \<times> ('i, 's) active_queue option list \<times> 's) option" where
  "entropy_handle_queue source irq index qs =
     on_queue index (fst qs) (snd qs) (\<lambda>vq. handle_desc vq irq index (copy_from_reader source))"

section \<open>The balloon\<close>

record balloon_config =
  bl_num_pages :: u32
  bl_actual :: u32
  bl_free_page_hint_cmd_id :: u32
  bl_poison_val :: u32

definition balloon_config_bytes :: "balloon_config \<Rightarrow> u8 list" where
  "balloon_config_bytes c = le_encode 4 (bl_num_pages c) @ le_encode 4 (bl_actual c) @
     le_encode 4 (bl_free_page_hint_cmd_id c) @ le_encode 4 (bl_poison_val c)"

definition balloon_config_read :: "balloon_config \<Rightarrow> u64 \<Rightarrow> u8 \<Rightarrow> u64" where
  "balloon_config_read c offset sz = zerocopy_read (balloon_config_bytes c) offset sz"

text \<open>Only \<^verbatim>\<open>actual\<close> can be written.\<close>

definition balloon_config_write :: "u64 \<Rightarrow> u8 \<Rightarrow> u64 \<Rightarrow> balloon_config \<Rightarrow> balloon_config" where
  "balloon_config_write offset sz val c = (if (unat offset, unat sz) = (4, 4) then c\<lparr>bl_actual := ucast val\<rparr> else c)"

definition BLF_STATS_VQ :: u128 where "BLF_STATS_VQ = shl 1 1"

definition BLF_FREE_PAGE_HINT :: u128 where "BLF_FREE_PAGE_HINT = shl 1 3"

definition BLF_PAGE_REPORTING :: u128 where "BLF_PAGE_REPORTING = shl 1 5"

definition BLF_ALL :: u128 where "BLF_ALL = 0x3f"

datatype balloon_queue = BqInflate | BqDeflate | BqStats | BqFreePage | BqReporting | BqNotExist

record balloon =
  bl_config :: balloon_config
  bl_feature :: u128
  bl_queues :: "balloon_queue list"

definition balloon_new :: "u64 \<Rightarrow> bool \<Rightarrow> (balloon, virtio_error) outcome" where
  "balloon_new page_size free_page_reporting =
     (if page_size \<noteq> shl 1 12 then Err (VirtioSystem ''Unsupported'')
      else Ok \<lparr>bl_config = \<lparr>bl_num_pages = 0, bl_actual = 0, bl_free_page_hint_cmd_id = 0, bl_poison_val = 0\<rparr>,
         bl_feature = (if free_page_reporting then BLF_ALL else flag_remove BLF_ALL BLF_PAGE_REPORTING),
         bl_queues = replicate 5 BqNotExist\<rparr>)"

definition balloon_feature :: "balloon \<Rightarrow> u128" where
  "balloon_feature b = FEATURE_BUILT_IN OR bl_feature b"

definition balloon_activate :: "u128 \<Rightarrow> balloon \<Rightarrow> balloon" where
  "balloon_activate feature b =
     (let q0 = (bl_queues b)[0 := BqInflate, 1 := BqDeflate];
          (q1, i1) = (if flag_contains feature BLF_STATS_VQ then (q0[2 := BqStats], 3) else (q0, 2));
          (q2, i2) = (if flag_contains feature BLF_FREE_PAGE_HINT then (q1[i1 := BqFreePage], i1 + 1) else (q1, i1));
          q3 = (if flag_contains feature BLF_PAGE_REPORTING then q2[i2 := BqReporting] else q2)
      in b\<lparr>bl_queues := q3\<rparr>)"

definition balloon_reset :: "balloon \<Rightarrow> balloon" where
  "balloon_reset b = b\<lparr>bl_queues := replicate 5 BqNotExist\<rparr>"

text \<open>
  \<^verbatim>\<open>inflate\<close>: the page numbers are read one after the other from host memory, which giving pages back may change; a chunk
  of another size is skipped and failures are only logged.
\<close>

function chunks4 :: "slice \<Rightarrow> slice list" where
  "chunks4 s = (if snd s = 0 then [] else if unat (snd s) \<le> 4 then [s] else (fst s, 4) # chunks4 (fst s + 4, snd s - 4))"
  by auto
termination
  by (relation "measure (\<lambda>s. unat (snd s))") (auto simp: unat_sub word_le_nat_alt)

declare chunks4.simps [simp del]

definition inflate_chunk :: "(slice \<Rightarrow> (hmem \<times> 'w, unit, mem_error) op) \<Rightarrow> ram \<Rightarrow> slice \<Rightarrow> hmem \<times> 'w \<Rightarrow> hmem \<times> 'w" where
  "inflate_chunk advise r chunk s =
     (let bytes = h_read (fst s) chunk
      in if length bytes \<noteq> 4 then s
         else snd (ram_madvise advise r (shl (ucast (le_decode bytes :: u32)) 12) (shl 1 12) s))"

definition inflate :: "(slice \<Rightarrow> (hmem \<times> 'w, unit, mem_error) op) \<Rightarrow> ram \<Rightarrow> slice list \<Rightarrow> hmem \<times> 'w \<Rightarrow> hmem \<times> 'w" where
  "inflate advise r desc s = fold (inflate_chunk advise r) (concat (map chunks4 desc)) s"

definition free_reporting :: "(slice \<Rightarrow> (hmem \<times> 'w, unit, mem_error) op) \<Rightarrow> slice list \<Rightarrow> hmem \<times> 'w \<Rightarrow> hmem \<times> 'w" where
  "free_reporting advise desc s = fold (\<lambda>buf s. snd (advise buf s)) desc s"

definition balloon_serve :: "(slice \<Rightarrow> (hmem \<times> 'w, unit, mem_error) op) \<Rightarrow> ram \<Rightarrow> balloon_queue \<Rightarrow> desc_chain \<Rightarrow> hmem \<times> 'w
    \<Rightarrow> (status \<times> desc_chain, virtio_error) outcome \<times> hmem \<times> 'w" where
  "balloon_serve advise r bq chain s = (case bq of
       BqInflate \<Rightarrow> (Ok (Done 0, chain), inflate advise r (readable chain) s)
     | BqReporting \<Rightarrow> (Ok (Done 0, chain), free_reporting advise (writable chain) s)
     | BqStats \<Rightarrow> (Panic, s) | BqFreePage \<Rightarrow> (Panic, s)
     | _ \<Rightarrow> (Ok (Done 0, chain), s))"

definition balloon_handle_queue :: "(slice \<Rightarrow> (hmem \<times> 'w, unit, mem_error) op) \<Rightarrow> ram \<Rightarrow> (u16 \<Rightarrow> hmem \<times> 'w \<Rightarrow> hmem \<times> 'w) \<Rightarrow> balloon \<Rightarrow> u16
    \<Rightarrow> ('i, hmem \<times> 'w) active_queue option list \<times> hmem \<times> 'w
    \<Rightarrow> ((unit, virtio_error) outcome \<times> ('i, hmem \<times> 'w) active_queue option list \<times> hmem \<times> 'w) option" where
  "balloon_handle_queue advise r irq b index qs =
     (if length (bl_queues b) \<le> unat index then Some (Ok (), qs)
      else let bq = bl_queues b ! unat index
        in if bq = BqStats \<or> bq = BqFreePage then Some (Ok (), qs)
           else on_queue index (fst qs) (snd qs) (\<lambda>vq. handle_desc vq irq index (balloon_serve advise r bq)))"

section \<open>Which pages are given back\<close>

lemma chunks4_whole:
  "unat (snd s) = 4 * n \<Longrightarrow> chunks4 s = map (\<lambda>i. (fst s + 4 * of_nat i, 4)) [0..<n]"
proof (induction n arbitrary: s)
  case 0
  then show ?case by (subst chunks4.simps) (simp add: unat_eq_zero)
next
  case (Suc n)
  have ne: "snd s \<noteq> 0" using Suc.prems by auto
  have rest: "unat (snd s - 4) = 4 * n" using Suc.prems by (subst unat_sub) (auto simp: word_le_nat_alt)
  have IH: "chunks4 (fst s + 4, snd s - 4) = map (\<lambda>i. (fst s + 4 + 4 * of_nat i, 4)) [0..<n]" using Suc.IH[of "(fst s + 4, snd s - 4)"] rest by simp
  show ?case
  proof (cases "n = 0")
    case True
    then have "snd s = 4" using Suc.prems by (simp add: word_unat_eq_iff)
    then show ?thesis using True by (subst chunks4.simps) (simp add: prod_eq_iff)
  next
    case False
    then have "chunks4 s = (fst s, 4) # chunks4 (fst s + 4, snd s - 4)" using ne Suc.prems by (subst chunks4.simps) simp
    then show ?thesis unfolding IH by (simp add: upt_conv_Cons map_Suc_upt[symmetric] algebra_simps del: upt_Suc)
  qed
qed

text \<open>The numbers of \<^verbatim>\<open>BalloonQueue\<close> never reach the branch \<^verbatim>\<open>todo!()\<close>: serving a queue does not panic there.\<close>

lemma balloon_serve_no_panic:
  assumes "\<not> (bq = BqStats \<or> bq = BqFreePage)"
  shows "fst (balloon_serve advise r bq chain s) = Ok (Done 0, chain)"
  using assms by (cases bq) (simp_all add: balloon_serve_def)

text \<open>
  When the driver has accepted all features, the queues are those of the specification, in its order; a feature that it
  declines moves the queues behind it forward.
\<close>

lemma balloon_roles:
  assumes "length (bl_queues b) = 5" "flag_contains f BLF_STATS_VQ" "flag_contains f BLF_FREE_PAGE_HINT" "flag_contains f BLF_PAGE_REPORTING"
  shows "bl_queues (balloon_activate f b) = [BqInflate, BqDeflate, BqStats, BqFreePage, BqReporting]"
proof -
  obtain a0 a1 a2 a3 a4 where "bl_queues b = [a0, a1, a2, a3, a4]"
    using assms(1) by (auto simp: numeral_eq_Suc length_Suc_conv)
  then show ?thesis using assms by (simp add: balloon_activate_def Let_def)
qed

end
