(* ===== verification/Spec2Isabelle.thy ===== *)
theory Spec2Isabelle
  imports Kvm_Vm Ioapic Uart Rtc Fw_Cfg Virtio_Pci Virtio_Worker Virtio_Devices
begin

text \<open>
  A verification development of alioth, a hypervisor for x86-64 and aarch64 in Rust.

  \<^bold>\<open>The program.\<close> A guest processor that leaves the guest with a memory or port access is handled by
  \<^verbatim>\<open>Memory::handle_mmio\<close> and \<^verbatim>\<open>handle_io\<close>, which look the address up on a bus and call the device there. A device may
  answer with an action that changes the memory map, which is how a guest moves a BAR of a PCI function. RAM regions are
  mapped into the virtual machine and into one table, through which devices reach guest memory. A virtio device is a PCI
  function whose registers start a worker; the worker takes descriptor chains from virtqueues in guest memory and
  returns them, and raises interrupts, which the KVM machine routes.

  \<^bold>\<open>The theories\<close>, with the files under \<^verbatim>\<open>src/alioth/src\<close> they model.

  \<^item> \<open>Alioth_Prelude\<close>: word types, outcomes and state passing, the collections of simplification rules, and the helpers of
    \<^verbatim>\<open>utils/utils.rs\<close>. A call gives \<open>Ok\<close>, \<open>Err\<close> or \<open>Panic\<close>; \<open>Panic\<close> stands for a failing assertion, an index out of
    range, \<^verbatim>\<open>unreachable!\<close> and \<^verbatim>\<open>todo!\<close>. Arithmetic wraps, as in a release build.
  \<^item> \<open>Hypervisor\<close>: errors and interfaces of \<^verbatim>\<open>hv/hv.rs\<close>; the locale \<open>irqfd\<close> is the contract of an interrupt descriptor.
  \<^item> \<open>Addressable\<close>: the sorted table of address ranges (\<^verbatim>\<open>mem/addressable.rs\<close>), with the standard library's binary search.
    The locale \<open>address_map\<close> is its contract as a map from addresses to backends.
  \<^item> \<open>Mmio_Bus\<close> (\<^verbatim>\<open>mem/emulated.rs\<close>), \<open>Guest_Ram\<close> (\<^verbatim>\<open>mem/mapped.rs\<close>), \<open>Guest_Memory\<close> (\<^verbatim>\<open>mem/mem.rs\<close>): the bus of emulated devices, the
    view of guest memory as bytes, and the map of regions with its callbacks.
  \<^item> \<open>Virt_Queue\<close>, \<open>Ring_Memory\<close>, \<open>Split_Queue\<close>, \<open>Packed_Queue\<close> (\<^verbatim>\<open>virtio/queue\<close>): the queue over either ring format. The locale
    \<open>virt_queue\<close> is the contract of a ring; both formats interpret it.
  \<^item> \<open>Pci_Header\<close>, \<open>Pci_Cap\<close>, \<open>Pci_Segment\<close> (\<^verbatim>\<open>pci\<close>): configuration headers and BARs, capabilities with MSI and MSI-X, the
    segment with the configuration ports, the bridge and the panic device.
  \<^item> \<open>Kvm_Vm\<close> (\<^verbatim>\<open>hv/kvm/vm\<close>): interrupt routes, interrupt and event descriptors, memory slots. It interprets \<open>irqfd\<close>.
  \<^item> \<open>Ioapic\<close>, \<open>Uart\<close>, \<open>Rtc\<close> (\<^verbatim>\<open>device\<close>): the I/O APIC, the two serial ports with the console reader, the clocks and the
    debug port. The locale \<open>uart\<close> is what the console reader relies on; both ports interpret it.
  \<^item> \<open>Fw_Cfg\<close> (\<^verbatim>\<open>device/fw_cfg/fw_cfg.rs\<close>): the firmware configuration device, its directory of files and its transfers.
  \<^item> \<open>Virtio_Dev\<close>, \<open>Virtio_Pci\<close> (\<^verbatim>\<open>virtio/dev/dev.rs\<close>, \<^verbatim>\<open>virtio/pci.rs\<close>): the worker of a device and its PCI transport.
  \<^item> \<open>Virtio_Blk\<close>, \<open>Virtio_Devices\<close> (\<^verbatim>\<open>virtio/dev\<close>): the block device, the source of entropy and the balloon. \<open>Virtio_Worker\<close>
    (\<^verbatim>\<open>virtio/worker\<close>): what the backends of a worker do with an event, and the submission ring with its counters.

  \<^bold>\<open>State.\<close> A struct is a record with the source's fields; a method takes and returns it. Trait objects are handles, with
  a record of the trait's methods acting on a world \<open>'w\<close>; a lock is held for one step, so an operation is one step. System
  calls, the console, the clock, the calendar, files, the ring of the kernel and the channel to a worker are parameters; what
  is assumed of them is named where it is used (\<open>env_total\<close>, \<open>host_accepts\<close>, \<open>channel_ok\<close>, \<open>file_like\<close>). A named constant
  keeps its name in the source or that name with a prefix for its group (\<open>RT_OUT\<close> for \<^verbatim>\<open>RequestType::OUT\<close>). Host memory is a function from addresses to bytes, so
  that slices of the same memory alias as in the program.

  \<^bold>\<open>Loops.\<close> A loop over a list is structural. A loop that the guest can make endless is a \<^theory_text>\<open>partial_function\<close> in which
  \<open>None\<close> means that it never returns: walking a descriptor chain, serving a queue, publishing an event index, marking
  memory, reserving a PCI slot, reading the console, the worker. There is no fuel. That such a loop returns is proved for
  the inputs for which it does (\<open>split_get_avail_chain\<close>, \<open>packed_get_avail_chain\<close>, \<open>reserve_first_free\<close>,
  \<open>console_input_in_order\<close>), and that it does not for a cyclic chain (\<open>split_get_avail_cycle_hangs\<close>).

  \<^bold>\<open>What is shown.\<close> The table is a map: lookup after insertion and removal, the decision of overlap, inverse
  operations. The bus routes an access to the device that contains it, and the map of regions keeps this through every
  operation, in any order. Reads and writes of guest memory agree with one view of it as bytes, across slots. Every
  offered chain of a queue is served once, in order, and published; a notification is not lost; interrupts follow the
  window of the specification. A guest that writes a BAR moves its region, and only the writable bits of a header change.
  A driver that walks the capabilities finds all of them. The routing table fits its array after any sequence of
  operations. Messages programmed by the guest in the MSI capability or in the I/O APIC reach the KVM machine. The
  worker of a device runs exactly while its driver wants it to. A read-only disk is never changed, what was written to a
  sector is read back, and the requests under way fit the submission ring. The firmware finds every file through the
  directory of its configuration device. Some theorems state behaviour that the code should not
  have; they are \<open>mark_private_skips_second_range\<close>, \<open>split_get_avail_cycle_hangs\<close>, \<open>bar_move_conflict_loses_region\<close>, \<open>unmask_loses_route\<close>,
  \<open>completion_of_changed_request_panics\<close>, \<open>dma_across_slots_repeats\<close> and a part of \<open>queue_setup\<close>.

  \<^bold>\<open>Not modelled.\<close> Code that only passes data to the operating system or to a third-party library: the processor loop and
  confidential computing, the macOS hypervisor, VFIO, vhost and vhost-user, network, socket and file system devices, the
  loops in which a worker waits for the kernel, FUSE, the loaders and firmware tables, the board, the command line and its deserializer.
  Interleavings inside an operation are not modelled, with one exception: the guest may change the rings while the device
  publishes its event index.
\<close>

unbundle bit_operations_syntax

section \<open>From the guest's MSI registers to the kernel\<close>

lemma write_msi_irqfds: "msi_irqfds (fst (write_msi off sz val cap)) = msi_irqfds cap"
  by (simp add: write_msi_def write_msi_control_def write_msi_reg_def Let_def)


text \<open>Two vectors of a machine; the guest writes the address of the message.\<close>

definition two_vectors :: "vm_inner \<times> routing_entry list" where
  "two_vectors = snd (create_irqfd plain_host 0 (snd (create_irqfd plain_host 0 (vm_inner_new None, []))))"


section \<open>From a pin of the interrupt controller to the kernel\<close>

lemma pin_addr_translated:
  "translate_msi_addr_x86 (pin_addr e) 0 = (0xfee00000 OR shl (ucast (re_dest_id e)) 12, shl (ucast (re_virt_dest_id_hi e)) 8)"
proof -
  have f: "get_field 11 5 (pin_addr e) = ucast (re_virt_dest_id_hi e)"
    by (rule bit_word_eqI) (auto simp: bit_get_field pin_addr_def shl_def bit_simps
      simp del: bit_numeral_word_iff dest: apic_base_bits virt_dest_small)
  have r: "\<not> bit (pin_addr e) 4" by (auto simp: pin_addr_def shl_def bit_simps)
  have lo: "set_field 11 5 0 (pin_addr e) = 0xfee00000 OR shl (ucast (re_dest_id e)) 12"
    by (rule bit_word_eqI) (auto simp: bit_set_field pin_addr_def shl_def bit_simps
      simp del: bit_numeral_word_iff dest: apic_base_bits virt_dest_small)
  have hi: "set_field 31 8 (ucast (re_virt_dest_id_hi e)) 0 = (shl (ucast (re_virt_dest_id_hi e)) 8 :: u32)"
    by (rule bit_word_eqI) (auto simp: bit_set_field shl_def bit_simps)
  have z: "get_field 31 8 (0 :: u32) = 0" by (rule bit_word_eqI) (simp add: bit_get_field)
  have "re_virt_dest_id_hi e = 0 \<Longrightarrow> pin_addr e = 0xfee00000 OR shl (ucast (re_dest_id e)) 12" by (simp add: pin_addr_def shl_def)
  moreover have "ucast (ucast (re_virt_dest_id_hi e) :: u32) = re_virt_dest_id_hi e" by (rule bit_word_eqI) (simp add: bit_simps)
  then have "ucast (re_virt_dest_id_hi e) = (0 :: u32) \<longleftrightarrow> re_virt_dest_id_hi e = 0" by (metis unsigned_0)
  ultimately show ?thesis using r by (auto simp: translate_msi_addr_x86_def f lo hi z shl_def)
qed

text \<open>
  C9.  An interrupt pin reaches the processor that the guest chose: after the driver has programmed the redirection
  entry of a pin as unmasked, physical and edge-triggered, raising the pin hands the kernel one message with the
  vector and the delivery mode of the entry, addressed to the 15-bit destination whose low eight bits are the
  destination field and whose high seven bits are the extended destination field.
\<close>

theorem pin_interrupt_delivered:
  assumes "pin < NUM_PINS" "length (redirtbl regs) = 24" "\<not> re_masked e" "\<not> re_logical e" "\<not> re_level e"
    and "kh_arch kh = X86_64"
  shows "service_pin (msi_send kh devid) pin (program_pin pin e regs, (vm, h)) =
    (case map_err SendInterrupt (kh_signal_msi kh (0xfee00000 OR shl (ucast (re_dest_id e)) 12)
         (shl (ucast (re_virt_dest_id_hi e)) 8) (shl (ucast (re_delivery_mode e)) 8 OR ucast (re_vector e)) 0 False) h of
       (r, h') \<Rightarrow> (r, (program_pin pin e regs, (vm, h'))))"
proof -
  let ?regs = "program_pin pin e regs"
  have p: "unat pin < 24" using assms(1) by (simp add: NUM_PINS_def word_less_nat_alt)
  have tab: "redirtbl ?regs = (redirtbl regs)[unat pin := e]" using program_pin_entry[OF assms(1,2)] by simp
  have "ucast (ucast (pin_addr e) :: u64) = pin_addr e" by (rule bit_word_eqI) (simp add: bit_simps)
  moreover have "(ucast (shr (ucast (pin_addr e) :: u64) 32) :: u32) = 0"
    by (rule bit_word_eqI) (auto simp: shr_def bit_simps dest: bit_imp_le_length)
  moreover have "service_pin (msi_send kh devid) pin (?regs, (vm, h)) =
      (case msi_send kh devid (ucast (pin_addr e)) (pin_data e) (vm, h) of (r, w) \<Rightarrow> (r, (?regs, w)))"
    using service_pin_sends[of pin ?regs "msi_send kh devid" "(vm, h)"] assms p tab by simp
  ultimately show ?thesis using assms(6)
    by (simp add: msi_send_def translate_msi_addr_def pin_addr_translated sys_def pin_data_def split: prod.split)
qed

theorem pin_interrupt_delivered_witness:
  "service_pin (msi_send plain_host 0) 4 (program_pin 4 0x1202000000000024 ioapic_new, (vm_inner_new None, [])) =
     (Ok (), (program_pin 4 0x1202000000000024 ioapic_new, (vm_inner_new None, [])))"
  using pin_interrupt_delivered[of 4 ioapic_new "0x1202000000000024" plain_host 0 "vm_inner_new None" "[]"]
  by (simp add: NUM_PINS_def ioapic_new_def re_masked_def re_logical_def re_level_def plain_host_def map_err_def)

end
